(* ===== verification/Prelude.thy ===== *)
theory Prelude
  imports Main "HOL-Library.Finite_Map" "HOL-Library.Word"
begin

text \<open>
  What every component of the development shares: machine integers and byte strings, the
  outcome of a Rust call that may return an error or panic, the operations of a DashMap or a
  HashMap as the code calls them, the allocation-free reachability predicate of a step
  relation, and the locale that turns an inductive invariant into a fact about every
  reachable state.
\<close>

section \<open>Collections of facts\<close>

named_theorems dm_simps \<open>what a map operation returns and what the map holds after it\<close>

named_theorems gw_simps \<open>what a field of the gateway state is after an operation\<close>

section \<open>Types\<close>

type_synonym u64 = "64 word"
type_synonym bytes = "8 word list"

lemma unat_u64_less [simp]: "unat (w :: u64) < 2 ^ 64"
  using unsigned_less [of w] by simp

lemma map_prod_id_sel:
  "map_prod id v p = q \<Longrightarrow> fst p = fst q"
  "map_prod id v p = q \<Longrightarrow> v (snd p) = snd q"
  by (cases p; auto)+

lemma unat_u64_of_nat: "n < 2 ^ 64 \<Longrightarrow> unat (of_nat n :: u64) = n"
  by (simp add: unat_of_nat)

text \<open>
  The outcome of a Rust call: \<open>Ok\<close> and \<open>Err\<close> are the two variants of \<open>Result\<close>, and \<open>Panic\<close> is a
  panic with its message (a failed \<open>expect\<close>, an \<open>unreachable!\<close>). A panic unwinds the task that
  runs the code and leaves the shared state as it was at that point.
\<close>

datatype ('a, 'e) outcome = Ok 'a | Err 'e | Panic string

text \<open>
  The question mark operator of Rust on a call that also updates a state: go on with the value,
  or return the error (or the panic) with the state reached so far.
\<close>

definition and_then ::
  "('a, 'e) outcome \<times> 's \<Rightarrow> ('a \<Rightarrow> 's \<Rightarrow> ('b, 'e) outcome \<times> 's) \<Rightarrow> ('b, 'e) outcome \<times> 's" where
  "and_then r f =
     (case r of
        (Ok x, s) \<Rightarrow> f x s
      | (Err e, s) \<Rightarrow> (Err e, s)
      | (Panic m, s) \<Rightarrow> (Panic m, s))"

lemma and_then_simps [simp]:
  "and_then (Ok x, s) f = f x s"
  "and_then (Err e, s) f = (Err e, s)"
  "and_then (Panic m, s) f = (Panic m, s)"
  by (simp_all add: and_then_def)

lemma and_then_Ok_iff:
  "and_then r f = (Ok y, t) \<longleftrightarrow> (\<exists>x s. r = (Ok x, s) \<and> f x s = (Ok y, t))"
  by (auto simp: and_then_def split: prod.splits outcome.splits)

lemma and_then_Panic_iff:
  "and_then r f = (Panic m, t) \<longleftrightarrow>
     r = (Panic m, t) \<or> (\<exists>x s. r = (Ok x, s) \<and> f x s = (Panic m, t))"
  by (auto simp: and_then_def split: prod.splits outcome.splits)

lemma and_then_Err_iff:
  "and_then r f = (Err e, t) \<longleftrightarrow>
     r = (Err e, t) \<or> (\<exists>x s. r = (Ok x, s) \<and> f x s = (Err e, t))"
  by (auto simp: and_then_def split: prod.splits outcome.splits)

text \<open>A Rust \<open>Result\<close> whose error is kept or wrapped, as a call that cannot panic.\<close>

definition lift_result :: "('e \<Rightarrow> 'f) \<Rightarrow> 'e + 'a \<Rightarrow> ('a, 'f) outcome" where
  "lift_result w r = (case r of Inl e \<Rightarrow> Err (w e) | Inr x \<Rightarrow> Ok x)"

lemma lift_result_simps [simp]:
  "lift_result w (Inl e) = Err (w e)"
  "lift_result w (Inr x) = Ok x"
  by (simp_all add: lift_result_def)

section \<open>Concurrent maps\<close>

text \<open>
  A \<open>DashMap\<close> (and the \<open>HashMap\<close> of the listener) is a finite map. The source calls \<open>insert\<close>,
  \<open>get\<close>, \<open>remove\<close> (which returns the entry it removed), \<open>len\<close> and \<open>is_empty\<close>; each call holds
  the lock of the entry's shard, so each is one atomic step.
\<close>

type_synonym ('k, 'v) dashmap = "('k, 'v) fmap"

definition dm_new :: "('k, 'v) dashmap" where
  "dm_new = fmempty"

definition dm_get :: "('k, 'v) dashmap \<Rightarrow> 'k \<Rightarrow> 'v option" where
  "dm_get m k = fmlookup m k"

definition dm_insert :: "'k \<Rightarrow> 'v \<Rightarrow> ('k, 'v) dashmap \<Rightarrow> ('k, 'v) dashmap" where
  "dm_insert k v m = fmupd k v m"

definition dm_erase :: "'k \<Rightarrow> ('k, 'v) dashmap \<Rightarrow> ('k, 'v) dashmap" where
  "dm_erase k m = fmdrop k m"

definition dm_remove :: "'k \<Rightarrow> ('k, 'v) dashmap \<Rightarrow> 'v option \<times> ('k, 'v) dashmap" where
  [simp]: "dm_remove k m = (dm_get m k, dm_erase k m)"

definition dm_len :: "('k, 'v) dashmap \<Rightarrow> nat" where
  "dm_len m = fcard (fmdom m)"

definition dm_is_empty :: "('k, 'v) dashmap \<Rightarrow> bool" where
  "dm_is_empty m = (dm_len m = 0)"

lemma dm_get_new [simp, dm_simps]: "dm_get dm_new k = None"
  by (simp add: dm_get_def dm_new_def)

lemma dm_get_insert [simp, dm_simps]:
  "dm_get (dm_insert k v m) k' = (if k' = k then Some v else dm_get m k')"
  by (simp add: dm_get_def dm_insert_def)

lemma dm_get_erase [simp, dm_simps]:
  "dm_get (dm_erase k m) k' = (if k' = k then None else dm_get m k')"
  by (simp add: dm_get_def dm_erase_def)

lemma dm_ext: "(\<And>k. dm_get m k = dm_get n k) \<Longrightarrow> m = n"
  by (auto simp: dm_get_def intro: fmap_ext)

lemma dm_erase_absent: "dm_get m k = None \<Longrightarrow> dm_erase k m = m"
  by (rule dm_ext) auto

lemma dm_erase_insert:
  "dm_erase k (dm_insert k v m) = dm_erase k m"
  by (rule dm_ext) auto

text \<open>The keys of a map.\<close>

definition dm_keys :: "('k, 'v) dashmap \<Rightarrow> 'k set" where
  "dm_keys m = fset (fmdom m)"

lemma in_dm_keys_iff: "k \<in> dm_keys m \<longleftrightarrow> dm_get m k \<noteq> None"
  by (auto simp: dm_keys_def dm_get_def fmlookup_dom_iff)

lemma finite_dm_keys [simp]: "finite (dm_keys m)"
  by (simp add: dm_keys_def)

lemma dm_keys_new [simp]: "dm_keys dm_new = {}"
  by (simp add: dm_keys_def dm_new_def)

lemma dm_keys_insert [simp]: "dm_keys (dm_insert k v m) = insert k (dm_keys m)"
  by (auto simp: in_dm_keys_iff split: if_splits)

lemma dm_keys_erase [simp]: "dm_keys (dm_erase k m) = dm_keys m - {k}"
  by (auto simp: in_dm_keys_iff split: if_splits)

lemma dm_len_card: "dm_len m = card (dm_keys m)"
  by (simp add: dm_len_def dm_keys_def fcard.rep_eq)

lemma dm_len_new [simp, dm_simps]: "dm_len dm_new = 0"
  by (simp add: dm_len_def dm_new_def)

lemma dm_len_insert [dm_simps]:
  "dm_len (dm_insert k v m) = (if dm_get m k = None then Suc (dm_len m) else dm_len m)"
  by (simp add: dm_len_card card_insert_if in_dm_keys_iff)

lemma dm_len_erase [dm_simps]:
  "dm_len (dm_erase k m) = (if dm_get m k = None then dm_len m else dm_len m - 1)"
  by (simp add: dm_len_card card_Diff_singleton_if in_dm_keys_iff)

lemma dm_is_empty_iff: "dm_is_empty m \<longleftrightarrow> (\<forall>k. dm_get m k = None)"
  using in_dm_keys_iff [of _ m] by (auto simp: dm_is_empty_def dm_len_card)

lemma dm_is_empty_new [simp]: "dm_is_empty dm_new"
  by (simp add: dm_is_empty_def)

lemma dm_is_empty_insert [simp]: "\<not> dm_is_empty (dm_insert k v m)"
  by (auto simp: dm_is_empty_iff)

section \<open>Reachable states and invariants\<close>

inductive reach :: "('s \<Rightarrow> bool) \<Rightarrow> ('s \<Rightarrow> 's \<Rightarrow> bool) \<Rightarrow> 's \<Rightarrow> bool" for init step where
  reach_init: "init s \<Longrightarrow> reach init step s"
| reach_step: "reach init step s \<Longrightarrow> step s t \<Longrightarrow> reach init step t"

lemma reach_rtranclp: "step\<^sup>*\<^sup>* s t \<Longrightarrow> reach init step s \<Longrightarrow> reach init step t"
  by (induction rule: rtranclp_induct) (auto intro: reach_step)

text \<open>
  An inductive invariant of a step relation: it holds where the system starts and every step
  keeps it. Each component that is a state machine interprets this locale on its own initial
  states, its own steps and its own invariant.
\<close>

locale inductive_invariant =
  fixes init :: "'s \<Rightarrow> bool"
    and step :: "'s \<Rightarrow> 's \<Rightarrow> bool"
    and inv :: "'s \<Rightarrow> bool"
  assumes inv_init: "init s \<Longrightarrow> inv s"
    and inv_step: "inv s \<Longrightarrow> step s t \<Longrightarrow> inv t"
begin

lemma inv_reach: "reach init step s \<Longrightarrow> inv s"
  by (induction rule: reach.induct) (auto intro: inv_init inv_step)

lemma inv_run: "step\<^sup>*\<^sup>* s t \<Longrightarrow> inv s \<Longrightarrow> inv t"
  by (induction rule: rtranclp_induct) (auto intro: inv_step)

end

section \<open>Fair runs\<close>

text \<open>
  A run may stutter. It is weakly fair to an action when the action is taken, or not enabled, again
  and again.
\<close>

definition run_of :: "('s \<Rightarrow> 's \<Rightarrow> bool) \<Rightarrow> (nat \<Rightarrow> 's) \<Rightarrow> bool" where
  "run_of step run \<longleftrightarrow> (\<forall>n. run (Suc n) = run n \<or> step (run n) (run (Suc n)))"

definition weakly_fair :: "('s \<Rightarrow> bool) \<Rightarrow> ('s \<Rightarrow> 's \<Rightarrow> bool) \<Rightarrow> (nat \<Rightarrow> 's) \<Rightarrow> bool" where
  "weakly_fair enabled acts run \<longleftrightarrow>
     (\<forall>n. \<exists>m \<ge> n. acts (run m) (run (Suc m)) \<or> \<not> enabled (run m))"

text \<open>
  A pending state stays pending until the goal is met; the action that fairness is about is enabled
  in it and lowers a rank that no other step raises.
\<close>

locale ranked_progress =
  fixes step :: "'s \<Rightarrow> 's \<Rightarrow> bool"
    and acts :: "'s \<Rightarrow> 's \<Rightarrow> bool"
    and enabled :: "'s \<Rightarrow> bool"
    and pending :: "'s \<Rightarrow> bool"
    and goal :: "'s \<Rightarrow> bool"
    and rank :: "'s \<Rightarrow> nat"
  assumes pending_enabled: "pending s \<Longrightarrow> enabled s"
    and pending_step: "pending s \<Longrightarrow> step s t \<Longrightarrow> goal t \<or> pending t \<and> rank t \<le> rank s"
    and pending_acts: "pending s \<Longrightarrow> acts s t \<Longrightarrow> goal t \<or> pending t \<and> rank t < rank s"
begin

lemma stays_pending:
  assumes "run_of step run" and "pending (run n)"
  shows "n \<le> m \<Longrightarrow> (\<exists>l \<ge> n. goal (run l)) \<or> pending (run m) \<and> rank (run m) \<le> rank (run n)"
proof (induction m rule: dec_induct)
  case base
  then show ?case using assms(2) by simp
next
  case (step m)
  then show ?case
    using assms(1) [unfolded run_of_def] pending_step [of "run m" "run (Suc m)"]
    by (metis le_SucI le_trans)
qed

lemma eventually_goal:
  assumes "run_of step run" and "weakly_fair enabled acts run"
  shows "pending (run n) \<Longrightarrow> \<exists>m \<ge> n. goal (run m)"
proof (induction "rank (run n)" arbitrary: n rule: less_induct)
  case less
  from assms(2) obtain m where m: "n \<le> m" "acts (run m) (run (Suc m)) \<or> \<not> enabled (run m)"
    unfolding weakly_fair_def by blast
  from stays_pending [OF assms(1) less.prems m(1)] show ?case
  proof
    assume p: "pending (run m) \<and> rank (run m) \<le> rank (run n)"
    with m(2) pending_enabled pending_acts
    have "goal (run (Suc m)) \<or> pending (run (Suc m)) \<and> rank (run (Suc m)) < rank (run m)" by blast
    with p m(1) less.hyps [of "Suc m"] show ?thesis by (meson le_SucI le_trans less_le_trans)
  qed blast
qed

end

end
