(* ===== verification/Key_Store.thy ===== *)
theory Key_Store
  imports Prelude
begin

text \<open>
  The identity of the gateway (\<open>src/ic-identity/src/lib.rs\<close>): the key pair is read from a file, which
  is created with a new one if it is not there. Files, randomness and the key format are an
  environment; files keep their content between two starts of the gateway.
\<close>

section \<open>Files\<close>

record file_system =
  files :: "string \<rightharpoonup> bytes"
  dirs :: "string list"

text \<open>
  What the environment does in one start: a new key pair in its written form, the error of a write and
  what a failed write leaves of the file, the error of a read or of the creation of a directory, and
  the parser of the written form (an error is its text).
\<close>

record 'key key_env =
  generate_pkcs8 :: "string + bytes"
  write_error :: "string \<Rightarrow> (string \<times> bytes option) option"
  read_error :: "string \<Rightarrow> string option"
  create_dir_error :: "string \<Rightarrow> string option"
  parse_pkcs8 :: "bytes \<Rightarrow> string + 'key"

definition fs_write :: "'key key_env \<Rightarrow> string \<Rightarrow> bytes \<Rightarrow> file_system \<Rightarrow> (string + unit) \<times> file_system" where
  "fs_write env path content fs =
     (case write_error env path of
        None \<Rightarrow> (Inr (), fs\<lparr>files := (files fs)(path \<mapsto> content)\<rparr>)
      | Some (e, left) \<Rightarrow> (Inl e, fs\<lparr>files := (files fs)(path := left)\<rparr>))"

definition fs_read :: "'key key_env \<Rightarrow> string \<Rightarrow> file_system \<Rightarrow> string + bytes" where
  "fs_read env path fs =
     (case read_error env path of
        Some e \<Rightarrow> Inl e
      | None \<Rightarrow> (case files fs path of Some content \<Rightarrow> Inr content | None \<Rightarrow> Inl ''No such file or directory''))"

section \<open>The key pair\<close>

definition parse_key_pair :: "'key key_env \<Rightarrow> bytes \<Rightarrow> string + 'key" where
  "parse_key_pair env key_pair =
     (case parse_pkcs8 env key_pair of
        Inl e \<Rightarrow> Inl (''Could not parse the key pair. Error: '' @ e)
      | Inr key \<Rightarrow> Inr key)"

definition load_key_pair ::
  "'key key_env \<Rightarrow> string \<Rightarrow> file_system \<Rightarrow> (string + 'key) \<times> file_system" where
  "load_key_pair env dir fs =
     (if files fs dir = None
      then (case generate_pkcs8 env of
              Inl e \<Rightarrow> (Inl (''Could not generate a key pair. Error: '' @ e), fs)
            | Inr key_pair \<Rightarrow>
                (case fs_write env dir key_pair fs of
                   (Inl e, fs1) \<Rightarrow> (Inl (''Could not write to file. Error: '' @ e), fs1)
                 | (Inr _, fs1) \<Rightarrow> (parse_key_pair env key_pair, fs1)))
      else (case fs_read env dir fs of
              Inl e \<Rightarrow> (Inl (''Could not read from file. Error: '' @ e), fs)
            | Inr key_pair \<Rightarrow> (parse_key_pair env key_pair, fs)))"

definition get_principal_from_identity :: "('id \<Rightarrow> string + 'p) \<Rightarrow> 'id \<Rightarrow> string + 'p" where
  "get_principal_from_identity sender identity =
     (case sender identity of
        Inl e \<Rightarrow> Inl (''Could not get principal from key pair. Error: '' @ e)
      | Inr p \<Rightarrow> Inr p)"

text \<open>\<open>principal_from_key_pair.rs\<close>: the principal of the key pair in the file named by an argument.\<close>

definition principal_from_key_pair ::
  "'key key_env \<Rightarrow> ('key \<Rightarrow> 'id) \<Rightarrow> ('id \<Rightarrow> string + 'p) \<Rightarrow> string list \<Rightarrow> file_system
     \<Rightarrow> (string + 'p) \<times> file_system" where
  "principal_from_key_pair env get_identity_from_key_pair sender args fs =
     (if length args \<le> 1 then (Inl ''Need to pass key pair path as argument'', fs)
      else (case load_key_pair env (args ! 1) fs of
              (Inl e, fs1) \<Rightarrow> (Inl e, fs1)
            | (Inr key, fs1) \<Rightarrow>
                (get_principal_from_identity sender (get_identity_from_key_pair key), fs1)))"

definition create_data_dir :: "'key key_env \<Rightarrow> file_system \<Rightarrow> (string + unit) \<times> file_system" where
  "create_data_dir env fs =
     (if \<not> List.member (dirs fs) ''./data''
      then (case create_dir_error env ''./data'' of
              Some e \<Rightarrow> (Inl e, fs)
            | None \<Rightarrow> (Inr (), fs\<lparr>dirs := ''./data'' # dirs fs\<rparr>))
      else (Inr (), fs))"

section \<open>Facts\<close>

lemma create_data_dir_files [simp]: "files (snd (create_data_dir env fs)) = files fs"
  by (simp add: create_data_dir_def split: option.split)

lemma load_key_pair_Inr:
  "load_key_pair env dir fs = (Inr k, fs') \<Longrightarrow>
     \<exists>b. files fs' dir = Some b \<and> parse_pkcs8 env b = Inr k \<and> dirs fs' = dirs fs \<and>
       (files fs dir \<noteq> None \<longrightarrow> fs' = fs)"
  by (auto simp: load_key_pair_def fs_write_def fs_read_def parse_key_pair_def
      split: if_splits sum.splits option.splits)

lemma load_key_pair_present:
  "files fs dir = Some b \<Longrightarrow> parse_pkcs8 env b = Inr k \<Longrightarrow> read_error env dir = None \<Longrightarrow>
     load_key_pair env dir fs = (Inr k, fs)"
  by (simp add: load_key_pair_def fs_read_def parse_key_pair_def)

end
