(* ===== verification/Rust_Std.thy ===== *)
theory Rust_Std
  imports Prelude
begin

text \<open>
  The parts of Rust's standard library whose exact result the code depends on: splitting a
  string at a character, parsing and printing an unsigned 64-bit decimal, and the debug
  rendering of strings inside error messages. A string is its list of bytes.
\<close>

section \<open>Splitting\<close>

text \<open>\<open>str::split(c)\<close>: the pieces between the separators; there is always at least one piece.\<close>

fun str_split :: "char \<Rightarrow> string \<Rightarrow> string list" where
  "str_split sep [] = [[]]"
| "str_split sep (c # cs) =
     (if c = sep then [] # str_split sep cs
      else case str_split sep cs of
             [] \<Rightarrow> [[c]]
           | p # ps \<Rightarrow> (c # p) # ps)"

text \<open>\<open>Iterator::last\<close>\<close>

fun iter_last :: "'a list \<Rightarrow> 'a option" where
  "iter_last [] = None"
| "iter_last [x] = Some x"
| "iter_last (x # xs) = iter_last xs"

lemma str_split_not_Nil [simp]: "str_split sep s \<noteq> []"
  by (induction s) (auto split: list.splits)

lemma iter_last_Some: "xs \<noteq> [] \<Longrightarrow> iter_last xs = Some (last xs)"
  by (induction xs rule: iter_last.induct) auto

lemma str_split_none: "sep \<notin> set s \<Longrightarrow> str_split sep s = [s]"
  by (induction s) auto

lemma last_str_split_Cons_sep [simp]:
  "last (str_split sep (sep # s)) = last (str_split sep s)"
  by simp

lemma last_str_split_append:
  "last (str_split sep (p @ sep # s)) = last (str_split sep s)"
proof (induction p)
  case Nil
  then show ?case by simp
next
  case (Cons c p)
  show ?case
  proof (cases "str_split sep (p @ sep # s)")
    case Nil
    then show ?thesis by simp
  next
    case (Cons q qs)
    moreover have "qs \<noteq> [] \<or> c = sep"
    proof (rule ccontr)
      assume "\<not> (qs \<noteq> [] \<or> c = sep)"
      with Cons have "length (str_split sep (p @ sep # s)) = 1" by simp
      moreover have "2 \<le> length (str_split sep (p @ sep # s))"
      proof (induction p)
        case Nil
        then show ?case by (simp add: Suc_le_eq)
      next
        case (Cons d p)
        then show ?case by (auto split: list.splits)
      qed
      ultimately show False by simp
    qed
    ultimately show ?thesis using Cons.IH by auto
  qed
qed

section \<open>Decimal numbers\<close>

definition digit_val :: "char \<Rightarrow> nat option" where
  "digit_val c =
     (let n = of_char c :: nat in if 48 \<le> n \<and> n \<le> 57 then Some (n - 48) else None)"

definition digit_char :: "nat \<Rightarrow> char" where
  "digit_char d = char_of (48 + d)"

lemma digit_val_digit_char [simp]: "d < 10 \<Longrightarrow> digit_val (digit_char d) = Some d"
  by (simp add: digit_val_def digit_char_def Let_def)

text \<open>\<open>Display\<close> of an unsigned integer.\<close>

fun show_nat :: "nat \<Rightarrow> string" where
  "show_nat n = (if n < 10 then [digit_char n] else show_nat (n div 10) @ [digit_char (n mod 10)])"

declare show_nat.simps [simp del]

lemma show_nat_not_Nil [simp]: "show_nat n \<noteq> []"
  by (subst show_nat.simps) simp

definition show_u64 :: "u64 \<Rightarrow> string" where
  "show_u64 w = show_nat (unat w)"

text \<open>
  \<open>u64::from_str\<close>. The reasons are the variants of \<open>IntErrorKind\<close> the parser of an unsigned
  number can return. Digits are read from the left; at a character that is no digit the
  error is \<open>InvalidDigit\<close>, even if the number had overflowed at that very character.
\<close>

datatype IntErrorKind = Empty | InvalidDigit | PosOverflow

fun parse_digits :: "nat \<Rightarrow> string \<Rightarrow> IntErrorKind + nat" where
  "parse_digits acc [] = Inr acc"
| "parse_digits acc (c # cs) =
     (case digit_val c of
        None \<Rightarrow> Inl InvalidDigit
      | Some d \<Rightarrow>
          if 2 ^ 64 \<le> acc * 10 + d then Inl PosOverflow else parse_digits (acc * 10 + d) cs)"

definition parse_u64 :: "string \<Rightarrow> IntErrorKind + u64" where
  "parse_u64 s =
     (if s = [] then Inl Empty
      else if s = ''+'' \<or> s = ''-'' then Inl InvalidDigit
      else case parse_digits 0 (if hd s = CHR ''+'' then tl s else s) of
             Inl e \<Rightarrow> Inl e
           | Inr n \<Rightarrow> Inr (of_nat n))"

text \<open>The number a string of digits stands for, without a bound.\<close>

fun dec_value :: "nat \<Rightarrow> string \<Rightarrow> nat option" where
  "dec_value acc [] = Some acc"
| "dec_value acc (c # cs) =
     (case digit_val c of None \<Rightarrow> None | Some d \<Rightarrow> dec_value (acc * 10 + d) cs)"

lemma dec_value_mono: "dec_value acc s = Some n \<Longrightarrow> acc \<le> n"
  by (induction s arbitrary: acc) (force split: option.splits)+

lemma parse_digits_Inr_iff:
  "acc < 2 ^ 64 \<Longrightarrow> parse_digits acc s = Inr n \<longleftrightarrow> dec_value acc s = Some n \<and> n < 2 ^ 64"
proof (induction s arbitrary: acc)
  case Nil
  then show ?case by auto
next
  case (Cons c s)
  show ?case
  proof (cases "digit_val c")
    case None
    then show ?thesis by simp
  next
    case (Some d)
    with Cons.IH [of "acc * 10 + d"] dec_value_mono [of "acc * 10 + d" s n] show ?thesis
      by (cases "acc * 10 + d < 2 ^ 64") (auto simp: not_less)
  qed
qed

lemma dec_value_append:
  "dec_value acc (xs @ ys) =
     (case dec_value acc xs of None \<Rightarrow> None | Some n \<Rightarrow> dec_value n ys)"
  by (induction xs arbitrary: acc) (auto split: option.splits)

lemma dec_value_show_nat [simp]: "dec_value 0 (show_nat n) = Some n"
proof (induction n rule: show_nat.induct)
  case (1 n)
  show ?case
  proof (cases "n < 10")
    case True
    then show ?thesis by (subst show_nat.simps) simp
  next
    case False
    with 1 have "dec_value 0 (show_nat (n div 10)) = Some (n div 10)" by simp
    with False show ?thesis
      by (subst show_nat.simps) (simp add: dec_value_append)
  qed
qed

lemma digit_char_ne [simp]:
  "d < 10 \<Longrightarrow> digit_char d \<noteq> CHR ''+''"
  "d < 10 \<Longrightarrow> digit_char d \<noteq> CHR ''-''"
  "d < 10 \<Longrightarrow> digit_char d \<noteq> CHR ''_''"
  using digit_val_digit_char [of d] by (auto simp: digit_val_def)

lemma show_nat_digits: "c \<in> set (show_nat n) \<Longrightarrow> \<exists>d < 10. c = digit_char d"
proof (induction n rule: show_nat.induct)
  case (1 n)
  show ?case
  proof (cases "n < 10")
    case True
    with 1 show ?thesis by (auto simp: show_nat.simps [of n])
  next
    case False
    with "1.prems" have "c \<in> set (show_nat (n div 10)) \<or> c = digit_char (n mod 10)"
      by (auto simp: show_nat.simps [of n])
    moreover have "n mod 10 < 10" by simp
    ultimately show ?thesis using "1.IH" False by blast
  qed
qed

lemma show_nat_no_underscore [simp]: "CHR ''_'' \<notin> set (show_nat n)"
proof
  assume "CHR ''_'' \<in> set (show_nat n)"
  then obtain d where "d < 10" "CHR ''_'' = digit_char d" by (auto dest: show_nat_digits)
  then show False using digit_char_ne(3) [of d] by simp
qed

lemma hd_show_nat: "\<exists>d < 10. hd (show_nat n) = digit_char d"
  by (rule show_nat_digits [of _ n]) simp

lemma parse_u64_show_nat: "n < 2 ^ 64 \<Longrightarrow> parse_u64 (show_nat n) = Inr (of_nat n)"
proof -
  assume n: "n < 2 ^ 64"
  obtain d where d: "d < 10" "hd (show_nat n) = digit_char d" using hd_show_nat by blast
  then have "hd (show_nat n) \<noteq> CHR ''+''" "hd (show_nat n) \<noteq> CHR ''-''"
    by simp_all
  then have "hd (show_nat n) \<noteq> CHR ''+''" "show_nat n \<noteq> ''+''" "show_nat n \<noteq> ''-''"
    by auto
  moreover have "parse_digits 0 (show_nat n) = Inr n"
    using n by (subst parse_digits_Inr_iff) auto
  ultimately show ?thesis by (simp add: parse_u64_def)
qed

lemma parse_u64_show_u64 [simp]: "parse_u64 (show_u64 w) = Inr w"
  unfolding show_u64_def by (subst parse_u64_show_nat) (use unat_u64_less [of w] in auto)

lemma show_u64_no_underscore [simp]: "CHR ''_'' \<notin> set (show_u64 w)"
  by (simp add: show_u64_def)

text \<open>Exactly the strings the parser takes: an optional plus sign, then digits below the bound.\<close>

lemma parse_u64_Inr_iff:
  "parse_u64 s = Inr w \<longleftrightarrow>
     (\<exists>ds. (s = ds \<or> s = CHR ''+'' # ds) \<and> ds \<noteq> [] \<and> dec_value 0 ds = Some (unat w))"
proof
  assume p: "parse_u64 s = Inr w"
  define ds where "ds = (if hd s = CHR ''+'' then tl s else s)"
  from p obtain n where n: "parse_digits 0 ds = Inr n" and w: "w = of_nat n" and s: "s \<noteq> []" "s \<noteq> ''+''"
    by (auto simp: parse_u64_def ds_def split: if_splits sum.splits)
  from n have v: "dec_value 0 ds = Some n" "n < 2 ^ 64"
    by (simp_all add: parse_digits_Inr_iff)
  have "unat w = n" using v(2) w by (simp add: unat_u64_of_nat)
  moreover have "ds \<noteq> []" and "s = ds \<or> s = CHR ''+'' # ds"
    using s by (cases s; auto simp: ds_def)+
  ultimately show "\<exists>ds. (s = ds \<or> s = CHR ''+'' # ds) \<and> ds \<noteq> [] \<and> dec_value 0 ds = Some (unat w)"
    using v(1) by blast
next
  assume "\<exists>ds. (s = ds \<or> s = CHR ''+'' # ds) \<and> ds \<noteq> [] \<and> dec_value 0 ds = Some (unat w)"
  then obtain ds where s: "s = ds \<or> s = CHR ''+'' # ds" and ds: "ds \<noteq> []"
    and v: "dec_value 0 ds = Some (unat w)" by blast
  have lt: "unat w < 2 ^ 64" by (rule unat_u64_less)
  have pd: "parse_digits 0 ds = Inr (unat w)"
    using v lt by (simp add: parse_digits_Inr_iff)
  have "hd ds \<noteq> CHR ''+''" "ds \<noteq> ''-''" using v ds by (cases ds; auto simp: digit_val_def)+
  then show "parse_u64 s = Inr w"
    using s ds pd by (auto simp: parse_u64_def)
qed

section \<open>Debug rendering\<close>

text \<open>
  \<open>Debug\<close> of a string: quotes around it, with the escapes of \<open>char::escape_debug\<close> for ASCII;
  bytes above 127 are left as they are.
\<close>

definition hex_digit :: "nat \<Rightarrow> char" where
  "hex_digit d = (if d < 10 then digit_char d else char_of (87 + d))"

definition escape_char :: "char \<Rightarrow> string" where
  "escape_char c =
     (let n = of_char c :: nat in
      if n = 0 then [char_of (92::nat), CHR ''0'']
      else if n = 9 then [char_of (92::nat), CHR ''t'']
      else if n = 10 then [char_of (92::nat), CHR ''n'']
      else if n = 13 then [char_of (92::nat), CHR ''r'']
      else if n = 34 \<or> n = 92 then [char_of (92::nat), c]
      else if n < 16 then [char_of (92::nat)] @ ''u{'' @ [hex_digit n] @ ''}''
      else if n < 32 \<or> n = 127
           then [char_of (92::nat)] @ ''u{'' @ [hex_digit (n div 16), hex_digit (n mod 16)] @ ''}''
      else [c])"

definition debug_str :: "string \<Rightarrow> string" where
  "debug_str s = [char_of (34::nat)] @ concat (map escape_char s) @ [char_of (34::nat)]"

fun debug_kind :: "IntErrorKind \<Rightarrow> string" where
  "debug_kind Empty = ''Empty''"
| "debug_kind InvalidDigit = ''InvalidDigit''"
| "debug_kind PosOverflow = ''PosOverflow''"

definition debug_parse_error :: "IntErrorKind \<Rightarrow> string" where
  "debug_parse_error k = ''ParseIntError { kind: '' @ debug_kind k @ '' }''"

section \<open>Durations\<close>

text \<open>
  \<open>std::time::Duration\<close> in nanoseconds. Subtraction panics when the result would be negative,
  which is None here.
\<close>

type_synonym duration = nat

text \<open>Time since the start of the program, in nanoseconds.\<close>

type_synonym instant = nat

definition from_millis :: "u64 \<Rightarrow> duration" where
  "from_millis ms = unat ms * 1000000"

definition duration_sub :: "duration \<Rightarrow> duration \<Rightarrow> duration option" where
  "duration_sub a b = (if b \<le> a then Some (a - b) else None)"

end
