(* ===== verification/Canister_Utils.thy ===== *)
theory Canister_Utils
  imports Rust_Std
begin

text \<open>
  The crate \<open>canister-utils\<close> (\<open>src/canister-utils/src/lib.rs\<close>): the keys and messages the
  components exchange, and the calls to the Internet Computer. The agent, candid and the
  canister itself are not part of the repository, so the functions that use them take their
  operations as arguments.
\<close>

section \<open>Principals and client keys\<close>

text \<open>
  A principal is the byte string the \<open>candid\<close> crate wraps; the code compares principals and
  prints them, and the printing function is an argument where it is used.
\<close>

datatype Principal = Principal bytes

record ClientKey =
  client_principal :: Principal
  client_nonce :: u64

definition ClientKey_new :: "Principal \<Rightarrow> u64 \<Rightarrow> ClientKey" where
  "ClientKey_new p n = \<lparr>client_principal = p, client_nonce = n\<rparr>"

text \<open>\<open>impl Display for ClientKey\<close>: the principal's text, an underscore, the nonce.\<close>

definition client_key_to_string :: "(Principal \<Rightarrow> string) \<Rightarrow> ClientKey \<Rightarrow> string" where
  "client_key_to_string to_text k = to_text (client_principal k) @ ''_'' @ show_u64 (client_nonce k)"

lemma ClientKey_new_sel [simp]:
  "client_principal (ClientKey_new p n) = p"
  "client_nonce (ClientKey_new p n) = n"
  by (simp_all add: ClientKey_new_def)

lemma ClientKey_new_eq_iff [simp]: "ClientKey_new p n = ClientKey_new p' n' \<longleftrightarrow> p = p' \<and> n = n'"
  by (auto simp: ClientKey_new_def)

lemma ClientKey_new_collapse [simp]: "ClientKey_new (client_principal k) (client_nonce k) = k"
  by (simp add: ClientKey_new_def)

text \<open>
  The text of the key determines the key, as the label of the per-client metrics needs, provided
  that the text of a principal does.
\<close>

lemma show_u64_inject [simp]: "show_u64 v = show_u64 w \<longleftrightarrow> v = w"
proof
  assume "show_u64 v = show_u64 w"
  then have "parse_u64 (show_u64 v) = parse_u64 (show_u64 w)" by simp
  then show "v = w" by simp
qed simp

lemma append_sep_inject:
  fixes sep :: char
  assumes "x @ sep # s = y @ sep # t" and "sep \<notin> set s" and "sep \<notin> set t"
  shows "x = y \<and> s = t"
proof -
  have "last (str_split sep (x @ sep # s)) = last (str_split sep (y @ sep # t))"
    by (simp only: assms(1))
  then have "s = t"
    using assms(2,3) by (simp add: last_str_split_append str_split_none)
  with assms(1) show ?thesis by simp
qed

lemma client_key_to_string_inject:
  assumes "inj to_text"
  shows "client_key_to_string to_text k = client_key_to_string to_text k' \<longleftrightarrow> k = k'"
proof
  assume "client_key_to_string to_text k = client_key_to_string to_text k'"
  then have "to_text (client_principal k) = to_text (client_principal k')
      \<and> show_u64 (client_nonce k) = show_u64 (client_nonce k')"
    by (intro append_sep_inject [OF _ show_u64_no_underscore show_u64_no_underscore])
       (simp add: client_key_to_string_def)
  with assms show "k = k'" by (simp add: inj_eq)
qed simp

section \<open>Messages\<close>

record CanisterWsOpenArguments =
  open_client_nonce :: u64
  open_gateway_principal :: Principal

record CanisterWsCloseArguments =
  close_client_key :: ClientKey

record CanisterWsGetMessagesArguments =
  get_nonce :: u64

text \<open>Message polled from the canister, as it is relayed to the client.\<close>

record CanisterToClientMessage =
  msg_key :: string
  msg_content :: bytes
  msg_cert :: bytes
  msg_tree :: bytes

text \<open>
  What the content of a canister message carries for its client: the messages of the WebSocket, and
  among them those of the service itself. The gateway relays them without looking inside.
\<close>

record WebsocketMessage =
  wsm_client_key :: ClientKey
  wsm_sequence_num :: u64
  wsm_timestamp :: u64
  wsm_is_service_message :: bool
  wsm_content :: bytes

record CanisterOpenMessageContent =
  opened_client_key :: ClientKey

record CanisterAckMessageContent =
  last_incoming_sequence_num :: u64

datatype CanisterServiceMessage =
    OpenMessage CanisterOpenMessageContent
  | AckMessage CanisterAckMessageContent

text \<open>Element of the list of messages returned to the gateway after polling.\<close>

record CanisterOutputMessage =
  out_client_key :: ClientKey
  out_key :: string
  out_content :: bytes

text \<open>
  The answer to \<open>ws_get_messages\<close>; \<open>cert\<close> and \<open>tree\<close> certify all its messages.
  \<open>is_end_of_queue\<close> is None for canisters whose CDK is older than 0.3.1.
\<close>

record CanisterOutputCertifiedMessages =
  messages :: "CanisterOutputMessage list"
  cert :: bytes
  tree :: bytes
  is_end_of_queue :: "bool option"

section \<open>Errors\<close>

datatype RejectCode = SysFatal | SysTransient | DestinationInvalid | CanisterReject | CanisterError

text \<open>
  The errors of the agent: the variants the code names, each with the text of its payload, and
  one constructor for every variant that the wildcard of a match takes.
\<close>

datatype AgentError =
    InvalidReplicaUrl string
  | TimeoutWaitingForResponse
  | InvalidCborData string
  | HttpError string
  | InvalidReplicaStatus
  | RequestStatusDoneNoReply string
  | LookupPathAbsent string
  | LookupPathUnknown string
  | LookupPathError string
  | CertificateVerificationFailed
  | CertificateNotAuthorized
  | ResponseSizeExceededLimit
  | TransportError string
  | CallDataMismatch string
  | InvalidRejectCode string
  | UncertifiedReject RejectCode string
  | OtherAgentError string

text \<open>\<open>Candid\<close> carries the debug text of the candid error, which is all the code uses of it.\<close>

datatype IcError = Agent AgentError | Candid string | Cdk string

section \<open>Creating the agent\<close>

definition IC_MAINNET_URLS :: "string list" where
  "IC_MAINNET_URLS = [''https://icp0.io'', ''https://icp-api.io'']"

definition is_mainnet :: "string \<Rightarrow> bool" where
  "is_mainnet ic_network_url = List.member IC_MAINNET_URLS ic_network_url"

text \<open>
  The arguments are the builder of the agent (its URL, its identity, and whether it verifies the
  signatures of query responses) and \<open>fetch_root_key\<close>, which replaces the built-in root key by
  the one the replica reports.
\<close>

definition get_new_agent ::
  "(string \<Rightarrow> 'id \<Rightarrow> bool \<Rightarrow> AgentError + 'agent) \<Rightarrow> ('agent \<Rightarrow> AgentError + 'agent)
     \<Rightarrow> string \<Rightarrow> 'id \<Rightarrow> AgentError + 'agent" where
  "get_new_agent build fetch_root_key ic_network_url identity =
     (let mainnet = is_mainnet ic_network_url in
      case build ic_network_url identity mainnet of
        Inl e \<Rightarrow> Inl e
      | Inr agent \<Rightarrow> if \<not> mainnet then fetch_root_key agent else Inr agent)"

section \<open>Calls to the canister\<close>

text \<open>
  What \<open>ws_close\<close> and \<open>ws_get_messages\<close> use of candid and of the agent: encoding the arguments,
  an update call waited for and a query call (canister, method, encoded arguments), and decoding
  the two kinds of reply. The replies of the canister methods are themselves results.
\<close>

record canister_calls =
  encode_close :: "CanisterWsCloseArguments \<Rightarrow> string + bytes"
  encode_get :: "CanisterWsGetMessagesArguments \<Rightarrow> string + bytes"
  update_and_wait :: "Principal \<Rightarrow> string \<Rightarrow> bytes \<Rightarrow> string + bytes"
  query_call :: "Principal \<Rightarrow> string \<Rightarrow> bytes \<Rightarrow> AgentError + bytes"
  decode_close :: "bytes \<Rightarrow> string + (string + unit)"
  decode_get :: "bytes \<Rightarrow> string + (string + CanisterOutputCertifiedMessages)"

definition ws_close ::
  "canister_calls \<Rightarrow> Principal \<Rightarrow> CanisterWsCloseArguments \<Rightarrow> string + unit" where
  "ws_close ic canister_id args =
     (case encode_close ic args of
        Inl e \<Rightarrow> Inl e
      | Inr a \<Rightarrow>
          (case update_and_wait ic canister_id ''ws_close'' a of
             Inl e \<Rightarrow> Inl e
           | Inr res \<Rightarrow>
               (case decode_close ic res of
                  Inl e \<Rightarrow> Inl e
                | Inr r \<Rightarrow> r)))"

definition ws_get_messages ::
  "canister_calls \<Rightarrow> Principal \<Rightarrow> CanisterWsGetMessagesArguments
     \<Rightarrow> IcError + CanisterOutputCertifiedMessages" where
  "ws_get_messages ic canister_id args =
     (case encode_get ic args of
        Inl e \<Rightarrow> Inl (Candid e)
      | Inr a \<Rightarrow>
          (case query_call ic canister_id ''ws_get_messages'' a of
             Inl e \<Rightarrow> Inl (Agent e)
           | Inr res \<Rightarrow>
               (case decode_get ic res of
                  Inl e \<Rightarrow> Inl (Candid e)
                | Inr (Inl e) \<Rightarrow> Inl (Cdk e)
                | Inr (Inr out) \<Rightarrow> Inr out)))"

text \<open>
  The variant for the unit tests (feature \<open>mock-server\<close>), which asks a local server: what \<open>reqwest\<close> gets
  from it (a body, or its error), with the state of the server, and the decoding of a body are parameters.
\<close>

definition ws_get_messages_mock ::
  "(string \<Rightarrow> 'w \<Rightarrow> (string + (string + bytes)) \<times> 'w) \<Rightarrow> (bytes \<Rightarrow> string + CanisterOutputCertifiedMessages)
     \<Rightarrow> Principal \<Rightarrow> CanisterWsGetMessagesArguments
     \<Rightarrow> 'w \<Rightarrow> (CanisterOutputCertifiedMessages, IcError) outcome \<times> 'w" where
  "ws_get_messages_mock http_get decode canister_id args w =
     (case http_get ''http://127.0.0.1:51558/ws_get_messages'' w of
        (Inl e, w') \<Rightarrow> (Panic (''Failed to make HTTP request: '' @ e), w')
      | (Inr (Inl e), w') \<Rightarrow> (Panic (''Failed to read HTTP response: '' @ e), w')
      | (Inr (Inr res), w') \<Rightarrow>
          (case decode res of
             Inl e \<Rightarrow> (Err (Candid e), w')
           | Inr out \<Rightarrow> (Ok out, w')))"

text \<open>With the mock server, the arguments do not matter, so neither does the nonce the poller asks for.\<close>

lemma ws_get_messages_mock_args:
  "ws_get_messages_mock get decode c args = ws_get_messages_mock get decode c' args'"
  by (rule ext) (simp add: ws_get_messages_mock_def)

lemma ws_get_messages_Agent_iff:
  "ws_get_messages ic c args = Inl (Agent e) \<longleftrightarrow>
     (\<exists>a. encode_get ic args = Inr a \<and> query_call ic c ''ws_get_messages'' a = Inl e)"
  by (auto simp: ws_get_messages_def split: sum.splits)

lemma ws_get_messages_Inr_iff:
  "ws_get_messages ic c args = Inr out \<longleftrightarrow>
     (\<exists>a res. encode_get ic args = Inr a \<and> query_call ic c ''ws_get_messages'' a = Inr res
        \<and> decode_get ic res = Inr (Inr out))"
  by (auto simp: ws_get_messages_def split: sum.splits)

text \<open>On mainnet the built-in root key is kept: the root key of the replica is never asked for.\<close>

lemma get_new_agent_mainnet:
  "is_mainnet url \<Longrightarrow> get_new_agent build fetch url ident = build url ident True"
  by (auto simp: get_new_agent_def split: sum.splits)

lemma get_new_agent_not_mainnet:
  "\<not> is_mainnet url \<Longrightarrow>
     get_new_agent build fetch url ident =
       (case build url ident False of Inl e \<Rightarrow> Inl e | Inr a \<Rightarrow> fetch a)"
  by (auto simp: get_new_agent_def split: sum.splits)

end
