(* ===== verification/Gateway_State.thy ===== *)
theory Gateway_State
  imports Canister_Utils
begin

text \<open>
  The crate \<open>gateway-state\<close> (\<open>src/gateway-state/src/lib.rs\<close>): the state all tasks of the
  gateway share. It maps each polled canister to the state of its poller, which maps the
  clients connected to that canister to the sending side of their channel.

  A poller state is an \<open>Arc\<close>: the gateway state, the poller and the session handler that starts
  the poller hold the same map. The model keeps the maps in a heap and hands out references, so
  that what one task writes through its reference is what another reads through its own.
  Tracing spans carry no behaviour and are left out. The gauge the functions set is kept, one
  value per canister.
\<close>

section \<open>State\<close>

type_synonym CanisterPrincipal = Principal

text \<open>The sending side of a client's channel is known by the identifier of the client connection.\<close>

type_synonym chan_id = u64

record ClientSender =
  sender :: chan_id

type_synonym PollerState = "(ClientKey, ClientSender) dashmap"

type_synonym poller_ref = nat

record GatewayState =
  data :: "(CanisterPrincipal, poller_ref) dashmap"
  arcs :: "poller_ref \<Rightarrow> PollerState"
  next_arc :: poller_ref
  clients_connected :: "CanisterPrincipal \<Rightarrow> nat"

definition GatewayState_new :: GatewayState where
  "GatewayState_new =
     \<lparr>data = dm_new, arcs = (\<lambda>_. dm_new), next_arc = 0, clients_connected = (\<lambda>_. 0)\<rparr>"

text \<open>Determines whether the client was removed from the poller state or if there was no such client.\<close>

datatype ClientRemovalResult = Removed ClientKey | Vacant

text \<open>Determines whether the canister was removed from the gateway state or not.\<close>

datatype CanisterRemovalResult = EmptyState | NotEmpty

text \<open>Writing through a reference, and setting the gauge to the number of clients behind it.\<close>

definition set_arc :: "poller_ref \<Rightarrow> PollerState \<Rightarrow> GatewayState \<Rightarrow> GatewayState" where
  "set_arc r m g = g\<lparr>arcs := (arcs g)(r := m)\<rparr>"

definition set_clients_gauge :: "CanisterPrincipal \<Rightarrow> nat \<Rightarrow> GatewayState \<Rightarrow> GatewayState" where
  "set_clients_gauge c n g = g\<lparr>clients_connected := (clients_connected g)(c := n)\<rparr>"

section \<open>Operations\<close>

definition insert_client_channel_and_get_new_poller_state ::
  "CanisterPrincipal \<Rightarrow> ClientKey \<Rightarrow> chan_id \<Rightarrow> GatewayState \<Rightarrow> poller_ref option \<times> GatewayState" where
  "insert_client_channel_and_get_new_poller_state canister_id client_key client_channel_tx g =
     (case dm_get (data g) canister_id of
        Some r \<Rightarrow>
          let poller_state = dm_insert client_key \<lparr>sender = client_channel_tx\<rparr> (arcs g r);
              g1 = set_arc r poller_state g;
              g2 = set_clients_gauge canister_id (dm_len poller_state) g1
          in (None, g2)
      | None \<Rightarrow>
          let r = next_arc g;
              poller_state = dm_insert client_key \<lparr>sender = client_channel_tx\<rparr> dm_new;
              g1 = set_arc r poller_state (g\<lparr>next_arc := Suc r\<rparr>);
              g2 = g1\<lparr>data := dm_insert canister_id r (data g1)\<rparr>;
              g3 = set_clients_gauge canister_id (dm_len poller_state) g2
          in (Some r, g3))"

definition remove_client ::
  "CanisterPrincipal \<Rightarrow> ClientKey \<Rightarrow> GatewayState \<Rightarrow> (unit, string) outcome \<times> GatewayState" where
  "remove_client canister_id client_key g =
     (case dm_get (data g) canister_id of
        Some r \<Rightarrow>
          (case dm_remove client_key (arcs g r) of
             (None, _) \<Rightarrow> (Panic ''Client key not found in poller state'', g)
           | (Some _, poller_state) \<Rightarrow>
               (Ok (), set_clients_gauge canister_id (dm_len poller_state) (set_arc r poller_state g)))
      | None \<Rightarrow> (Ok (), g))"

definition get_active_pollers_count :: "GatewayState \<Rightarrow> nat" where
  "get_active_pollers_count g = dm_len (data g)"

definition remove_client_if_exists ::
  "CanisterPrincipal \<Rightarrow> ClientKey \<Rightarrow> GatewayState \<Rightarrow> ClientRemovalResult \<times> GatewayState" where
  "remove_client_if_exists canister_id client_key g =
     (case dm_get (data g) canister_id of
        Some r \<Rightarrow>
          (case dm_remove client_key (arcs g r) of
             (Some _, poller_state) \<Rightarrow>
               (Removed client_key,
                set_clients_gauge canister_id (dm_len poller_state) (set_arc r poller_state g))
           | (None, _) \<Rightarrow> (Vacant, g))
      | None \<Rightarrow> (Vacant, g))"

text \<open>
  \<open>DashMap::remove_if\<close> with \<open>is_empty\<close> as its condition: the test and the removal are one step.
\<close>

definition remove_canister_if_empty ::
  "CanisterPrincipal \<Rightarrow> GatewayState \<Rightarrow> CanisterRemovalResult \<times> GatewayState" where
  "remove_canister_if_empty canister_id g =
     (case dm_get (data g) canister_id of
        Some r \<Rightarrow>
          if dm_is_empty (arcs g r)
          then (EmptyState, g\<lparr>data := dm_erase canister_id (data g)\<rparr>)
          else (NotEmpty, g)
      | None \<Rightarrow> (NotEmpty, g))"

definition remove_failed_canister ::
  "CanisterPrincipal \<Rightarrow> GatewayState \<Rightarrow> (unit, string) outcome \<times> GatewayState" where
  "remove_failed_canister canister_id g =
     (case dm_remove canister_id (data g) of
        (None, _) \<Rightarrow> (Panic ''failed canister not found in gateway state'', g)
      | (Some _, data') \<Rightarrow> (Ok (), g\<lparr>data := data'\<rparr>))"

section \<open>Well-formed states\<close>

text \<open>
  Every reference in the gateway state was allocated, no two canisters share a poller state, and
  the gauge of a polled canister is the number of its clients.
\<close>

definition gateway_wf :: "GatewayState \<Rightarrow> bool" where
  "gateway_wf g \<longleftrightarrow>
     (\<forall>c r. dm_get (data g) c = Some r \<longrightarrow> r < next_arc g) \<and>
     (\<forall>c c' r. dm_get (data g) c = Some r \<longrightarrow> dm_get (data g) c' = Some r \<longrightarrow> c = c') \<and>
     (\<forall>c r. dm_get (data g) c = Some r \<longrightarrow> clients_connected g c = dm_len (arcs g r))"

lemma gateway_wf_less: "gateway_wf g \<Longrightarrow> dm_get (data g) c = Some r \<Longrightarrow> r < next_arc g"
  by (auto simp: gateway_wf_def)

lemma gateway_wf_inj:
  "gateway_wf g \<Longrightarrow> dm_get (data g) c = Some r \<Longrightarrow> dm_get (data g) c' = Some r \<Longrightarrow> c = c'"
  by (auto simp: gateway_wf_def)

lemma gateway_wf_gauge:
  "gateway_wf g \<Longrightarrow> dm_get (data g) c = Some r \<Longrightarrow> clients_connected g c = dm_len (arcs g r)"
  by (auto simp: gateway_wf_def)

lemma gateway_wf_new [simp]: "gateway_wf GatewayState_new"
  by (simp add: gateway_wf_def GatewayState_new_def)

text \<open>The two ways an operation writes the shared state, and what they keep.\<close>

lemma set_arc_sel [simp, gw_simps]:
  "data (set_arc r m g) = data g"
  "arcs (set_arc r m g) = (arcs g)(r := m)"
  "next_arc (set_arc r m g) = next_arc g"
  "clients_connected (set_arc r m g) = clients_connected g"
  by (simp_all add: set_arc_def)

lemma set_clients_gauge_sel [simp, gw_simps]:
  "data (set_clients_gauge c n g) = data g"
  "arcs (set_clients_gauge c n g) = arcs g"
  "next_arc (set_clients_gauge c n g) = next_arc g"
  "clients_connected (set_clients_gauge c n g) = (clients_connected g)(c := n)"
  by (simp_all add: set_clients_gauge_def)

lemma gateway_wf_write:
  assumes "gateway_wf g" and "dm_get (data g) c = Some r"
  shows "gateway_wf (set_clients_gauge c (dm_len m) (set_arc r m g))"
  using assms by (auto simp: gateway_wf_def)

lemma gateway_wf_drop:
  assumes "gateway_wf g"
  shows "gateway_wf (g\<lparr>data := dm_erase c (data g)\<rparr>)"
  using assms by (auto simp: gateway_wf_def split: if_splits)

lemma gateway_wf_insert:
  assumes wf: "gateway_wf g"
  shows "gateway_wf (snd (insert_client_channel_and_get_new_poller_state c k tx g))"
proof (cases "dm_get (data g) c")
  case None
  let ?m = "dm_insert k \<lparr>sender = tx\<rparr> dm_new"
  from wf have lt: "\<And>c r. dm_get (data g) c = Some r \<Longrightarrow> r < next_arc g"
    by (rule gateway_wf_less)
  have "snd (insert_client_channel_and_get_new_poller_state c k tx g) =
      set_clients_gauge c (dm_len ?m)
        (set_arc (next_arc g) ?m
           (g\<lparr>next_arc := Suc (next_arc g), data := dm_insert c (next_arc g) (data g)\<rparr>))"
    using None
    by (simp add: insert_client_channel_and_get_new_poller_state_def Let_def set_arc_def
        set_clients_gauge_def)
  then show ?thesis
    using wf by (auto simp: gateway_wf_def less_Suc_eq split: if_splits dest: lt)
next
  case (Some r)
  with wf show ?thesis
    by (simp add: insert_client_channel_and_get_new_poller_state_def Let_def gateway_wf_write)
qed

lemma gateway_wf_remove_client: "gateway_wf g \<Longrightarrow> gateway_wf (snd (remove_client c k g))"
  by (auto simp: remove_client_def gateway_wf_write split: option.splits prod.splits)

lemma gateway_wf_remove_client_if_exists:
  "gateway_wf g \<Longrightarrow> gateway_wf (snd (remove_client_if_exists c k g))"
  by (auto simp: remove_client_if_exists_def gateway_wf_write split: option.splits prod.splits)

lemma gateway_wf_remove_canister_if_empty:
  "gateway_wf g \<Longrightarrow> gateway_wf (snd (remove_canister_if_empty c g))"
  by (auto simp: remove_canister_if_empty_def gateway_wf_drop split: option.splits)

lemma gateway_wf_remove_failed_canister:
  assumes "gateway_wf g"
  shows "gateway_wf (snd (remove_failed_canister c g))"
proof -
  have "snd (remove_failed_canister c g) = g \<or>
      snd (remove_failed_canister c g) = g\<lparr>data := dm_erase c (data g)\<rparr>"
    by (auto simp: remove_failed_canister_def split: option.splits prod.splits)
  with assms show ?thesis by (auto simp: gateway_wf_drop)
qed

lemmas gateway_wf_ops =
  gateway_wf_insert gateway_wf_remove_client gateway_wf_remove_client_if_exists
  gateway_wf_remove_canister_if_empty gateway_wf_remove_failed_canister

section \<open>The abstract registry\<close>

text \<open>
  What the gateway state promises, without references: which canisters are polled and which
  client of each has which channel.
\<close>

type_synonym registry = "CanisterPrincipal \<rightharpoonup> (ClientKey \<rightharpoonup> ClientSender)"

definition spec_insert ::
  "CanisterPrincipal \<Rightarrow> ClientKey \<Rightarrow> chan_id \<Rightarrow> registry \<Rightarrow> bool \<times> registry" where
  "spec_insert c k tx R =
     (R c = None,
      R(c \<mapsto> (case R c of None \<Rightarrow> Map.empty | Some m \<Rightarrow> m)(k \<mapsto> \<lparr>sender = tx\<rparr>)))"

definition spec_remove ::
  "CanisterPrincipal \<Rightarrow> ClientKey \<Rightarrow> registry \<Rightarrow> (unit, string) outcome \<times> registry" where
  "spec_remove c k R =
     (case R c of
        None \<Rightarrow> (Ok (), R)
      | Some m \<Rightarrow>
          if m k = None then (Panic ''Client key not found in poller state'', R)
          else (Ok (), R(c \<mapsto> m(k := None))))"

definition spec_remove_if_exists ::
  "CanisterPrincipal \<Rightarrow> ClientKey \<Rightarrow> registry \<Rightarrow> ClientRemovalResult \<times> registry" where
  "spec_remove_if_exists c k R =
     (case R c of
        None \<Rightarrow> (Vacant, R)
      | Some m \<Rightarrow> if m k = None then (Vacant, R) else (Removed k, R(c \<mapsto> m(k := None))))"

definition spec_remove_if_empty ::
  "CanisterPrincipal \<Rightarrow> registry \<Rightarrow> CanisterRemovalResult \<times> registry" where
  "spec_remove_if_empty c R =
     (if R c = Some Map.empty then (EmptyState, R(c := None)) else (NotEmpty, R))"

definition spec_remove_failed ::
  "CanisterPrincipal \<Rightarrow> registry \<Rightarrow> (unit, string) outcome \<times> registry" where
  "spec_remove_failed c R =
     (if R c = None then (Panic ''failed canister not found in gateway state'', R)
      else (Ok (), R(c := None)))"

text \<open>The registry a gateway state stands for.\<close>

definition registry_of :: "GatewayState \<Rightarrow> registry" where
  "registry_of g c = map_option (\<lambda>r. dm_get (arcs g r)) (dm_get (data g) c)"

lemma registry_of_None_iff [simp]: "registry_of g c = None \<longleftrightarrow> dm_get (data g) c = None"
  by (simp add: registry_of_def)

lemma registry_of_Some:
  "dm_get (data g) c = Some r \<Longrightarrow> registry_of g c = Some (dm_get (arcs g r))"
  by (simp add: registry_of_def)

lemma registry_of_new [simp]: "registry_of GatewayState_new = Map.empty"
  by (rule ext) (simp add: GatewayState_new_def)

lemma registry_of_write:
  assumes "gateway_wf g" and "dm_get (data g) c = Some r"
  shows "registry_of (set_clients_gauge c n (set_arc r m g)) = (registry_of g)(c \<mapsto> dm_get m)"
proof
  fix c'
  show "registry_of (set_clients_gauge c n (set_arc r m g)) c' = ((registry_of g)(c \<mapsto> dm_get m)) c'"
    using assms by (cases "dm_get (data g) c'") (auto simp: registry_of_def dest: gateway_wf_inj)
qed

lemma registry_of_drop:
  "registry_of (g\<lparr>data := dm_erase c (data g)\<rparr>) = (registry_of g)(c := None)"
  by (rule ext) (simp add: registry_of_def)

lemma dm_get_insert_fun: "dm_get (dm_insert k v m) = (dm_get m)(k \<mapsto> v)"
  by (rule ext) simp

lemma dm_get_erase_fun: "dm_get (dm_erase k m) = (dm_get m)(k := None)"
  by (rule ext) simp

lemma dm_get_new_fun: "dm_get dm_new = Map.empty"
  by (rule ext) simp

section \<open>Every operation implements its specification\<close>

lemma refine_insert:
  assumes wf: "gateway_wf g"
  shows "registry_of (snd (insert_client_channel_and_get_new_poller_state c k tx g)) =
           snd (spec_insert c k tx (registry_of g))"
    and "fst (insert_client_channel_and_get_new_poller_state c k tx g) \<noteq> None \<longleftrightarrow>
           fst (spec_insert c k tx (registry_of g))"
proof -
  let ?ins = "insert_client_channel_and_get_new_poller_state c k tx g"
  have "registry_of (snd ?ins) = snd (spec_insert c k tx (registry_of g)) \<and>
      (fst ?ins \<noteq> None \<longleftrightarrow> fst (spec_insert c k tx (registry_of g)))"
  proof (cases "dm_get (data g) c")
    case (Some r)
    then show ?thesis
      using registry_of_write [OF wf Some]
      by (simp add: insert_client_channel_and_get_new_poller_state_def Let_def spec_insert_def
          registry_of_Some dm_get_insert_fun)
  next
    case None
    have "registry_of (snd ?ins) c' = (snd (spec_insert c k tx (registry_of g))) c'" for c'
      using None wf
      by (auto simp: insert_client_channel_and_get_new_poller_state_def Let_def spec_insert_def
          registry_of_def dm_get_insert_fun dm_get_new_fun
          split: option.splits dest: gateway_wf_less
          intro!: option.map_cong0)
    with None show ?thesis
      by (auto simp: insert_client_channel_and_get_new_poller_state_def Let_def spec_insert_def)
  qed
  then show "registry_of (snd ?ins) = snd (spec_insert c k tx (registry_of g))"
    and "fst ?ins \<noteq> None \<longleftrightarrow> fst (spec_insert c k tx (registry_of g))" by auto
qed

lemma refine_remove_client:
  assumes wf: "gateway_wf g"
  shows "map_prod id registry_of (remove_client c k g) = spec_remove c k (registry_of g)"
proof (cases "dm_get (data g) c")
  case (Some r)
  show ?thesis
    using Some registry_of_write [OF wf Some, of _ "dm_erase k (arcs g r)"]
    by (auto simp: remove_client_def spec_remove_def registry_of_Some dm_get_erase_fun
        split: option.splits)
qed (simp add: remove_client_def spec_remove_def registry_of_def)

lemma refine_remove_client_if_exists:
  assumes wf: "gateway_wf g"
  shows "map_prod id registry_of (remove_client_if_exists c k g) =
           spec_remove_if_exists c k (registry_of g)"
proof (cases "dm_get (data g) c")
  case (Some r)
  show ?thesis
    using Some registry_of_write [OF wf Some, of _ "dm_erase k (arcs g r)"]
    by (auto simp: remove_client_if_exists_def spec_remove_if_exists_def registry_of_Some
        dm_get_erase_fun split: option.splits)
qed (simp add: remove_client_if_exists_def spec_remove_if_exists_def registry_of_def)

lemma dm_is_empty_fun: "dm_is_empty m \<longleftrightarrow> dm_get m = Map.empty"
  by (auto simp: dm_is_empty_iff fun_eq_iff)

lemma refine_remove_canister_if_empty:
  "map_prod id registry_of (remove_canister_if_empty c g) =
     spec_remove_if_empty c (registry_of g)"
  by (auto simp: remove_canister_if_empty_def spec_remove_if_empty_def registry_of_def
      dm_is_empty_fun registry_of_drop split: option.splits)

lemma refine_remove_failed_canister:
  "map_prod id registry_of (remove_failed_canister c g) = spec_remove_failed c (registry_of g)"
  by (auto simp: remove_failed_canister_def spec_remove_failed_def registry_of_drop
      split: option.splits)

section \<open>The interface the tasks rely on\<close>

text \<open>
  The session handlers and the pollers use the shared state through five operations. The laws of
  the interface say that each behaves as its specification on the registry it stands for.
\<close>

locale client_registry =
  fixes ok :: "'g \<Rightarrow> bool"
    and view :: "'g \<Rightarrow> registry"
    and ins :: "CanisterPrincipal \<Rightarrow> ClientKey \<Rightarrow> chan_id \<Rightarrow> 'g \<Rightarrow> 'r option \<times> 'g"
    and rem :: "CanisterPrincipal \<Rightarrow> ClientKey \<Rightarrow> 'g \<Rightarrow> (unit, string) outcome \<times> 'g"
    and rem_if_exists :: "CanisterPrincipal \<Rightarrow> ClientKey \<Rightarrow> 'g \<Rightarrow> ClientRemovalResult \<times> 'g"
    and rem_if_empty :: "CanisterPrincipal \<Rightarrow> 'g \<Rightarrow> CanisterRemovalResult \<times> 'g"
    and rem_failed :: "CanisterPrincipal \<Rightarrow> 'g \<Rightarrow> (unit, string) outcome \<times> 'g"
  assumes ok_ins: "ok g \<Longrightarrow> ok (snd (ins c k tx g))"
    and ok_rem: "ok g \<Longrightarrow> ok (snd (rem c k g))"
    and ok_rem_if_exists: "ok g \<Longrightarrow> ok (snd (rem_if_exists c k g))"
    and ok_rem_if_empty: "ok g \<Longrightarrow> ok (snd (rem_if_empty c g))"
    and ok_rem_failed: "ok g \<Longrightarrow> ok (snd (rem_failed c g))"
    and view_ins: "ok g \<Longrightarrow> view (snd (ins c k tx g)) = snd (spec_insert c k tx (view g))"
    and ins_new: "ok g \<Longrightarrow> fst (ins c k tx g) \<noteq> None \<longleftrightarrow> fst (spec_insert c k tx (view g))"
    and view_rem: "ok g \<Longrightarrow> map_prod id view (rem c k g) = spec_remove c k (view g)"
    and view_rem_if_exists:
      "ok g \<Longrightarrow> map_prod id view (rem_if_exists c k g) = spec_remove_if_exists c k (view g)"
    and view_rem_if_empty:
      "ok g \<Longrightarrow> map_prod id view (rem_if_empty c g) = spec_remove_if_empty c (view g)"
    and view_rem_failed:
      "ok g \<Longrightarrow> map_prod id view (rem_failed c g) = spec_remove_failed c (view g)"
begin

lemma fst_rem: "ok g \<Longrightarrow> fst (rem c k g) = fst (spec_remove c k (view g))"
  by (rule map_prod_id_sel(1) [OF view_rem])

lemma snd_rem: "ok g \<Longrightarrow> view (snd (rem c k g)) = snd (spec_remove c k (view g))"
  by (rule map_prod_id_sel(2) [OF view_rem])

lemma snd_rem_if_empty:
  "ok g \<Longrightarrow> view (snd (rem_if_empty c g)) = snd (spec_remove_if_empty c (view g))"
  by (rule map_prod_id_sel(2) [OF view_rem_if_empty])

lemma fst_rem_if_empty:
  "ok g \<Longrightarrow> fst (rem_if_empty c g) = fst (spec_remove_if_empty c (view g))"
  by (rule map_prod_id_sel(1) [OF view_rem_if_empty])

lemma fst_rem_if_exists:
  "ok g \<Longrightarrow> fst (rem_if_exists c k g) = fst (spec_remove_if_exists c k (view g))"
  by (rule map_prod_id_sel(1) [OF view_rem_if_exists])

lemma snd_rem_if_exists:
  "ok g \<Longrightarrow> view (snd (rem_if_exists c k g)) = snd (spec_remove_if_exists c k (view g))"
  by (rule map_prod_id_sel(2) [OF view_rem_if_exists])

lemma fst_rem_failed: "ok g \<Longrightarrow> fst (rem_failed c g) = fst (spec_remove_failed c (view g))"
  by (rule map_prod_id_sel(1) [OF view_rem_failed])

lemma snd_rem_failed:
  "ok g \<Longrightarrow> view (snd (rem_failed c g)) = snd (spec_remove_failed c (view g))"
  by (rule map_prod_id_sel(2) [OF view_rem_failed])

lemmas view_simps =
  view_ins fst_rem snd_rem fst_rem_if_empty snd_rem_if_empty fst_rem_if_exists
  snd_rem_if_exists fst_rem_failed snd_rem_failed

lemma ins_then_rem:
  "ok g \<Longrightarrow> fst (rem c k (snd (ins c k tx g))) = Ok ()"
  by (auto simp: ok_ins view_simps spec_insert_def spec_remove_def)

lemma ins_then_rem_view:
  assumes "ok g" and "view g c = Some m" and "m k = None"
  shows "view (snd (rem c k (snd (ins c k tx g)))) = view g"
proof -
  have "m(k := None) = m" "(view g)(c \<mapsto> m) = view g" using assms(2,3) by auto
  with assms show ?thesis by (simp add: ok_ins view_simps spec_insert_def spec_remove_def)
qed

lemma rem_twice_panics:
  assumes "ok g" and "view g c = Some m"
  shows "fst (rem c k (snd (rem c k g))) = Panic ''Client key not found in poller state''"
  using assms by (auto simp: ok_rem view_simps spec_remove_def)

lemma polled_stays: "ok g \<Longrightarrow> view g c \<noteq> None \<Longrightarrow> view (snd (ins c' k tx g)) c \<noteq> None"
  by (auto simp: view_simps spec_insert_def)

lemma ins_polls: "ok g \<Longrightarrow> view (snd (ins c k tx g)) c \<noteq> None"
  by (auto simp: view_simps spec_insert_def)

lemma emptied_is_removed:
  assumes "ok g" and "view g c = Some m" and "m k \<noteq> None" and "\<And>k'. k' \<noteq> k \<Longrightarrow> m k' = None"
  shows "fst (rem_if_empty c (snd (rem c k g))) = EmptyState"
    and "view (snd (rem_if_empty c (snd (rem c k g)))) c = None"
proof -
  have "m(k := None) = Map.empty" using assms(4) by (auto simp: fun_eq_iff)
  with assms show "fst (rem_if_empty c (snd (rem c k g))) = EmptyState"
    and "view (snd (rem_if_empty c (snd (rem c k g)))) c = None"
    by (auto simp: ok_rem view_simps spec_remove_def spec_remove_if_empty_def)
qed

end

text \<open>The specification is itself an implementation of the interface.\<close>

interpretation spec_registry:
  client_registry "\<lambda>_. True" "\<lambda>R. R"
    "\<lambda>c k tx R. (if fst (spec_insert c k tx R) then Some () else None, snd (spec_insert c k tx R))"
    spec_remove spec_remove_if_exists spec_remove_if_empty spec_remove_failed
  by unfold_locales (auto simp: id_def prod.map_ident)

text \<open>The gateway state provides the interface.\<close>

interpretation gateway:
  client_registry gateway_wf registry_of insert_client_channel_and_get_new_poller_state
    remove_client remove_client_if_exists remove_canister_if_empty remove_failed_canister
  by unfold_locales
     (erule gateway_wf_ops refine_insert refine_remove_client refine_remove_client_if_exists
       | rule refine_remove_canister_if_empty refine_remove_failed_canister)+

section \<open>Sequences of operations\<close>

datatype gateway_op =
    InsertClient CanisterPrincipal ClientKey chan_id
  | RemoveClient CanisterPrincipal ClientKey
  | RemoveClientIfExists CanisterPrincipal ClientKey
  | RemoveCanisterIfEmpty CanisterPrincipal
  | RemoveFailedCanister CanisterPrincipal

text \<open>The shared state after one operation, whatever the operation returns.\<close>

fun apply_gateway_op :: "gateway_op \<Rightarrow> GatewayState \<Rightarrow> GatewayState" where
  "apply_gateway_op (InsertClient c k tx) g =
     snd (insert_client_channel_and_get_new_poller_state c k tx g)"
| "apply_gateway_op (RemoveClient c k) g = snd (remove_client c k g)"
| "apply_gateway_op (RemoveClientIfExists c k) g = snd (remove_client_if_exists c k g)"
| "apply_gateway_op (RemoveCanisterIfEmpty c) g = snd (remove_canister_if_empty c g)"
| "apply_gateway_op (RemoveFailedCanister c) g = snd (remove_failed_canister c g)"

fun spec_gateway_op :: "gateway_op \<Rightarrow> registry \<Rightarrow> registry" where
  "spec_gateway_op (InsertClient c k tx) R = snd (spec_insert c k tx R)"
| "spec_gateway_op (RemoveClient c k) R = snd (spec_remove c k R)"
| "spec_gateway_op (RemoveClientIfExists c k) R = snd (spec_remove_if_exists c k R)"
| "spec_gateway_op (RemoveCanisterIfEmpty c) R = snd (spec_remove_if_empty c R)"
| "spec_gateway_op (RemoveFailedCanister c) R = snd (spec_remove_failed c R)"

interpretation gateway_run:
  inductive_invariant "\<lambda>g. g = GatewayState_new" "\<lambda>g g'. \<exists>op. g' = apply_gateway_op op g" gateway_wf
proof unfold_locales
  fix g g' :: GatewayState
  assume "gateway_wf g" and "\<exists>op. g' = apply_gateway_op op g"
  then obtain op where wf: "gateway_wf g" and g': "g' = apply_gateway_op op g" by blast
  from wf show "gateway_wf g'"
    unfolding g' by (cases op) (simp_all only: apply_gateway_op.simps gateway_wf_ops)
qed simp

lemma apply_gateway_op_wf: "gateway_wf g \<Longrightarrow> gateway_wf (apply_gateway_op op g)"
  by (rule gateway_run.inv_step) auto

lemma apply_gateway_op_view:
  "gateway_wf g \<Longrightarrow> registry_of (apply_gateway_op op g) = spec_gateway_op op (registry_of g)"
  by (cases op) (simp_all add: gateway.view_simps)

lemma gateway_ops_wf: "gateway_wf g \<Longrightarrow> gateway_wf (fold apply_gateway_op ops g)"
  by (induction ops arbitrary: g) (simp_all add: apply_gateway_op_wf)

text \<open>A list of insertions into one canister, as concurrent handlers may order them.\<close>

fun insert_clients ::
  "CanisterPrincipal \<Rightarrow> (ClientKey \<times> chan_id) list \<Rightarrow> GatewayState
     \<Rightarrow> poller_ref option list \<times> GatewayState" where
  "insert_clients c [] g = ([], g)"
| "insert_clients c ((k, tx) # kts) g =
     (let (r, g1) = insert_client_channel_and_get_new_poller_state c k tx g;
          (rs, g2) = insert_clients c kts g1
      in (r # rs, g2))"

lemma length_insert_clients [simp]: "length (fst (insert_clients c kts g)) = length kts"
  by (induction kts arbitrary: g) (auto simp: Let_def split_beta)

lemma insert_when_polled:
  assumes "dm_get (data g) c = Some r"
  shows "fst (insert_client_channel_and_get_new_poller_state c k tx g) = None"
    and "data (snd (insert_client_channel_and_get_new_poller_state c k tx g)) = data g"
    and "arcs (snd (insert_client_channel_and_get_new_poller_state c k tx g)) r =
           dm_insert k \<lparr>sender = tx\<rparr> (arcs g r)"
  using assms
  by (simp_all add: insert_client_channel_and_get_new_poller_state_def Let_def)

lemma insert_when_vacant:
  assumes "dm_get (data g) c = None"
  shows "fst (insert_client_channel_and_get_new_poller_state c k tx g) = Some (next_arc g)"
    and "dm_get (data (snd (insert_client_channel_and_get_new_poller_state c k tx g))) c =
           Some (next_arc g)"
    and "arcs (snd (insert_client_channel_and_get_new_poller_state c k tx g)) (next_arc g) =
           dm_insert k \<lparr>sender = tx\<rparr> dm_new"
  using assms
  by (simp_all add: insert_client_channel_and_get_new_poller_state_def Let_def)

lemma insert_clients_polled:
  "dm_get (data g) c = Some r \<Longrightarrow>
     set (fst (insert_clients c kts g)) \<subseteq> {None} \<and>
     data (snd (insert_clients c kts g)) = data g \<and>
     dm_keys (arcs (snd (insert_clients c kts g)) r) = dm_keys (arcs g r) \<union> fst ` set kts"
proof (induction c kts g rule: insert_clients.induct)
  case (2 c k tx kts g)
  have "dm_get (data (snd (insert_client_channel_and_get_new_poller_state c k tx g))) c = Some r"
    using "2.prems" by (simp add: insert_when_polled)
  from "2.IH" [OF refl prod.collapse this] show ?case
    by (auto simp: Let_def split_beta insert_when_polled [OF "2.prems"])
qed auto

section \<open>Properties\<close>

text \<open>
  C2: in a well-formed state, each of the five operations of the gateway state returns what its
  specification on the plain registry returns, and leaves a state that stands for the registry
  the specification leaves; in particular an insertion hands out a new poller state exactly when
  the canister was not polled.
\<close>

theorem gateway_refines_registry:
  assumes "gateway_wf g"
  shows "registry_of (snd (insert_client_channel_and_get_new_poller_state c k tx g)) =
           snd (spec_insert c k tx (registry_of g)) \<and>
         (fst (insert_client_channel_and_get_new_poller_state c k tx g) \<noteq> None \<longleftrightarrow>
           fst (spec_insert c k tx (registry_of g))) \<and>
         map_prod id registry_of (remove_client c k g) = spec_remove c k (registry_of g) \<and>
         map_prod id registry_of (remove_client_if_exists c k g) =
           spec_remove_if_exists c k (registry_of g) \<and>
         map_prod id registry_of (remove_canister_if_empty c g) =
           spec_remove_if_empty c (registry_of g) \<and>
         map_prod id registry_of (remove_failed_canister c g) =
           spec_remove_failed c (registry_of g)"
  by (intro conjI gateway.view_ins gateway.ins_new gateway.view_rem gateway.view_rem_if_exists
      gateway.view_rem_if_empty gateway.view_rem_failed assms)

text \<open>
  C17: any sequence of operations on a new gateway state, in any order the tasks may issue them,
  keeps the state well-formed (references allocated and not shared between canisters, the gauge
  of each polled canister equal to the number of its clients) and ends in the registry the
  specification computes.
\<close>

theorem gateway_runs_refine:
  "gateway_wf (fold apply_gateway_op ops GatewayState_new) \<and>
   registry_of (fold apply_gateway_op ops GatewayState_new) =
     fold spec_gateway_op ops (\<lambda>_. None)"
proof -
  have "gateway_wf g \<Longrightarrow>
      registry_of (fold apply_gateway_op ops g) = fold spec_gateway_op ops (registry_of g)" for g
    by (induction ops arbitrary: g) (simp_all add: apply_gateway_op_wf apply_gateway_op_view)
  from this [of GatewayState_new] show ?thesis by (simp add: gateway_ops_wf)
qed

text \<open>
  When several clients connect to a canister that is not polled, in whatever order their
  insertions take effect, exactly the first is told to start a poller, and the poller state it
  gets ends up holding one entry per distinct client key.
\<close>

theorem insert_clients_starts_once:
  assumes new: "dm_get (data g) c = None" and ne: "kts \<noteq> []"
  shows "\<exists>r. fst (insert_clients c kts g) = Some r # replicate (length kts - 1) None \<and>
             dm_get (data (snd (insert_clients c kts g))) c = Some r \<and>
             dm_len (arcs (snd (insert_clients c kts g)) r) = card (fst ` set kts)"
proof -
  obtain k tx kts' where kts: "kts = (k, tx) # kts'" using ne by (cases kts) auto
  define g1 where "g1 = snd (insert_client_channel_and_get_new_poller_state c k tx g)"
  note ins = insert_when_vacant [OF new, of k tx, folded g1_def]
  note rest = insert_clients_polled [OF ins(2), of kts']
  have ic: "insert_clients c kts g =
      (Some (next_arc g) # fst (insert_clients c kts' g1), snd (insert_clients c kts' g1))"
    unfolding kts using ins(1) by (simp add: Let_def split_beta g1_def)
  have "fst (insert_clients c kts' g1) = replicate (length kts') None"
    using rest by (metis length_insert_clients replicate_eqI singletonD subsetD)
  moreover have "dm_keys (arcs (snd (insert_clients c kts' g1)) (next_arc g)) = fst ` set kts"
    using rest ins(3) by (simp add: kts)
  ultimately show ?thesis
    using rest ins(2) unfolding ic by (simp add: kts dm_len_card)
qed

theorem insert_clients_starts_once_witness:
  "\<exists>r. fst (insert_clients (Principal [4]) [(ClientKey_new (Principal [1]) 0, 7), (ClientKey_new (Principal [2]) 0, 8)]
            GatewayState_new) = Some r # replicate (length [(), ()] - 1) None"
proof -
  have "dm_get (data GatewayState_new) (Principal [4]) = None" by (simp add: GatewayState_new_def)
  from insert_clients_starts_once [OF this, of "[(ClientKey_new (Principal [1]) 0, 7),
      (ClientKey_new (Principal [2]) 0, 8)]"]
  show ?thesis by auto
qed

text \<open>
  The poller's check for an empty poller state and the insertion of a new client cannot miss
  each other. If the insertion takes effect first, the check keeps the canister and no second
  poller is started; if the check does, it removes the canister, the old poller stops, and the
  insertion hands out a fresh poller state. In both orders the client ends up registered.
\<close>

theorem insert_races_removal:
  assumes wf: "gateway_wf g" and r: "dm_get (data g) c = Some r" and e: "dm_is_empty (arcs g r)"
  shows "(let (p, g1) = insert_client_channel_and_get_new_poller_state c k tx g;
              (q, g2) = remove_canister_if_empty c g1
          in p = None \<and> q = NotEmpty \<and> dm_get (data g2) c = Some r \<and>
             dm_get (arcs g2 r) k = Some \<lparr>sender = tx\<rparr>)
       \<and> (let (q, g1) = remove_canister_if_empty c g;
              (p, g2) = insert_client_channel_and_get_new_poller_state c k tx g1
          in q = EmptyState \<and> (\<exists>r'. p = Some r' \<and> r' \<noteq> r \<and> dm_get (data g2) c = Some r' \<and>
             dm_get (arcs g2 r') k = Some \<lparr>sender = tx\<rparr> \<and> dm_is_empty (arcs g2 r)))"
proof -
  from wf r have lt: "r < next_arc g" by (rule gateway_wf_less)
  let ?g1 = "g\<lparr>data := dm_erase c (data g)\<rparr>"
  have rm: "remove_canister_if_empty c g = (EmptyState, ?g1)"
    using r e by (simp add: remove_canister_if_empty_def)
  have "dm_get (data ?g1) c = None" by simp
  note vacant = insert_when_vacant [OF this, of k tx]
  have "arcs (snd (insert_client_channel_and_get_new_poller_state c k tx ?g1)) r = arcs g r"
    using lt by (simp add: insert_client_channel_and_get_new_poller_state_def Let_def)
  then show ?thesis
    using vacant lt e
    by (simp add: rm Let_def split_beta remove_canister_if_empty_def insert_when_polled [OF r] r)
qed

theorem insert_races_removal_witness:
  "\<exists>g c r k tx. gateway_wf g \<and> dm_get (data g) c = Some r \<and> dm_is_empty (arcs g r) \<and>
     fst (insert_client_channel_and_get_new_poller_state c k tx g) = None"
proof -
  let ?c = "Principal [4]" and ?k = "ClientKey_new (Principal [1]) 0"
  let ?g0 = "snd (insert_client_channel_and_get_new_poller_state ?c ?k 7 GatewayState_new)"
  let ?g = "snd (remove_client ?c ?k ?g0)"
  have wf: "gateway_wf ?g" by (intro gateway_wf_ops gateway_wf_new)
  have r: "dm_get (data ?g) ?c = Some 0" and e: "dm_is_empty (arcs ?g 0)"
    by (simp_all add: insert_client_channel_and_get_new_poller_state_def remove_client_def
        GatewayState_new_def dm_is_empty_iff Let_def)
  have "fst (insert_client_channel_and_get_new_poller_state ?c ?k 9 ?g) = None"
    using insert_races_removal [OF wf r e, of ?k 9] by (simp add: Let_def split_beta)
  with wf r e show ?thesis by blast
qed

text \<open>
  \<open>remove_client\<close> panics exactly when the canister is polled and the client is not in its
  poller state, and then it changes nothing; otherwise it succeeds and the client is gone.
\<close>

theorem remove_client_panics_iff:
  "(\<exists>m. fst (remove_client c k g) = Panic m) =
     (\<exists>r. dm_get (data g) c = Some r \<and> dm_get (arcs g r) k = None) \<and>
   snd (remove_client c k g) =
     (case dm_get (data g) c of
        Some r \<Rightarrow>
          if dm_get (arcs g r) k = None then g
          else set_clients_gauge c (dm_len (arcs g r) - 1) (set_arc r (dm_erase k (arcs g r)) g)
      | None \<Rightarrow> g)"
  by (auto simp: remove_client_def dm_len_erase split: option.splits)

text \<open>
  C39: two sessions that open with the same client key on one canister share one entry. The second
  insertion replaces the channel of the first, whichever session leaves first removes the entry of
  both, and the \<open>remove_client\<close> of the other one panics.
\<close>

theorem shared_client_key_panics:
  assumes "gateway_wf g"
  shows "let g1 = snd (insert_client_channel_and_get_new_poller_state c k tx1 g);
             g2 = snd (insert_client_channel_and_get_new_poller_state c k tx2 g1);
             (r1, g3) = remove_client c k g2
         in registry_of g2 c = Some ((case registry_of g c of None \<Rightarrow> (\<lambda>_. None) | Some m \<Rightarrow> m)
                                       (k \<mapsto> \<lparr>sender = tx2\<rparr>)) \<and>
            r1 = Ok () \<and>
            fst (remove_client c k g3) = Panic ''Client key not found in poller state''"
  using assms
  by (auto simp: Let_def split_beta gateway_wf_ops gateway.view_simps spec_insert_def
      spec_remove_def split: option.splits)

text \<open>
  When the last client of a canister leaves, the next check of the poller finds the state empty
  and removes the canister, so a client that connects later starts a fresh poller.
\<close>

theorem last_client_ends_poller:
  assumes wf: "gateway_wf g" and m: "registry_of g c = Some m" and k: "dom m = {k}"
  shows "let g1 = snd (remove_client c k g); (q, g2) = remove_canister_if_empty c g1
         in q = EmptyState \<and> registry_of g2 = (registry_of g)(c := None) \<and>
            fst (insert_client_channel_and_get_new_poller_state c k' tx g2) \<noteq> None"
proof -
  have "m k \<noteq> None" and "m(k := None) = Map.empty" using k by (auto simp: fun_eq_iff)
  then show ?thesis
    using wf m
    by (auto simp: Let_def split_beta gateway_wf_ops gateway.view_simps gateway.ins_new
        spec_remove_def spec_remove_if_empty_def spec_insert_def simp del: not_None_eq)
qed

theorem last_client_ends_poller_witness:
  "fst (remove_canister_if_empty (Principal [4])
      (snd (remove_client (Principal [4]) (ClientKey_new (Principal [1]) 0)
         (snd (insert_client_channel_and_get_new_poller_state (Principal [4])
            (ClientKey_new (Principal [1]) 0) 7 GatewayState_new))))) = EmptyState"
proof -
  let ?g = "snd (insert_client_channel_and_get_new_poller_state (Principal [4])
      (ClientKey_new (Principal [1]) 0) 7 GatewayState_new)"
  have wf: "gateway_wf ?g" by (intro gateway_wf_ops gateway_wf_new)
  have view: "registry_of ?g (Principal [4]) =
      Some [ClientKey_new (Principal [1]) 0 \<mapsto> \<lparr>sender = 7\<rparr>]"
    by (simp add: gateway.view_ins spec_insert_def)
  have dom: "dom [ClientKey_new (Principal [1]) 0 \<mapsto> \<lparr>sender = 7 :: chan_id\<rparr>] =
      {ClientKey_new (Principal [1]) 0}" by simp
  show ?thesis using last_client_ends_poller [OF wf view dom] by (simp add: Let_def split_beta)
qed

theorem shared_client_key_panics_witness:
  "fst (remove_client (Principal [4]) (ClientKey_new (Principal [1]) 0)
      (snd (remove_client (Principal [4]) (ClientKey_new (Principal [1]) 0)
         (snd (insert_client_channel_and_get_new_poller_state (Principal [4])
            (ClientKey_new (Principal [1]) 0) 8
            (snd (insert_client_channel_and_get_new_poller_state (Principal [4])
               (ClientKey_new (Principal [1]) 0) 7 GatewayState_new))))))) =
     Panic ''Client key not found in poller state''"
  using shared_client_key_panics [OF gateway_wf_new, of "Principal [4]"
      "ClientKey_new (Principal [1]) 0" 7 8]
  by (simp add: Let_def split_beta)

theorem gateway_refines_registry_witness:
  "registry_of (snd (insert_client_channel_and_get_new_poller_state (Principal [4])
      (ClientKey_new (Principal [1]) 0) 7 GatewayState_new)) (Principal [4]) =
     Some [ClientKey_new (Principal [1]) 0 \<mapsto> \<lparr>sender = 7\<rparr>]"
  using gateway_refines_registry [OF gateway_wf_new, of "Principal [4]"
      "ClientKey_new (Principal [1]) 0" 7]
  by (simp add: spec_insert_def)

end
