(* ===== verification/Channels.thy ===== *)
theory Channels
  imports Gateway_State
begin

text \<open>
  The bounded channel between a poller and a client session handler
  (\<open>tokio::sync::mpsc::channel(100)\<close>, created in \<open>client_session_handler.rs\<close>). Each session
  handler creates one, so a channel is known by the identifier of its client connection. The
  channel keeps the messages not received yet and whether the receiver still exists; whether a
  sender still exists depends on who holds it, which the theory of the whole gateway knows.
\<close>

definition CHANNEL_CAPACITY :: nat where
  "CHANNEL_CAPACITY = 100"

record channel =
  queue :: "CanisterToClientMessage list"
  rx_open :: bool

type_synonym channels = "chan_id \<Rightarrow> channel"

definition no_channel :: channel where
  "no_channel = \<lparr>queue = [], rx_open = False\<rparr>"

definition new_channel :: channel where
  "new_channel = \<lparr>queue = [], rx_open = True\<rparr>"

text \<open>
  \<open>Sender::send\<close>, awaited: with the receiver gone the message comes back as an error, which
  leaves the channel as it is; with the queue full the call waits, which is None; otherwise the
  message is appended.
\<close>

definition channel_send :: "CanisterToClientMessage \<Rightarrow> channel \<Rightarrow> (bool \<times> channel) option" where
  "channel_send m ch =
     (if \<not> rx_open ch then Some (False, ch)
      else if CHANNEL_CAPACITY \<le> length (queue ch) then None
      else Some (True, ch\<lparr>queue := queue ch @ [m]\<rparr>))"

text \<open>Room for \<open>n\<close> more messages, so that sending them does not wait.\<close>

definition has_room :: "nat \<Rightarrow> channel \<Rightarrow> bool" where
  "has_room n ch \<longleftrightarrow> rx_open ch \<longrightarrow> length (queue ch) + n \<le> CHANNEL_CAPACITY"

lemma channel_send_room:
  "has_room (Suc n) ch \<Longrightarrow> \<exists>ok ch'. channel_send m ch = Some (ok, ch') \<and> has_room n ch'"
  by (auto simp: channel_send_def has_room_def)

lemma channel_send_rx_open: "channel_send m ch = Some (ok, ch') \<Longrightarrow> rx_open ch' = rx_open ch"
  by (auto simp: channel_send_def split: if_splits)

lemma channel_send_queue:
  "channel_send m ch = Some (ok, ch') \<Longrightarrow>
     ok = rx_open ch \<and> queue ch' = queue ch @ (if rx_open ch then [m] else [])"
  by (auto simp: channel_send_def split: if_splits)

lemma channel_send_bound:
  "channel_send m ch = Some (ok, ch') \<Longrightarrow> length (queue ch) \<le> CHANNEL_CAPACITY \<Longrightarrow>
     length (queue ch') \<le> CHANNEL_CAPACITY"
  by (auto simp: channel_send_def split: if_splits)

lemma has_room_mono: "has_room n ch \<Longrightarrow> m \<le> n \<Longrightarrow> has_room m ch"
  by (auto simp: has_room_def)

text \<open>
  \<open>Receiver::recv\<close>, awaited: the first message of the queue; with the queue empty it waits (None)
  while a sender exists, and returns no message once every sender is dropped.
\<close>

definition channel_recv :: "bool \<Rightarrow> channel \<Rightarrow> (CanisterToClientMessage option \<times> channel) option" where
  "channel_recv sender_alive ch =
     (case queue ch of
        m # ms \<Rightarrow> Some (Some m, ch\<lparr>queue := ms\<rparr>)
      | [] \<Rightarrow> if sender_alive then None else Some (None, ch))"

lemma channel_recv_Some_iff:
  "channel_recv a ch = Some (v, ch') \<longleftrightarrow>
     (\<exists>m ms. queue ch = m # ms \<and> v = Some m \<and> ch' = ch\<lparr>queue := ms\<rparr>) \<or>
     (queue ch = [] \<and> \<not> a \<and> v = None \<and> ch' = ch)"
  by (auto simp: channel_recv_def split: list.splits)

end
