(* ===== verification/Client_Session.thy ===== *)
theory Client_Session
  imports Channels
begin

text \<open>
  The session of one client (\<open>src/ic-websocket-gateway/src/client_session.rs\<close>): a state machine
  driven by the messages of the client and by those the poller puts into the session's channel.
  The WebSocket stream, the CBOR and candid codecs and the envelope types of the agent are not part
  of the repository; an environment carries their operations, which may answer differently at each
  step.
\<close>

section \<open>Data\<close>

text \<open>The messages of a WebSocket stream (\<open>tungstenite::Message\<close>).\<close>

datatype Message =
    Text string
  | Binary bytes
  | Ping bytes
  | Pong bytes
  | Close "(16 word \<times> string) option"
  | Frame bytes

fun is_close :: "Message \<Rightarrow> bool" where
  "is_close (Close _) = True"
| "is_close _ = False"

record GatewayHandshakeMessage =
  gateway_principal :: Principal

datatype IcWsSessionState = Init | Setup Message | Open | Closed

fun session_state_label :: "IcWsSessionState \<Rightarrow> string" where
  "session_state_label Init = ''Init''"
| "session_state_label (Setup _) = ''Setup''"
| "session_state_label Open = ''Open''"
| "session_state_label Closed = ''Closed''"

definition is_closed :: "IcWsSessionState \<Rightarrow> bool" where
  "is_closed st = (case st of Closed \<Rightarrow> True | _ \<Rightarrow> False)"

datatype IcWsError =
    IcWsProtocol string
  | WebSocket string
  | Poller string

text \<open>The derived \<open>Debug\<close> of the error.\<close>

fun debug_ic_ws_error :: "IcWsError \<Rightarrow> string" where
  "debug_ic_ws_error (IcWsProtocol s) = ''IcWsProtocol('' @ debug_str s @ '')''"
| "debug_ic_ws_error (WebSocket s) = ''WebSocket('' @ debug_str s @ '')''"
| "debug_ic_ws_error (Poller s) = ''Poller('' @ debug_str s @ '')''"

text \<open>
  The content of an envelope as far as the code looks at it: a call, with the canister and the
  argument, or anything else.
\<close>

datatype EnvelopeContent = Call Principal bytes | OtherContent

text \<open>
  What a session uses of its environment: reading a client request (\<open>serde_cbor::from_slice\<close>, the
  envelope type \<open>'e\<close> is the agent's), the content and the sender of an envelope, candid decoding
  of the open arguments, CBOR writing (the self-describe tag, an envelope, the handshake, a canister
  message; an error is its text), and the sink of the WebSocket stream.
\<close>

record 'e session_env =
  from_slice :: "bytes \<Rightarrow> 'e option"
  content_of :: "'e \<Rightarrow> EnvelopeContent"
  sender_of :: "'e \<Rightarrow> Principal"
  decode_open_args :: "bytes \<Rightarrow> string + CanisterWsOpenArguments"
  self_describe :: "string + bytes"
  cbor_envelope :: "'e \<Rightarrow> string + bytes"
  cbor_handshake :: "GatewayHandshakeMessage \<Rightarrow> string + bytes"
  to_vec :: "CanisterToClientMessage \<Rightarrow> string + bytes"
  sink_send :: "Message \<Rightarrow> string + unit"
  sink_close :: "string + unit"

text \<open>
  What the session wrote to its WebSocket sink, and the calls it has started, in the order in which it
  started them. A message of the client is relayed by a task of its own, which is spawned here and
  calls \<open>update_signed\<close> at some later time (\<open>Gateway_Relays\<close> has these tasks); the function \<open>ws_close\<close> of
  \<open>canister-utils\<close> is called and awaited by the handler itself, on behalf of the gateway.
\<close>

datatype ws_frame = Sent Message | SinkClosed

datatype agent_call = SpawnUpdateSigned Principal bytes | WsClose Principal ClientKey

record ClientSession =
  client_id :: u64
  client_key :: "ClientKey option"
  canister_id :: "CanisterPrincipal option"
  session_state :: IcWsSessionState
  ws_write :: "ws_frame list"
  started_calls :: "agent_call list"

type_synonym 'a session_result = "('a, IcWsError) outcome \<times> ClientSession"

section \<open>Writing to the client and to the canister\<close>

definition serialize :: "string + bytes \<Rightarrow> string + bytes \<Rightarrow> IcWsError + bytes" where
  "serialize tag body =
     (case tag of
        Inl e \<Rightarrow> Inl (WebSocket (''could not write self-describe tag to stream. Error: '' @ debug_str e))
      | Inr t \<Rightarrow>
          (case body of
             Inl e \<Rightarrow> Inl (WebSocket (''could not serialize message. Error: '' @ debug_str e))
           | Inr b \<Rightarrow> Inr (t @ b)))"

definition send_ws_message_to_client ::
  "'e session_env \<Rightarrow> Message \<Rightarrow> ClientSession \<Rightarrow> unit session_result" where
  "send_ws_message_to_client env message s =
     (case sink_send env message of
        Inl e \<Rightarrow> (Err (WebSocket e), s)
      | Inr _ \<Rightarrow> (Ok (), s\<lparr>ws_write := ws_write s @ [Sent message]\<rparr>))"

definition close_ws_session :: "'e session_env \<Rightarrow> ClientSession \<Rightarrow> unit session_result" where
  "close_ws_session env s =
     (case sink_close env of
        Inl e \<Rightarrow> (Err (WebSocket e), s)
      | Inr _ \<Rightarrow> (Ok (), s\<lparr>ws_write := ws_write s @ [SinkClosed]\<rparr>))"

definition relay_canister_message ::
  "'e session_env \<Rightarrow> CanisterToClientMessage \<Rightarrow> ClientSession \<Rightarrow> unit session_result" where
  "relay_canister_message env canister_message s =
     (case to_vec env canister_message of
        Inr bytes \<Rightarrow> send_ws_message_to_client env (Binary bytes) s
      | Inl e \<Rightarrow> (Err (IcWsProtocol (''Could not serialize canister message. Error: '' @ e)), s))"

definition handle_open_transition ::
  "'e session_env \<Rightarrow> CanisterToClientMessage \<Rightarrow> ClientSession \<Rightarrow> IcWsSessionState session_result" where
  "handle_open_transition env canister_message s =
     and_then (relay_canister_message env canister_message s) (\<lambda>_ s1. (Ok Open, s1))"

definition get_client_request :: "'e session_env \<Rightarrow> Message \<Rightarrow> IcWsError + 'e" where
  "get_client_request env message =
     (case message of
        Binary bytes \<Rightarrow>
          (case from_slice env bytes of
             Some client_request \<Rightarrow> Inr client_request
           | None \<Rightarrow> Inl (WebSocket ''ws message from client is not of type ClientRequest''))
      | _ \<Rightarrow> Inl (WebSocket ''ws message from client is not binary encoded''))"

text \<open>The task that makes the call is spawned; when it runs is not up to the session, and its result is only logged.\<close>

definition relay_envelope_to_canister :: "bytes \<Rightarrow> Principal \<Rightarrow> ClientSession \<Rightarrow> ClientSession" where
  "relay_envelope_to_canister serialized_envelope cid s =
     s\<lparr>started_calls := started_calls s @ [SpawnUpdateSigned cid serialized_envelope]\<rparr>"

definition relay_ws_message_to_ic ::
  "'e session_env \<Rightarrow> Message \<Rightarrow> ClientSession \<Rightarrow> unit session_result" where
  "relay_ws_message_to_ic env message s =
     (case get_client_request env message of
        Inl e \<Rightarrow> (Err e, s)
      | Inr envelope \<Rightarrow>
          (case content_of env envelope of
             Call _ _ \<Rightarrow>
               (case serialize (self_describe env) (cbor_envelope env envelope) of
                  Inl e \<Rightarrow> (Err e, s)
                | Inr serialized_envelope \<Rightarrow>
                    (case canister_id s of
                       None \<Rightarrow> (Panic ''must be set'', s)
                     | Some cid \<Rightarrow> (Ok (), relay_envelope_to_canister serialized_envelope cid s)))
           | OtherContent \<Rightarrow>
               (Err (IcWsProtocol ''Gateway can only relay envelopes with content of Call variant''), s)))"

definition relay_client_message ::
  "'e session_env \<Rightarrow> Message \<Rightarrow> ClientSession \<Rightarrow> unit session_result" where
  "relay_client_message env message s = relay_ws_message_to_ic env message s"

section \<open>Opening a session\<close>

definition inspect_ic_ws_open_message ::
  "'e session_env \<Rightarrow> Message \<Rightarrow> IcWsError + ClientKey \<times> Principal" where
  "inspect_ic_ws_open_message env ws_message =
     (case get_client_request env ws_message of
        Inl e \<Rightarrow> Inl e
      | Inr envelope \<Rightarrow>
          (case content_of env envelope of
             Call cid arg \<Rightarrow>
               (case decode_open_args env arg of
                  Inl e \<Rightarrow>
                    Inl (IcWsProtocol
                      (''arg field of envelope's content has the wrong type: '' @ debug_str e))
                | Inr ws_open_arguments \<Rightarrow>
                    Inr (ClientKey_new (sender_of env envelope) (open_client_nonce ws_open_arguments),
                         cid))
           | OtherContent \<Rightarrow>
               Inl (IcWsProtocol ''first message from client should contain canister_id and arg in envelope's content and should be of Call variant'')))"

text \<open>
  The two fields are replaced in a short-circuit disjunction: if a canister was already set, the
  key is left as it is.
\<close>

definition handle_setup_transition ::
  "'e session_env \<Rightarrow> Message \<Rightarrow> ClientSession \<Rightarrow> IcWsSessionState session_result" where
  "handle_setup_transition env ws_open_message s =
     (case inspect_ic_ws_open_message env ws_open_message of
        Inr (key, cid) \<Rightarrow>
          let s1 = s\<lparr>canister_id := Some cid\<rparr>;
              s2 = (if canister_id s \<noteq> None then s1 else s1\<lparr>client_key := Some key\<rparr>)
          in (Ok (Setup ws_open_message), s2)
      | Inl e \<Rightarrow>
          and_then (close_ws_session env s)
            (\<lambda>_ s1. (Err (IcWsProtocol (''IC WS setup failed. Error: '' @ debug_ic_ws_error e)), s1)))"

text \<open>\<open>ClientSession::init\<close>: the new session, after the handshake message was sent.\<close>

definition ClientSession_init ::
  "'e session_env \<Rightarrow> u64 \<Rightarrow> Principal \<Rightarrow> unit session_result" where
  "ClientSession_init env cid gw_principal =
     (let s = \<lparr>client_id = cid, client_key = None, canister_id = None, session_state = Init,
               ws_write = [], started_calls = []\<rparr>
      in case serialize (self_describe env) (cbor_handshake env \<lparr>gateway_principal = gw_principal\<rparr>) of
           Inl e \<Rightarrow> (Panic (''Principal should be serializable: '' @ debug_ic_ws_error e), s)
         | Inr bytes \<Rightarrow>
             (case send_ws_message_to_client env (Binary bytes) s of
                (Err e, s1) \<Rightarrow>
                  (Err (WebSocket (''Error sending handshake message to client: '' @ debug_ic_ws_error e)), s1)
              | r \<Rightarrow> r))"

section \<open>Updates\<close>

definition check_client_update ::
  "string + Message \<Rightarrow> ClientSession \<Rightarrow> Message session_result" where
  "check_client_update client_update s =
     (case client_update of
        Inr ws_message \<Rightarrow> (Ok ws_message, s)
      | Inl e \<Rightarrow>
          (Err (WebSocket (''Error receiving message from client: '' @ e)), s\<lparr>session_state := Closed\<rparr>))"

definition handle_client_update ::
  "'e session_env \<Rightarrow> string + Message \<Rightarrow> ClientSession \<Rightarrow> unit session_result" where
  "handle_client_update env client_update s =
     and_then (check_client_update client_update s) (\<lambda>ws_message s1.
       if is_close ws_message \<and> \<not> is_closed (session_state s1)
       then (Ok (), s1\<lparr>session_state := Closed\<rparr>)
       else case session_state s1 of
         Init \<Rightarrow>
           and_then (handle_setup_transition env ws_message s1)
             (\<lambda>setup_state s2. (Ok (), s2\<lparr>session_state := setup_state\<rparr>))
       | Setup _ \<Rightarrow> (Ok (), s1)
       | Open \<Rightarrow> relay_client_message env ws_message s1
       | Closed \<Rightarrow> (Err (IcWsProtocol ''Client shall not send messages while in Closed state''), s1))"

definition handle_canister_update ::
  "'e session_env \<Rightarrow> CanisterToClientMessage option \<Rightarrow> ClientSession \<Rightarrow> unit session_result" where
  "handle_canister_update env canister_update s =
     (case canister_update of
        Some canister_message \<Rightarrow>
          (case session_state s of
             Init \<Rightarrow> (Panic ''Canister shall not send messages while in Init state'', s)
           | Setup _ \<Rightarrow>
               and_then (handle_open_transition env canister_message s)
                 (\<lambda>open_state s1. (Ok (), s1\<lparr>session_state := open_state\<rparr>))
           | Open \<Rightarrow> relay_canister_message env canister_message s
           | Closed \<Rightarrow>
               (Err (IcWsProtocol
                  ''Poller shall not be able to send messages while the session is in Closed state''), s))
      | None \<Rightarrow>
          and_then (close_ws_session env s)
            (\<lambda>_ s1. (Err (Poller ''Client session terminated due to poller failure''), s1)))"

text \<open>What the \<open>select!\<close> of \<open>try_update_state\<close> may wake up with.\<close>

datatype session_event =
    ClientUpdate "string + Message"
  | CanisterUpdate "CanisterToClientMessage option"

definition try_update_state ::
  "'e session_env \<Rightarrow> session_event \<Rightarrow> ClientSession \<Rightarrow> IcWsSessionState option session_result" where
  "try_update_state env ev s =
     (let previous_session_state = session_state s in
      and_then
        (case ev of
           ClientUpdate client_update \<Rightarrow> handle_client_update env client_update s
         | CanisterUpdate canister_update \<Rightarrow> handle_canister_update env canister_update s)
        (\<lambda>_ s1. if session_state s1 \<noteq> previous_session_state
                 then (Ok (Some (session_state s1)), s1)
                 else (Ok None, s1)))"

end
