(* ===== verification/Client_Session_Props.thy ===== *)
theory Client_Session_Props
  imports Client_Session
begin

text \<open>
  What a session guarantees: the transitions of its state machine, what it knows of its client in
  each state, when it can panic, and what it sends where.
\<close>

section \<open>The state machine\<close>

text \<open>The transitions of the IC WebSocket protocol.\<close>

inductive session_edge :: "IcWsSessionState \<Rightarrow> IcWsSessionState \<Rightarrow> bool" where
  to_setup: "session_edge Init (Setup m)"
| to_open: "session_edge (Setup m) Open"
| to_closed: "st \<noteq> Closed \<Longrightarrow> session_edge st Closed"

inductive_cases session_edge_to_Init [elim!]: "session_edge st Init"
inductive_cases session_edge_from_Closed [elim!]: "session_edge Closed st"
inductive_simps session_edge_Init [simp]: "session_edge Init st"
inductive_simps session_edge_Setup [simp]: "session_edge (Setup m) st"
inductive_simps session_edge_Open [simp]: "session_edge Open st"

text \<open>What the session knows of its client: nothing in Init, key and canister from Setup on.\<close>

definition session_wf :: "ClientSession \<Rightarrow> bool" where
  "session_wf s \<longleftrightarrow>
     (case session_state s of
        Init \<Rightarrow> client_key s = None \<and> canister_id s = None
      | Setup _ \<Rightarrow> client_key s \<noteq> None \<and> canister_id s \<noteq> None
      | Open \<Rightarrow> client_key s \<noteq> None \<and> canister_id s \<noteq> None
      | Closed \<Rightarrow> (client_key s = None) = (canister_id s = None))"

lemma session_wf_same:
  "session_wf s \<Longrightarrow> (client_key s = None) = (canister_id s = None)"
  by (auto simp: session_wf_def split: IcWsSessionState.splits)

lemma session_wf_Init: "session_wf s \<Longrightarrow> session_state s = Init \<Longrightarrow> client_key s = None \<and> canister_id s = None"
  by (simp add: session_wf_def)

lemma session_wf_known:
  "session_wf s \<Longrightarrow> session_state s = Setup m \<or> session_state s = Open \<Longrightarrow>
     \<exists>k c. client_key s = Some k \<and> canister_id s = Some c"
  by (auto simp: session_wf_def)

section \<open>Frames: what each call leaves alone\<close>

text \<open>The state a call leaves differs at most in the frames written and the calls of the agent.\<close>

definition same_session :: "ClientSession \<Rightarrow> ClientSession \<Rightarrow> bool" where
  "same_session s t \<longleftrightarrow>
     client_id t = client_id s \<and> client_key t = client_key s \<and> canister_id t = canister_id s \<and>
     session_state t = session_state s"

lemma same_session_refl [simp]: "same_session s s"
  by (simp add: same_session_def)

lemma send_frame:
  "same_session s (snd (send_ws_message_to_client env m s))"
  "started_calls (snd (send_ws_message_to_client env m s)) = started_calls s"
  by (auto simp: send_ws_message_to_client_def same_session_def split: sum.splits)

lemma close_frame:
  "same_session s (snd (close_ws_session env s))"
  "started_calls (snd (close_ws_session env s)) = started_calls s"
  by (auto simp: close_ws_session_def same_session_def split: sum.splits)

lemma relay_canister_frame:
  "same_session s (snd (relay_canister_message env m s))"
  "started_calls (snd (relay_canister_message env m s)) = started_calls s"
  by (auto simp: relay_canister_message_def send_frame split: sum.splits)

lemma relay_client_frame:
  "same_session s (snd (relay_client_message env m s))"
  "ws_write (snd (relay_client_message env m s)) = ws_write s"
  by (auto simp: relay_client_message_def relay_ws_message_to_ic_def relay_envelope_to_canister_def
      same_session_def split: sum.splits EnvelopeContent.splits option.splits)

section \<open>Outcomes of the parts\<close>

lemma send_outcome:
  "fst (send_ws_message_to_client env m s) =
     (case sink_send env m of Inl e \<Rightarrow> Err (WebSocket e) | Inr _ \<Rightarrow> Ok ())"
  by (simp add: send_ws_message_to_client_def split: sum.splits)

lemma send_written:
  "ws_write (snd (send_ws_message_to_client env m s)) =
     ws_write s @ (case sink_send env m of Inl e \<Rightarrow> [] | Inr _ \<Rightarrow> [Sent m])"
  by (simp add: send_ws_message_to_client_def split: sum.splits)

lemma relay_canister_message_Ok_iff:
  "relay_canister_message env m s = (Ok (), t) \<longleftrightarrow>
     (\<exists>b. to_vec env m = Inr b \<and> sink_send env (Binary b) = Inr () \<and>
        t = s\<lparr>ws_write := ws_write s @ [Sent (Binary b)]\<rparr>)"
  by (auto simp: relay_canister_message_def send_ws_message_to_client_def split: sum.splits)

lemma no_panic_send: "fst (send_ws_message_to_client env m s) \<noteq> Panic e"
  by (simp add: send_ws_message_to_client_def split: sum.splits)

lemma no_panic_close: "fst (close_ws_session env s) \<noteq> Panic e"
  by (simp add: close_ws_session_def split: sum.splits)

lemma no_panic_relay_canister: "fst (relay_canister_message env m s) \<noteq> Panic e"
  by (simp add: relay_canister_message_def no_panic_send split: sum.splits)

lemma relay_client_message_Ok_iff:
  "relay_client_message env m s = (Ok (), t) \<longleftrightarrow>
     (\<exists>en c a b cid. get_client_request env m = Inr en \<and> content_of env en = Call c a \<and>
        serialize (self_describe env) (cbor_envelope env en) = Inr b \<and> canister_id s = Some cid \<and>
        t = s\<lparr>started_calls := started_calls s @ [SpawnUpdateSigned cid b]\<rparr>)"
  by (auto simp: relay_client_message_def relay_ws_message_to_ic_def relay_envelope_to_canister_def
      split: sum.splits EnvelopeContent.splits option.splits)

lemma relay_client_message_Panic:
  "fst (relay_client_message env m s) = Panic e \<Longrightarrow> canister_id s = None"
  by (auto simp: relay_client_message_def relay_ws_message_to_ic_def
      split: sum.splits EnvelopeContent.splits option.splits)

lemma inspect_Inr_iff:
  "inspect_ic_ws_open_message env m = Inr (k, c) \<longleftrightarrow>
     (\<exists>en a args. get_client_request env m = Inr en \<and> content_of env en = Call c a \<and>
        decode_open_args env a = Inr args \<and> k = ClientKey_new (sender_of env en) (open_client_nonce args))"
  by (auto simp: inspect_ic_ws_open_message_def split: sum.splits EnvelopeContent.splits)

lemma setup_transition_Ok_iff:
  "handle_setup_transition env m s = (Ok st, t) \<longleftrightarrow>
     (\<exists>k c. inspect_ic_ws_open_message env m = Inr (k, c) \<and> st = Setup m \<and>
        t = (if canister_id s \<noteq> None then s\<lparr>canister_id := Some c\<rparr>
             else s\<lparr>canister_id := Some c, client_key := Some k\<rparr>))"
  by (auto simp: handle_setup_transition_def and_then_def Let_def
      split: sum.splits prod.splits outcome.splits)

lemma setup_transition_not_Ok:
  assumes "\<nexists>st. fst (handle_setup_transition env m s) = Ok st"
  shows "same_session s (snd (handle_setup_transition env m s)) \<and>
         started_calls (snd (handle_setup_transition env m s)) = started_calls s \<and>
         (\<exists>e. fst (handle_setup_transition env m s) = Err e)"
proof (cases "inspect_ic_ws_open_message env m")
  case (Inl e)
  then show ?thesis
    using close_frame(1) [of s env] close_frame(2) [of env s] no_panic_close [of env s]
    by (cases "close_ws_session env s"; cases "fst (close_ws_session env s)")
       (auto simp: handle_setup_transition_def)
next
  case (Inr kc)
  with assms show ?thesis by (cases kc) (simp add: handle_setup_transition_def Let_def)
qed

section \<open>Updates, by event and state\<close>

lemma is_closed_iff [simp]: "is_closed st \<longleftrightarrow> st = Closed"
  by (simp add: is_closed_def split: IcWsSessionState.splits)

lemma client_update_error [simp]:
  "handle_client_update env (Inl e) s =
     (Err (WebSocket (''Error receiving message from client: '' @ e)), s\<lparr>session_state := Closed\<rparr>)"
  by (simp add: handle_client_update_def check_client_update_def)

lemma client_update_close [simp]:
  "is_close m \<Longrightarrow> session_state s \<noteq> Closed \<Longrightarrow>
     handle_client_update env (Inr m) s = (Ok (), s\<lparr>session_state := Closed\<rparr>)"
  by (simp add: handle_client_update_def check_client_update_def)

lemma client_update_Init:
  "\<not> is_close m \<Longrightarrow> session_state s = Init \<Longrightarrow>
     handle_client_update env (Inr m) s =
       and_then (handle_setup_transition env m s) (\<lambda>st s2. (Ok (), s2\<lparr>session_state := st\<rparr>))"
  by (simp add: handle_client_update_def check_client_update_def)

lemma client_update_Setup [simp]:
  "\<not> is_close m \<Longrightarrow> session_state s = Setup m' \<Longrightarrow> handle_client_update env (Inr m) s = (Ok (), s)"
  by (simp add: handle_client_update_def check_client_update_def)

lemma client_update_Open [simp]:
  "\<not> is_close m \<Longrightarrow> session_state s = Open \<Longrightarrow>
     handle_client_update env (Inr m) s = relay_client_message env m s"
  by (simp add: handle_client_update_def check_client_update_def)

lemma client_update_Closed [simp]:
  "session_state s = Closed \<Longrightarrow>
     handle_client_update env (Inr m) s =
       (Err (IcWsProtocol ''Client shall not send messages while in Closed state''), s)"
  by (simp add: handle_client_update_def check_client_update_def)

lemma canister_update_None:
  "handle_canister_update env None s =
     and_then (close_ws_session env s)
       (\<lambda>_ s1. (Err (Poller ''Client session terminated due to poller failure''), s1))"
  by (simp add: handle_canister_update_def)

lemma canister_update_Setup:
  "session_state s = Setup m \<Longrightarrow>
     handle_canister_update env (Some cm) s =
       and_then (relay_canister_message env cm s) (\<lambda>_ s1. (Ok (), s1\<lparr>session_state := Open\<rparr>))"
  by (cases "relay_canister_message env cm s"; cases "fst (relay_canister_message env cm s)")
     (auto simp: handle_canister_update_def handle_open_transition_def)

lemma canister_update_Open [simp]:
  "session_state s = Open \<Longrightarrow>
     handle_canister_update env (Some cm) s = relay_canister_message env cm s"
  by (simp add: handle_canister_update_def)

lemma canister_update_Init [simp]:
  "session_state s = Init \<Longrightarrow>
     handle_canister_update env (Some cm) s =
       (Panic ''Canister shall not send messages while in Init state'', s)"
  by (simp add: handle_canister_update_def)

lemma canister_update_Closed [simp]:
  "session_state s = Closed \<Longrightarrow>
     handle_canister_update env (Some cm) s =
       (Err (IcWsProtocol
          ''Poller shall not be able to send messages while the session is in Closed state''), s)"
  by (simp add: handle_canister_update_def)

text \<open>The part of \<open>try_update_state\<close> before the comparison of the states.\<close>

definition handle_event ::
  "'e session_env \<Rightarrow> session_event \<Rightarrow> ClientSession \<Rightarrow> unit session_result" where
  "handle_event env ev s =
     (case ev of
        ClientUpdate client_update \<Rightarrow> handle_client_update env client_update s
      | CanisterUpdate canister_update \<Rightarrow> handle_canister_update env canister_update s)"

lemma handle_event_simps [simp]:
  "handle_event env (ClientUpdate u) s = handle_client_update env u s"
  "handle_event env (CanisterUpdate v) s = handle_canister_update env v s"
  by (simp_all add: handle_event_def)

lemma try_update_state_eq:
  "try_update_state env ev s =
     (case handle_event env ev s of
        (Ok _, t) \<Rightarrow> (Ok (if session_state t \<noteq> session_state s then Some (session_state t) else None), t)
      | (Err e, t) \<Rightarrow> (Err e, t)
      | (Panic e, t) \<Rightarrow> (Panic e, t))"
  by (simp add: try_update_state_def handle_event_def and_then_def Let_def
      split: prod.splits outcome.splits)

lemma snd_try_update_state [simp]: "snd (try_update_state env ev s) = snd (handle_event env ev s)"
  by (simp add: try_update_state_eq split: prod.splits outcome.splits)

lemma fst_try_update_state:
  "fst (try_update_state env ev s) =
     (case fst (handle_event env ev s) of
        Ok _ \<Rightarrow> Ok (if session_state (snd (handle_event env ev s)) \<noteq> session_state s
                   then Some (session_state (snd (handle_event env ev s))) else None)
      | Err e \<Rightarrow> Err e
      | Panic e \<Rightarrow> Panic e)"
  by (simp add: try_update_state_eq split: prod.splits outcome.splits)

text \<open>
  Everything an update can do, in one case distinction: the session is left as it was but for what
  it wrote and called, or it is closed, set up or opened.
\<close>

lemma handle_event_cases:
  obtains (same) "same_session s (snd (handle_event env ev s))"
      "fst (handle_event env ev s) = Ok () \<Longrightarrow> session_state s \<noteq> Init"
      "\<And>e. fst (handle_event env ev s) = Panic e \<Longrightarrow>
         (session_state s = Init \<and> (\<exists>cm. ev = CanisterUpdate (Some cm)) \<or>
          session_state s = Open \<and> canister_id s = None)"
  | (closed) "handle_event env ev s = (Ok (), s\<lparr>session_state := Closed\<rparr>)"
      "\<exists>m. ev = ClientUpdate (Inr m) \<and> is_close m" "session_state s \<noteq> Closed"
  | (failed) e where "handle_event env ev s = (Err e, s\<lparr>session_state := Closed\<rparr>)"
      "\<exists>e. ev = ClientUpdate (Inl e)"
  | (set_up) m k c where "ev = ClientUpdate (Inr m)" "session_state s = Init"
      "inspect_ic_ws_open_message env m = Inr (k, c)"
      "handle_event env ev s = (Ok (), (if canister_id s \<noteq> None then s\<lparr>canister_id := Some c\<rparr>
             else s\<lparr>canister_id := Some c, client_key := Some k\<rparr>)\<lparr>session_state := Setup m\<rparr>)"
  | (opened) m cm where "ev = CanisterUpdate (Some cm)" "session_state s = Setup m"
      "fst (relay_canister_message env cm s) = Ok ()"
      "handle_event env ev s = (Ok (), (snd (relay_canister_message env cm s))\<lparr>session_state := Open\<rparr>)"
proof (cases ev)
  case (ClientUpdate u)
  show ?thesis
  proof (cases u)
    case (Inl e)
    with ClientUpdate show ?thesis by (auto intro: failed)
  next
    case (Inr m)
    note ev = ClientUpdate [unfolded Inr]
    show ?thesis
    proof (cases "is_close m \<and> session_state s \<noteq> Closed")
      case True
      with ev show ?thesis by (auto intro: closed)
    next
      case other: False
      show ?thesis
      proof (cases "session_state s")
        case Init
        with other have m: "\<not> is_close m" by simp
        show ?thesis
        proof (cases "handle_setup_transition env m s")
          case (Pair r t)
          show ?thesis
          proof (cases r)
            case (Ok st)
            with Pair setup_transition_Ok_iff [of env m s st t] obtain k c
              where "inspect_ic_ws_open_message env m = Inr (k, c)" and "st = Setup m"
                and "t = (if canister_id s \<noteq> None then s\<lparr>canister_id := Some c\<rparr>
                     else s\<lparr>canister_id := Some c, client_key := Some k\<rparr>)" by auto
            with Pair Ok ev Init m show ?thesis by (intro set_up [of m k c]) (simp_all add: client_update_Init)
          qed (use setup_transition_not_Ok [of env m s] Pair ev Init m in
              \<open>auto intro!: same simp: client_update_Init\<close>)
        qed
      next
        case Open
        with other ev show ?thesis
          by (intro same) (auto simp: relay_client_frame dest: relay_client_message_Panic)
      qed (use other ev in \<open>auto intro!: same\<close>)
    qed
  qed
next
  case (CanisterUpdate v)
  show ?thesis
  proof (cases v)
    case None
    with CanisterUpdate close_frame(1) [of s env] no_panic_close [of env s] show ?thesis
      by (intro same; cases "close_ws_session env s"; cases "fst (close_ws_session env s)")
         (auto simp: canister_update_None)
  next
    case (Some cm)
    note ev = CanisterUpdate [unfolded Some]
    show ?thesis
    proof (cases "session_state s")
      case (Setup m)
      show ?thesis
      proof (cases "fst (relay_canister_message env cm s)")
        case (Ok u)
        with ev Setup show ?thesis
          by (intro opened [of cm m]; cases "relay_canister_message env cm s")
             (auto simp: canister_update_Setup)
      qed (use ev Setup relay_canister_frame(1) [of s env cm] no_panic_relay_canister [of env cm s] in
          \<open>cases "relay_canister_message env cm s", auto intro!: same simp: canister_update_Setup\<close>)
    qed (use ev relay_canister_frame(1) [of s env cm] no_panic_relay_canister [of env cm s] in
        \<open>auto intro!: same\<close>)
  qed
qed

text \<open>An update keeps what the session knows of its client.\<close>

lemma session_step_identity:
  assumes "session_wf s"
  shows "session_wf (snd (try_update_state env ev s)) \<and>
         (client_key s \<noteq> None \<longrightarrow> client_key (snd (try_update_state env ev s)) = client_key s) \<and>
         (canister_id s \<noteq> None \<longrightarrow> canister_id (snd (try_update_state env ev s)) = canister_id s)"
proof (cases rule: handle_event_cases [of s env ev])
  case same
  with assms show ?thesis by (auto simp: session_wf_def same_session_def split: IcWsSessionState.splits)
next
  case (set_up m k c)
  with assms session_wf_Init [OF assms] show ?thesis by (simp add: session_wf_def)
next
  case (opened m cm)
  with assms relay_canister_frame(1) [of s env cm] show ?thesis
    by (simp add: session_wf_def same_session_def)
qed (use assms session_wf_same [OF assms] in \<open>simp_all add: session_wf_def\<close>)

lemma session_step_wf: "session_wf s \<Longrightarrow> session_wf (snd (try_update_state env ev s))"
  using session_step_identity by blast

text \<open>What an update of a well-formed session that is not closed reports, and what it leaves.\<close>

lemma session_update_cases:
  assumes wf: "session_wf s" and up: "try_update_state env ev s = (r, t)" and st: "session_state s \<noteq> Closed"
  obtains
    (unchanged) "r = Ok None" "same_session s t" "session_state s \<noteq> Init"
  | (opened) m where "r = Ok (Some Open)" "session_state s = Setup m" "session_state t = Open"
      "client_key t = client_key s" "canister_id t = canister_id s"
  | (set_up) m k c where "r = Ok (Some (Setup m))" "session_state s = Init"
      "inspect_ic_ws_open_message env m = Inr (k, c)"
      "t = s\<lparr>canister_id := Some c, client_key := Some k, session_state := Setup m\<rparr>"
  | (closed) "r = Ok (Some Closed)" "t = s\<lparr>session_state := Closed\<rparr>"
  | (failed) e where "r = Err e" "client_key t = client_key s" "canister_id t = canister_id s"
  | (panicked) cm where "r = Panic ''Canister shall not send messages while in Init state''"
      "session_state s = Init" "ev = CanisterUpdate (Some cm)" "t = s"
proof (cases rule: handle_event_cases [of s env ev])
  case same
  show ?thesis
  proof (cases "fst (handle_event env ev s)")
    case (Ok u)
    with same up show ?thesis
      by (intro unchanged) (auto simp: try_update_state_eq same_session_def split: prod.splits)
  next
    case (Err e)
    with same(1) up show ?thesis
      by (intro failed) (auto simp: try_update_state_eq same_session_def split: prod.splits)
  next
    case (Panic e)
    with same(3) session_wf_known [OF wf] obtain cm
      where "session_state s = Init" "ev = CanisterUpdate (Some cm)" by fastforce
    with up show ?thesis by (intro panicked) (auto simp: try_update_state_eq)
  qed
next
  case closed': closed
  with up show ?thesis by (intro closed) (auto simp: try_update_state_eq)
next
  case failed': (failed e)
  with up show ?thesis by (intro failed) (auto simp: try_update_state_eq)
next
  case set_up': (set_up m k c)
  with up session_wf_Init [OF wf set_up'(2)] show ?thesis
    by (intro set_up [of m k c]) (auto simp: try_update_state_eq)
next
  case opened': (opened m cm)
  with up relay_canister_frame(1) [of s env cm] show ?thesis
    by (intro opened [of m]) (auto simp: try_update_state_eq same_session_def)
qed

text \<open>Which updates make the agent call the canister: a client message in Open, and no other.\<close>

lemma client_update_calls:
  "session_state s \<noteq> Open \<or> is_close m \<Longrightarrow>
     started_calls (snd (handle_client_update env (Inr m) s)) = started_calls s"
proof -
  assume a: "session_state s \<noteq> Open \<or> is_close m"
  have "started_calls (snd (handle_client_update env (Inr m) s)) = started_calls s"
    if i: "session_state s = Init" and m: "\<not> is_close m"
  proof (cases "handle_setup_transition env m s")
    case pair: (Pair r t)
    show ?thesis
    proof (cases r)
      case (Ok st)
      with pair setup_transition_Ok_iff [of env m s st t] have "started_calls t = started_calls s"
        by auto
      with pair Ok i m show ?thesis by (simp add: client_update_Init)
    qed (use setup_transition_not_Ok [of env m s] pair i m in \<open>auto simp: client_update_Init\<close>)
  qed
  with a show ?thesis
    by (cases "is_close m"; cases "session_state s") auto
qed

lemma canister_update_calls:
  "started_calls (snd (handle_canister_update env v s)) = started_calls s"
proof (cases v)
  case None
  then show ?thesis
    using close_frame(2) [of env s]
    by (cases "close_ws_session env s"; cases "fst (close_ws_session env s)")
       (auto simp: canister_update_None)
next
  case (Some cm)
  then show ?thesis
    using relay_canister_frame(2) [of env cm s]
    by (cases "session_state s"; cases "relay_canister_message env cm s";
        cases "fst (relay_canister_message env cm s)")
       (auto simp: canister_update_Setup)
qed

lemma relay_client_cases:
  "started_calls (snd (relay_client_message env m s)) = started_calls s \<or>
   (\<exists>en c a b cid. get_client_request env m = Inr en \<and> content_of env en = Call c a \<and>
      serialize (self_describe env) (cbor_envelope env en) = Inr b \<and> canister_id s = Some cid \<and>
      started_calls (snd (relay_client_message env m s)) = started_calls s @ [SpawnUpdateSigned cid b])"
  by (auto simp: relay_client_message_def relay_ws_message_to_ic_def relay_envelope_to_canister_def
      split: sum.splits EnvelopeContent.splits option.splits)

text \<open>What an update adds to the calls of the agent.\<close>

lemma update_calls:
  "started_calls (snd (try_update_state env ev s)) = started_calls s \<or>
   (session_state s = Open \<and> ws_write (snd (try_update_state env ev s)) = ws_write s \<and>
    (\<exists>m en c a b cid. ev = ClientUpdate (Inr m) \<and> get_client_request env m = Inr en \<and>
       content_of env en = Call c a \<and> canister_id s = Some cid \<and>
       serialize (self_describe env) (cbor_envelope env en) = Inr b \<and>
       started_calls (snd (try_update_state env ev s)) = started_calls s @ [SpawnUpdateSigned cid b]))"
proof (cases ev)
  case (ClientUpdate u)
  then show ?thesis
  proof (cases u)
    case (Inr m)
    with ClientUpdate show ?thesis
      using client_update_calls [of s m env] relay_client_cases [of env m s]
        relay_client_frame(2) [of env m s]
      by (cases "session_state s = Open \<and> \<not> is_close m") auto
  qed simp
next
  case (CanisterUpdate v)
  then show ?thesis by (simp add: canister_update_calls)
qed

section \<open>Properties\<close>

text \<open>
  C7: whatever the client, the canister and the codecs do, a session moves only along the edges of
  the protocol (Init to Setup, Setup to Open, any open state to Closed). A new state is reported
  exactly when the state changed, so Init is never reported and nothing leaves Closed; an error
  leaves the state as it was or Closed.
\<close>

theorem session_follows_protocol:
  "case try_update_state env ev s of
     (Ok (Some st), t) \<Rightarrow> session_state t = st \<and> session_edge (session_state s) st
   | (Ok None, t) \<Rightarrow> session_state t = session_state s \<and> session_state s \<noteq> Init
   | (Err e, t) \<Rightarrow> session_state t = session_state s \<or> session_state t = Closed
   | (Panic e, t) \<Rightarrow> session_state t = session_state s"
proof (cases rule: handle_event_cases [of s env ev])
  case same
  then show ?thesis
    by (cases "handle_event env ev s")
       (auto simp: try_update_state_eq same_session_def split: outcome.splits)
next
  case (opened m cm)
  then show ?thesis by (simp add: try_update_state_eq)
qed (auto simp: try_update_state_eq intro: session_edge.intros)

text \<open>
  Every update keeps what a session knows of its client: nothing before Setup, the client key and
  the canister from Setup on; and once set, neither the key nor the canister ever changes.
\<close>

theorem session_identity_invariant:
  assumes "session_wf s"
  shows "session_wf (snd (try_update_state env ev s)) \<and>
         (client_key s \<noteq> None \<longrightarrow> client_key (snd (try_update_state env ev s)) = client_key s) \<and>
         (canister_id s \<noteq> None \<longrightarrow> canister_id (snd (try_update_state env ev s)) = canister_id s)"
  using assms by (rule session_step_identity)

text \<open>
  A well-formed session panics on exactly one event, a canister message that arrives while it is
  in Init.
\<close>

theorem session_panics_iff:
  assumes "session_wf s"
  shows "(\<exists>e. fst (try_update_state env ev s) = Panic e) =
           (session_state s = Init \<and> (\<exists>m. ev = CanisterUpdate (Some m)))"
proof (cases rule: handle_event_cases [of s env ev])
  case same
  with assms session_wf_known [OF assms] show ?thesis
    by (cases "fst (handle_event env ev s)")
       (auto simp: fst_try_update_state)
qed (auto simp: fst_try_update_state)

text \<open>
  The message that sets a session up can be relayed to the canister right after: if the codec
  writes every envelope it reads, relaying it succeeds, spawns one signed update, and the update goes
  to the canister named in the envelope, whose key and sender the session has recorded.
\<close>

theorem setup_message_relays:
  assumes wf: "session_wf s"
    and up: "fst (try_update_state env ev s) = Ok (Some (Setup m))"
    and codec: "\<And>en. \<exists>b. serialize (self_describe env) (cbor_envelope env en) = Inr b"
  shows "\<exists>t en arg args b. t = snd (try_update_state env ev s) \<and>
           get_client_request env m = Inr en \<and> content_of env en = Call (the (canister_id t)) arg \<and>
           decode_open_args env arg = Inr args \<and>
           client_key t = Some (ClientKey_new (sender_of env en) (open_client_nonce args)) \<and>
           fst (relay_client_message env m t) = Ok () \<and>
           started_calls (snd (relay_client_message env m t)) =
             started_calls t @ [SpawnUpdateSigned (the (canister_id t)) b]"
proof (cases rule: handle_event_cases [of s env ev])
  case same
  with up show ?thesis
    by (auto simp: fst_try_update_state same_session_def split: outcome.splits if_splits)
next
  case (set_up m' k c)
  have m': "m' = m" using up set_up(4) by (auto simp: fst_try_update_state split: if_splits)
  let ?t = "s\<lparr>canister_id := Some c, client_key := Some k, session_state := Setup m\<rparr>"
  have t: "snd (try_update_state env ev s) = ?t"
    using session_wf_Init [OF wf set_up(2)] set_up(4) m' by simp
  from set_up(3) m' obtain en a args where en: "get_client_request env m = Inr en"
    "content_of env en = Call c a" "decode_open_args env a = Inr args"
    "k = ClientKey_new (sender_of env en) (open_client_nonce args)"
    by (auto simp: inspect_Inr_iff)
  from codec obtain b where "serialize (self_describe env) (cbor_envelope env en) = Inr b" by blast
  with en have "relay_client_message env m ?t =
      (Ok (), ?t\<lparr>started_calls := started_calls ?t @ [SpawnUpdateSigned c b]\<rparr>)"
    by (simp add: relay_client_message_Ok_iff)
  with en t show ?thesis by auto
qed (use up in \<open>auto simp: fst_try_update_state split: if_splits\<close>)

text \<open>
  C22: canister messages reach the client unchanged. In Setup and in Open, when the codec and the sink
  accept it, a canister message becomes exactly one binary frame holding its encoding, the session
  is Open afterwards, and nothing is sent to the canister.
\<close>

theorem canister_message_reaches_client:
  assumes "session_state s = Open \<or> (\<exists>m. session_state s = Setup m)"
    and "to_vec env cm = Inr b" and "sink_send env (Binary b) = Inr ()"
  shows "try_update_state env (CanisterUpdate (Some cm)) s =
           (Ok (if session_state s = Open then None else Some Open),
            s\<lparr>ws_write := ws_write s @ [Sent (Binary b)], session_state := Open\<rparr>)"
proof -
  have relay: "relay_canister_message env cm s =
      (Ok (), s\<lparr>ws_write := ws_write s @ [Sent (Binary b)]\<rparr>)"
    using assms(2,3) by (simp add: relay_canister_message_Ok_iff)
  from assms(1) show ?thesis
  proof
    assume "session_state s = Open"
    with relay show ?thesis by (simp add: try_update_state_eq)
  next
    assume "\<exists>m. session_state s = Setup m"
    with relay show ?thesis by (auto simp: try_update_state_eq canister_update_Setup)
  qed
qed

text \<open>
  C21: a message of the client is relayed to the canister only from the Open state, unchanged and once:
  one task is spawned that sends it. In Setup it is dropped, and an update never sends a frame to the
  client and relays a message to the canister.
\<close>

theorem client_message_relayed_once:
  "started_calls (snd (try_update_state env ev s)) = started_calls s \<or>
   (session_state s = Open \<and> ws_write (snd (try_update_state env ev s)) = ws_write s \<and>
    (\<exists>m en c a b cid. ev = ClientUpdate (Inr m) \<and> get_client_request env m = Inr en \<and>
       content_of env en = Call c a \<and> canister_id s = Some cid \<and>
       serialize (self_describe env) (cbor_envelope env en) = Inr b \<and>
       started_calls (snd (try_update_state env ev s)) = started_calls s @ [SpawnUpdateSigned cid b]))"
  by (rule update_calls)

text \<open>
  A WebSocket control frame of the client ends the session. Anything but a binary or a close
  message (a ping, a pong or a text) makes the update fail: in Open with the error that the message
  is not binary, in Init after the sink was closed; the session is left in the state it was in and
  nothing is sent to the canister, and the handler terminates on the error.
\<close>

theorem control_frame_ends_session:
  assumes "\<not> is_close m" and "\<And>b. m \<noteq> Binary b"
  shows "try_update_state env (ClientUpdate (Inr m)) (s\<lparr>session_state := Open\<rparr>) =
           (Err (WebSocket ''ws message from client is not binary encoded''), s\<lparr>session_state := Open\<rparr>) \<and>
         try_update_state env (ClientUpdate (Inr m)) (s\<lparr>session_state := Init\<rparr>) =
           (case sink_close env of
              Inl e \<Rightarrow> (Err (WebSocket e), s\<lparr>session_state := Init\<rparr>)
            | Inr _ \<Rightarrow>
                (Err (IcWsProtocol (''IC WS setup failed. Error: '' @
                   debug_ic_ws_error (WebSocket ''ws message from client is not binary encoded''))),
                 s\<lparr>session_state := Init, ws_write := ws_write s @ [SinkClosed]\<rparr>))"
proof -
  have req: "get_client_request env m = Inl (WebSocket ''ws message from client is not binary encoded'')"
    using assms by (cases m) (auto simp: get_client_request_def)
  then have insp: "inspect_ic_ws_open_message env m =
      Inl (WebSocket ''ws message from client is not binary encoded'')"
    by (simp add: inspect_ic_ws_open_message_def)
  show ?thesis
    using assms(1) req insp
    by (simp add: try_update_state_eq relay_client_message_def relay_ws_message_to_ic_def
        client_update_Init handle_setup_transition_def close_ws_session_def
        del: debug_ic_ws_error.simps split: sum.split)
qed

section \<open>Witnesses\<close>

text \<open>
  A small environment: a request is the bytes themselves, sent by one principal to one canister,
  and every codec and sink accepts what it is given.
\<close>

definition mock_session_env :: "bytes session_env" where
  "mock_session_env =
     \<lparr>from_slice = Some, content_of = (\<lambda>b. Call (Principal [4]) b), sender_of = (\<lambda>_. Principal [1]),
      decode_open_args = (\<lambda>_. Inr \<lparr>open_client_nonce = 9, open_gateway_principal = Principal [2]\<rparr>),
      self_describe = Inr [217, 217, 247], cbor_envelope = Inr, cbor_handshake = (\<lambda>_. Inr [0]),
      to_vec = (\<lambda>cm. Inr (msg_content cm)), sink_send = (\<lambda>_. Inr ()), sink_close = Inr ()\<rparr>"

definition mock_session :: ClientSession where
  "mock_session =
     \<lparr>client_id = 7, client_key = None, canister_id = None, session_state = Init,
      ws_write = [], started_calls = []\<rparr>"

definition mock_canister_message :: CanisterToClientMessage where
  "mock_canister_message = \<lparr>msg_key = ''_0'', msg_content = [5], msg_cert = [], msg_tree = []\<rparr>"

lemma mock_session_wf [simp]: "session_wf mock_session"
  by (simp add: session_wf_def mock_session_def)

lemma mock_setup:
  "try_update_state mock_session_env (ClientUpdate (Inr (Binary [5]))) mock_session =
     (Ok (Some (Setup (Binary [5]))),
      mock_session\<lparr>canister_id := Some (Principal [4]),
        client_key := Some (ClientKey_new (Principal [1]) 9), session_state := Setup (Binary [5])\<rparr>)"
  by (simp add: try_update_state_eq client_update_Init handle_setup_transition_def
      inspect_ic_ws_open_message_def get_client_request_def mock_session_env_def mock_session_def Let_def)

theorem session_identity_invariant_witness:
  "session_wf (snd (try_update_state mock_session_env (ClientUpdate (Inr (Binary [5]))) mock_session))"
  using session_identity_invariant [OF mock_session_wf] by blast

theorem session_panics_iff_witness:
  "\<exists>e. fst (try_update_state mock_session_env (CanisterUpdate (Some mock_canister_message)) mock_session) =
     Panic e"
  using session_panics_iff [OF mock_session_wf, of mock_session_env
      "CanisterUpdate (Some mock_canister_message)"]
  by (simp add: mock_session_def)

theorem setup_message_relays_witness:
  "\<exists>t. fst (relay_client_message mock_session_env (Binary [5]) t) = Ok () \<and>
     client_key t = Some (ClientKey_new (Principal [1]) 9)"
proof -
  have codec: "\<exists>b. serialize (self_describe mock_session_env) (cbor_envelope mock_session_env en) = Inr b"
    for en by (simp add: serialize_def mock_session_env_def)
  have up: "fst (try_update_state mock_session_env (ClientUpdate (Inr (Binary [5]))) mock_session) =
      Ok (Some (Setup (Binary [5])))" by (simp add: mock_setup del: snd_try_update_state)
  from setup_message_relays [OF mock_session_wf up codec] obtain t en args
    where "fst (relay_client_message mock_session_env (Binary [5]) t) = Ok ()"
      and "client_key t = Some (ClientKey_new (sender_of mock_session_env en) (open_client_nonce args))"
      and "decode_open_args mock_session_env [5] = Inr args" by (auto simp: get_client_request_def mock_session_env_def)
  then show ?thesis by (auto simp: mock_session_env_def)
qed

theorem canister_message_reaches_client_witness:
  "fst (try_update_state mock_session_env (CanisterUpdate (Some mock_canister_message))
     (mock_session\<lparr>session_state := Setup (Binary [5])\<rparr>)) = Ok (Some Open)"
  using canister_message_reaches_client [of "mock_session\<lparr>session_state := Setup (Binary [5])\<rparr>"
      mock_session_env mock_canister_message "[5]"]
  by (simp add: mock_session_env_def mock_canister_message_def)

theorem control_frame_ends_session_witness:
  "\<exists>e. fst (try_update_state mock_session_env (ClientUpdate (Inr (Ping []))) mock_session) = Err e"
proof -
  have "mock_session\<lparr>session_state := Init\<rparr> = mock_session" by (simp add: mock_session_def)
  with control_frame_ends_session [of "Ping []" mock_session_env mock_session] show ?thesis
    by (simp add: mock_session_env_def del: debug_ic_ws_error.simps)
qed

end
