(* ===== verification/Canister_Poller.thy ===== *)
theory Canister_Poller
  imports Channels
begin

text \<open>
  The poller of one canister (\<open>src/ic-websocket-gateway/src/canister_poller.rs\<close>). One iteration
  polls the canister from the next expected nonce, checks the nonces of the messages, relays them
  to the channels of the connected clients, and sleeps; after each iteration the poller removes
  its canister from the gateway state if no client is left. The loop is a machine whose steps are
  the stretches of code between two points at which other tasks can take effect.
\<close>

section \<open>Polling the canister\<close>

definition POLLING_TIMEOUT_MS :: u64 where
  "POLLING_TIMEOUT_MS = 5000"

datatype PollingStatus =
    NoMessagesPolled
  | MessagesPolled CanisterOutputCertifiedMessages
  | TimedOut

record CanisterPoller =
  poller_canister_id :: CanisterPrincipal
  poller_state :: poller_ref
  next_message_nonce :: u64
  polling_iteration :: u64
  polling_interval_ms :: u64

definition CanisterPoller_new :: "Principal \<Rightarrow> poller_ref \<Rightarrow> u64 \<Rightarrow> CanisterPoller" where
  "CanisterPoller_new canister_id st interval_ms =
     \<lparr>poller_canister_id = canister_id, poller_state = st, next_message_nonce = 0,
      polling_iteration = 0, polling_interval_ms = interval_ms\<rparr>"

text \<open>
  What the environment of a poller does in one step: \<open>ws_get_messages\<close> of \<open>canister-utils\<close> with the
  time it takes to answer, the debug text of an agent error, and the time that has passed since
  the iteration started when the poller looks at the clock.
\<close>

record poller_env =
  get_messages :: "Principal \<Rightarrow> CanisterWsGetMessagesArguments
                     \<Rightarrow> duration \<times> (IcError + CanisterOutputCertifiedMessages)"
  agent_error_debug :: "AgentError \<Rightarrow> string"
  elapsed :: duration

text \<open>\<open>tokio::time::timeout\<close>: the answer if it comes within the limit.\<close>

definition timeout :: "duration \<Rightarrow> duration \<times> 'a \<Rightarrow> 'a option" where
  "timeout limit call = (if fst call \<le> limit then Some (snd call) else None)"

text \<open>Errors caused by a replica that is malicious or unavailable.\<close>

fun is_recoverable_error :: "AgentError \<Rightarrow> bool" where
  "is_recoverable_error (InvalidReplicaUrl _) = True"
| "is_recoverable_error TimeoutWaitingForResponse = True"
| "is_recoverable_error (InvalidCborData _) = True"
| "is_recoverable_error (HttpError _) = True"
| "is_recoverable_error InvalidReplicaStatus = True"
| "is_recoverable_error (RequestStatusDoneNoReply _) = True"
| "is_recoverable_error (LookupPathAbsent _) = True"
| "is_recoverable_error (LookupPathUnknown _) = True"
| "is_recoverable_error (LookupPathError _) = True"
| "is_recoverable_error CertificateVerificationFailed = True"
| "is_recoverable_error CertificateNotAuthorized = True"
| "is_recoverable_error ResponseSizeExceededLimit = True"
| "is_recoverable_error (TransportError _) = True"
| "is_recoverable_error (CallDataMismatch _) = True"
| "is_recoverable_error (InvalidRejectCode _) = True"
| "is_recoverable_error (UncertifiedReject reject_code _) = (reject_code = SysTransient)"
| "is_recoverable_error _ = False"

definition poll_canister :: "poller_env \<Rightarrow> CanisterPoller \<Rightarrow> string + PollingStatus" where
  "poll_canister env p =
     (case timeout (from_millis POLLING_TIMEOUT_MS)
             (get_messages env (poller_canister_id p) \<lparr>get_nonce = next_message_nonce p\<rparr>) of
        Some (Inr certified_canister_output) \<Rightarrow>
          let number_of_polled_messages = length (messages certified_canister_output) in
          if number_of_polled_messages = 0 then Inr NoMessagesPolled
          else Inr (MessagesPolled certified_canister_output)
      | Some (Inl (Agent e)) \<Rightarrow>
          if is_recoverable_error e then Inr NoMessagesPolled
          else Inl (''Unrecoverable agent error: '' @ agent_error_debug env e)
      | Some (Inl (Candid e)) \<Rightarrow> Inl (''Unrecoverable candid error: '' @ e)
      | Some (Inl (Cdk e)) \<Rightarrow> Inl (''Unrecoverable CDK error: '' @ debug_str e)
      | None \<Rightarrow> Inr TimedOut)"

section \<open>Nonces\<close>

text \<open>The nonce is what follows the last underscore of a message's key.\<close>

definition get_nonce_from_message :: "string \<Rightarrow> string + u64" where
  "get_nonce_from_message key =
     (case iter_last (str_split (CHR ''_'') key) of
        Some message_nonce_str \<Rightarrow>
          (case parse_u64 message_nonce_str of
             Inl e \<Rightarrow> Inl (''Could not parse nonce. Error: '' @ debug_parse_error e)
           | Inr message_nonce \<Rightarrow> Inr message_nonce)
      | None \<Rightarrow> Inl ''Key in canister message is not formatted correctly'')"

definition non_consecutive_error :: "u64 \<Rightarrow> u64 \<Rightarrow> string" where
  "non_consecutive_error expected got =
     ''Non consecutive nonce: expected '' @ show_u64 expected @ '', got '' @ show_u64 got"

text \<open>
  The loop of \<open>update_nonce\<close>, over the nonce field of the poller: a parse error or a gap stops it
  with the nonce reached so far. The increment wraps, as in the release build.
\<close>

fun update_nonce_loop :: "u64 \<Rightarrow> CanisterOutputMessage list \<Rightarrow> (string + unit) \<times> u64" where
  "update_nonce_loop next [] = (Inr (), next)"
| "update_nonce_loop next (m # ms) =
     (case get_nonce_from_message (out_key m) of
        Inl e \<Rightarrow> (Inl e, next)
      | Inr message_nonce \<Rightarrow>
          if next \<noteq> 0 \<and> message_nonce \<noteq> next
          then (Inl (non_consecutive_error next message_nonce), next)
          else update_nonce_loop (message_nonce + 1) ms)"

definition update_nonce ::
  "CanisterOutputCertifiedMessages \<Rightarrow> CanisterPoller \<Rightarrow> (string + unit) \<times> CanisterPoller" where
  "update_nonce certified_canister_output p =
     (let (res, next) = update_nonce_loop (next_message_nonce p) (messages certified_canister_output)
      in (res, p\<lparr>next_message_nonce := next\<rparr>))"

section \<open>Relaying\<close>

text \<open>
  \<open>relay_message\<close>: a send error is ignored, since the session handler may have terminated after
  the poller read its sender. None means that the poller waits for room in the channel.
\<close>

definition relay_message :: "CanisterToClientMessage \<Rightarrow> chan_id \<Rightarrow> channels \<Rightarrow> channels option" where
  "relay_message m tx chans =
     (case channel_send m (chans tx) of
        None \<Rightarrow> None
      | Some (_, ch) \<Rightarrow> Some (chans(tx := ch)))"

definition to_client_message :: "bytes \<Rightarrow> bytes \<Rightarrow> CanisterOutputMessage \<Rightarrow> CanisterToClientMessage" where
  "to_client_message crt tr m =
     \<lparr>msg_key = out_key m, msg_content = out_content m, msg_cert = crt, msg_tree = tr\<rparr>"

text \<open>One round of the loop of \<open>relay_messages\<close>: messages for unknown clients are ignored.\<close>

definition relay_output_message ::
  "PollerState \<Rightarrow> bytes \<Rightarrow> bytes \<Rightarrow> CanisterOutputMessage \<Rightarrow> channels \<Rightarrow> channels option" where
  "relay_output_message clients crt tr m chans =
     (case dm_get clients (out_client_key m) of
        Some cs \<Rightarrow> relay_message (to_client_message crt tr m) (sender cs) chans
      | None \<Rightarrow> Some chans)"

text \<open>The whole loop while no other task interferes; it stops at a message it has to wait for.\<close>

fun relay_messages ::
  "PollerState \<Rightarrow> bytes \<Rightarrow> bytes \<Rightarrow> CanisterOutputMessage list \<Rightarrow> channels
     \<Rightarrow> CanisterOutputMessage list \<times> channels" where
  "relay_messages clients crt tr [] chans = ([], chans)"
| "relay_messages clients crt tr (m # ms) chans =
     (case relay_output_message clients crt tr m chans of
        None \<Rightarrow> (m # ms, chans)
      | Some chans' \<Rightarrow> relay_messages clients crt tr ms chans')"

section \<open>Sleeping\<close>

text \<open>None is the panic of a subtraction of durations that would be negative.\<close>

definition compute_effective_polling_interval :: "CanisterPoller \<Rightarrow> duration \<Rightarrow> duration option" where
  "compute_effective_polling_interval p elapsed_time =
     (let polling_interval = from_millis (polling_interval_ms p) in
      if polling_interval < elapsed_time then Some (from_millis 0)
      else duration_sub polling_interval elapsed_time)"

section \<open>The loop\<close>

definition poller_should_terminate :: "CanisterPoller \<Rightarrow> GatewayState \<Rightarrow> bool \<times> GatewayState" where
  "poller_should_terminate p g =
     (case remove_canister_if_empty (poller_canister_id p) g of
        (EmptyState, g') \<Rightarrow> (True, g')
      | (NotEmpty, g') \<Rightarrow> (False, g'))"

text \<open>
  Where the poller is: at the top of its loop, in the middle of relaying the polled messages (with
  those left, the certificate, the tree and whether the queue was drained), about to compute how
  long to sleep, sleeping, after a successful or a failed iteration, or at the end of its task.
\<close>

datatype poller_pc =
    PollerLoop
  | PollerRelaying "CanisterOutputMessage list" bytes bytes bool
  | PollerPolled
  | PollerSleeping duration
  | PollerChecking
  | PollerFailed string
  | PollerDone "(unit, string) outcome"

record poller_task =
  poller :: CanisterPoller
  pc :: poller_pc

definition poller_task_new :: "CanisterPoller \<Rightarrow> poller_task" where
  "poller_task_new p = \<lparr>poller = p, pc = PollerLoop\<rparr>"

text \<open>\<open>poll_and_relay\<close> from its start to the relaying of the messages.\<close>

definition poll_and_relay_start :: "poller_env \<Rightarrow> CanisterPoller \<Rightarrow> poller_task" where
  "poll_and_relay_start env p =
     (case poll_canister env p of
        Inl e \<Rightarrow> \<lparr>poller = p, pc = PollerFailed e\<rparr>
      | Inr (MessagesPolled out) \<Rightarrow>
          let end_of_queue_reached = (case is_end_of_queue out of None \<Rightarrow> True | Some b \<Rightarrow> b) in
          (case update_nonce out p of
             (Inl e, p') \<Rightarrow> \<lparr>poller = p', pc = PollerFailed e\<rparr>
           | (Inr _, p') \<Rightarrow>
               \<lparr>poller = p',
                pc = PollerRelaying (messages out) (cert out) (tree out) end_of_queue_reached\<rparr>)
      | Inr TimedOut \<Rightarrow> \<lparr>poller = p, pc = PollerChecking\<rparr>
      | Inr NoMessagesPolled \<Rightarrow> \<lparr>poller = p, pc = PollerPolled\<rparr>)"

text \<open>
  One step of \<open>run_polling\<close>. None means that the poller waits for room in a channel, or that it is
  done. The first step of an iteration takes together what another task could come between in the code:
  reading the number of clients, setting their gauge, and the request.
\<close>

definition poller_step ::
  "poller_env \<Rightarrow> poller_task \<Rightarrow> GatewayState \<Rightarrow> channels
     \<Rightarrow> (poller_task \<times> GatewayState \<times> channels) option" where
  "poller_step env t g chans =
     (let p = poller t; c = poller_canister_id p; clients = arcs g (poller_state p) in
      case pc t of
        PollerLoop \<Rightarrow>
          Some (poll_and_relay_start env p, set_clients_gauge c (dm_len clients) g, chans)
      | PollerRelaying (m # ms) crt tr eoq \<Rightarrow>
          (case relay_output_message clients crt tr m chans of
             None \<Rightarrow> None
           | Some chans' \<Rightarrow> Some (t\<lparr>pc := PollerRelaying ms crt tr eoq\<rparr>, g, chans'))
      | PollerRelaying [] crt tr eoq \<Rightarrow>
          Some (t\<lparr>pc := (if \<not> eoq then PollerChecking else PollerPolled)\<rparr>, g, chans)
      | PollerPolled \<Rightarrow>
          (case compute_effective_polling_interval p (elapsed env) of
             Some d \<Rightarrow> Some (t\<lparr>pc := PollerSleeping d\<rparr>, g, chans)
           | None \<Rightarrow>
               Some (t\<lparr>pc := PollerDone (Panic ''overflow when subtracting durations'')\<rparr>, g, chans))
      | PollerSleeping d \<Rightarrow> Some (t\<lparr>pc := PollerChecking\<rparr>, g, chans)
      | PollerChecking \<Rightarrow>
          (case poller_should_terminate p g of
             (True, g') \<Rightarrow> Some (t\<lparr>pc := PollerDone (Ok ())\<rparr>, g', chans)
           | (False, g') \<Rightarrow>
               Some (\<lparr>poller = p\<lparr>polling_iteration := polling_iteration p + 1\<rparr>, pc = PollerLoop\<rparr>,
                     g', chans))
      | PollerFailed e \<Rightarrow>
          (case remove_failed_canister c g of
             (Panic m, g') \<Rightarrow> Some (t\<lparr>pc := PollerDone (Panic m)\<rparr>, g', chans)
           | (_, g') \<Rightarrow> Some (t\<lparr>pc := PollerDone (Err e)\<rparr>, g', chans))
      | PollerDone r \<Rightarrow> None)"

text \<open>At most \<open>n\<close> steps of the poller alone, with the environment of each step.\<close>

fun poller_run ::
  "nat \<Rightarrow> (nat \<Rightarrow> poller_env) \<Rightarrow> poller_task \<times> GatewayState \<times> channels
     \<Rightarrow> poller_task \<times> GatewayState \<times> channels" where
  "poller_run 0 envs s = s"
| "poller_run (Suc n) envs (t, g, chans) =
     (case poller_step (envs 0) t g chans of
        None \<Rightarrow> (t, g, chans)
      | Some s' \<Rightarrow> poller_run n (\<lambda>i. envs (Suc i)) s')"

end
