(* ===== verification/Session_Handler.thy ===== *)
theory Session_Handler
  imports Client_Session_Props Canister_Poller
begin

text \<open>
  The handler of a client's session (\<open>src/ic-websocket-gateway/src/client_session_handler.rs\<close>): it
  accepts the WebSocket connection, runs the session, and reacts to its changes of state by
  registering the client, relaying its first message, starting a poller, or cleaning up. The code
  between two points at which another task can take effect is one step. Spans, traces and the metrics
  of the connection carry no behaviour and are left out.
\<close>

section \<open>State\<close>

record ClientSessionHandler =
  handler_id :: u64
  handler_polling_interval_ms :: u64

definition ClientSessionHandler_new :: "u64 \<Rightarrow> u64 \<Rightarrow> ClientSessionHandler" where
  "ClientSessionHandler_new i interval_ms =
     \<lparr>handler_id = i, handler_polling_interval_ms = interval_ms\<rparr>"

text \<open>
  Where a handler is: waiting for the session's next change of state, about to relay the message that
  set the session up, about to start a poller, about to tell the canister that the client is gone, or
  at the end of its task.
\<close>

datatype handler_pc =
    HandlerUpdate
  | HandlerRelayOpen CanisterPrincipal ClientKey Message "poller_ref option"
  | HandlerStartPoller poller_ref
  | HandlerWsClose CanisterPrincipal ClientKey "(unit, string) outcome"
  | HandlerDone "(unit, string) outcome"

record handler_task =
  handler :: ClientSessionHandler
  handler_pc :: handler_pc
  client_session :: ClientSession
  client_channel_tx :: "chan_id option"

section \<open>Steps\<close>

text \<open>An \<open>expect\<close> on an optional value.\<close>

definition expect :: "string \<Rightarrow> 'a option \<Rightarrow> ('a, 'e) outcome" where
  "expect msg v = (case v of Some x \<Rightarrow> Ok x | None \<Rightarrow> Panic msg)"

definition get_canister_id :: "ClientSession \<Rightarrow> (CanisterPrincipal, string) outcome" where
  "get_canister_id s = expect ''must be set during Setup'' (canister_id s)"

definition get_client_key :: "ClientSession \<Rightarrow> (ClientKey, string) outcome" where
  "get_client_key s = expect ''must be set during Setup'' (client_key s)"

text \<open>
  What an arm of the loop does to the gateway state, and where the handler goes next: an error is the
  return of \<open>handle_client_session\<close>.
\<close>

type_synonym 'a arm = "('a, string) outcome \<times> GatewayState"

text \<open>
  The arm of Setup up to the relay: the client is registered, with the sender taken out of the option
  of the handler.
\<close>

definition register_client ::
  "ClientSession \<Rightarrow> chan_id option \<Rightarrow> Message \<Rightarrow> GatewayState \<Rightarrow> handler_pc arm" where
  "register_client s tx ws_open_message g =
     and_then (get_canister_id s, g) (\<lambda>cid g.
     and_then (get_client_key s, g) (\<lambda>key g.
     and_then (expect ''must be set only once'' tx, g) (\<lambda>client_channel_tx g.
       let (new_poller_state, g1) =
             insert_client_channel_and_get_new_poller_state cid key client_channel_tx g
       in (Ok (HandlerRelayOpen cid key ws_open_message new_poller_state), g1))))"

text \<open>The rest of the arm: a client whose message could not be relayed is removed again.\<close>

definition relay_open_message ::
  "'e session_env \<Rightarrow> CanisterPrincipal \<Rightarrow> ClientKey \<Rightarrow> Message \<Rightarrow> poller_ref option
     \<Rightarrow> ClientSession \<Rightarrow> GatewayState \<Rightarrow> handler_pc arm \<times> ClientSession" where
  "relay_open_message env cid key ws_open_message new_poller_state s g =
     (case relay_client_message env ws_open_message s of
        (Ok _, s1) \<Rightarrow>
          ((Ok (case new_poller_state of
                  Some r \<Rightarrow> HandlerStartPoller r
                | None \<Rightarrow> HandlerUpdate), g), s1)
      | (Err e, s1) \<Rightarrow>
          (and_then (remove_client cid key g)
             (\<lambda>_ g1. (Err (''Could not relay WS open message to IC: '' @ debug_ic_ws_error e), g1)), s1)
      | (Panic m, s1) \<Rightarrow> ((Panic m, g), s1))"

text \<open>The arm of Closed, up to the call of \<open>ws_close\<close>.\<close>

definition handle_closed :: "ClientSession \<Rightarrow> GatewayState \<Rightarrow> handler_pc arm" where
  "handle_closed s g =
     and_then (get_canister_id s, g) (\<lambda>cid g.
     and_then (get_client_key s, g) (\<lambda>key g.
     and_then (remove_client cid key g) (\<lambda>_ g1.
       (Ok (HandlerWsClose cid key (Ok ())), g1))))"

text \<open>
  The arm of an error: after a failed poller there is nothing to clean up; otherwise the client is
  removed if it is still there.
\<close>

definition handle_error :: "IcWsError \<Rightarrow> ClientSession \<Rightarrow> GatewayState \<Rightarrow> handler_pc arm" where
  "handle_error e s g =
     (case e of
        Poller m \<Rightarrow> (Err (''Poller error: '' @ debug_str m), g)
      | _ \<Rightarrow>
          and_then (get_canister_id s, g) (\<lambda>cid g.
          and_then (get_client_key s, g) (\<lambda>key g.
            case remove_client_if_exists cid key g of
              (Removed key', g1) \<Rightarrow>
                (Ok (HandlerWsClose cid key' (Err (''Client session error: '' @ debug_ic_ws_error e))), g1)
            | (Vacant, g1) \<Rightarrow> (Err (''Client error before session Setup: '' @ debug_ic_ws_error e), g1))))"

text \<open>
  The match of the loop on what the session reports. The sender is taken only by the arm of Setup.
\<close>

definition handle_update ::
  "(IcWsSessionState option, IcWsError) outcome \<Rightarrow> ClientSession \<Rightarrow> chan_id option
     \<Rightarrow> GatewayState \<Rightarrow> handler_pc arm" where
  "handle_update r s tx g =
     (case r of
        Ok (Some Init) \<Rightarrow> (Panic ''Updating the client session state cannot result in Init'', g)
      | Ok (Some (Setup ws_open_message)) \<Rightarrow> register_client s tx ws_open_message g
      | Ok (Some Open) \<Rightarrow> and_then (get_client_key s, g) (\<lambda>_ g. (Ok HandlerUpdate, g))
      | Ok (Some Closed) \<Rightarrow> handle_closed s g
      | Ok None \<Rightarrow> (Ok HandlerUpdate, g)
      | Err e \<Rightarrow> handle_error e s g
      | Panic m \<Rightarrow> (Panic m, g))"

definition takes_sender :: "(IcWsSessionState option, IcWsError) outcome \<Rightarrow> bool" where
  "takes_sender r = (case r of Ok (Some (Setup _)) \<Rightarrow> True | _ \<Rightarrow> False)"

text \<open>
  \<open>start_poller\<close>: the poller task it spawns, for the session's canister and the poller state the
  gateway state handed out.
\<close>

definition start_poller ::
  "ClientSessionHandler \<Rightarrow> ClientSession \<Rightarrow> poller_ref \<Rightarrow> (poller_task, string) outcome" where
  "start_poller h s new_poller_state =
     (case get_canister_id s of
        Ok cid \<Rightarrow>
          Ok (poller_task_new (CanisterPoller_new cid new_poller_state (handler_polling_interval_ms h)))
      | Err e \<Rightarrow> Err e
      | Panic m \<Rightarrow> Panic m)"

text \<open>
  \<open>call_ws_close\<close>: the function \<open>ws_close\<close> is called, whose outcome is only logged, be it an error of the
  request or one of encoding its arguments, before there is a request (\<open>Canister_Utils\<close>).
\<close>

definition call_ws_close :: "CanisterPrincipal \<Rightarrow> ClientKey \<Rightarrow> ClientSession \<Rightarrow> ClientSession" where
  "call_ws_close cid key s = s\<lparr>started_calls := started_calls s @ [WsClose cid key]\<rparr>"

text \<open>
  Where an arm leaves the handler: an error or a panic is the end of the task, which drops the sender
  if the handler still holds it.
\<close>

definition end_task :: "(unit, string) outcome \<Rightarrow> handler_task \<Rightarrow> handler_task" where
  "end_task r h = h\<lparr>handler_pc := HandlerDone r, client_channel_tx := None\<rparr>"

definition goto :: "(handler_pc, string) outcome \<Rightarrow> handler_task \<Rightarrow> handler_task" where
  "goto r h =
     (case r of
        Ok next_pc \<Rightarrow> h\<lparr>handler_pc := next_pc\<rparr>
      | Err e \<Rightarrow> end_task (Err e) h
      | Panic m \<Rightarrow> end_task (Panic m) h)"

text \<open>The step of a handler that waits for its session, on one event of the session.\<close>

definition handler_update ::
  "'e session_env \<Rightarrow> session_event \<Rightarrow> handler_task \<Rightarrow> GatewayState \<Rightarrow> handler_task \<times> GatewayState" where
  "handler_update env ev h g =
     (let (r, s1) = try_update_state env ev (client_session h);
          (next_pc, g1) = handle_update r s1 (client_channel_tx h) g
      in (goto next_pc
            (h\<lparr>client_session := s1,
               client_channel_tx := (if takes_sender r then None else client_channel_tx h)\<rparr>), g1))"

text \<open>
  The step of a handler that is inside an arm, with the poller it spawns, if any. None means that it
  waits for its session or that its task has ended.
\<close>

definition handler_continue ::
  "'e session_env \<Rightarrow> handler_task \<Rightarrow> GatewayState
     \<Rightarrow> (handler_task \<times> GatewayState \<times> poller_task option) option" where
  "handler_continue env h g =
     (let s = client_session h in
      case handler_pc h of
        HandlerRelayOpen cid key m new_poller_state \<Rightarrow>
          (case relay_open_message env cid key m new_poller_state s g of
             ((next_pc, g1), s1) \<Rightarrow> Some (goto next_pc (h\<lparr>client_session := s1\<rparr>), g1, None))
      | HandlerStartPoller r \<Rightarrow>
          (case start_poller (handler h) s r of
             Ok t \<Rightarrow> Some (h\<lparr>handler_pc := HandlerUpdate\<rparr>, g, Some t)
           | Err e \<Rightarrow> Some (end_task (Err e) h, g, None)
           | Panic m \<Rightarrow> Some (end_task (Panic m) h, g, None))
      | HandlerWsClose cid key r \<Rightarrow>
          Some (end_task r (h\<lparr>client_session := call_ws_close cid key s\<rparr>), g, None)
      | _ \<Rightarrow> None)"

text \<open>
  \<open>start_session\<close>: the WebSocket handshake (its error as text), the principal of the agent, the
  channel, and the initialisation of the session. The channel of the handler is the one with its
  identifier.
\<close>

definition start_session ::
  "'e session_env \<Rightarrow> string + unit \<Rightarrow> string + Principal \<Rightarrow> ClientSessionHandler \<Rightarrow> handler_task" where
  "start_session env accepted agent_principal h =
     (let no_session = \<lparr>client_id = handler_id h, client_key = None, canister_id = None,
            session_state = Init, ws_write = [], started_calls = []\<rparr>;
          ended = (\<lambda>s r. \<lparr>handler = h, handler_pc = HandlerDone r, client_session = s,
            client_channel_tx = None\<rparr>)
      in case accepted of
           Inl e \<Rightarrow> ended no_session (Err (''Refused WebSocket connection '' @ e))
         | Inr _ \<Rightarrow>
             (case agent_principal of
                Inl e \<Rightarrow> ended no_session (Panic (''Principal should be set: '' @ debug_str e))
              | Inr gw_principal \<Rightarrow>
                  (case ClientSession_init env (handler_id h) gw_principal of
                     (Err e, s) \<Rightarrow> ended s (Err (''Client session error: '' @ debug_ic_ws_error e))
                   | (Panic m, s) \<Rightarrow> ended s (Panic m)
                   | (Ok _, s) \<Rightarrow>
                       \<lparr>handler = h, handler_pc = HandlerUpdate, client_session = s,
                        client_channel_tx = Some (handler_id h)\<rparr>)))"

end
