(* ===== verification/Ws_Listener.thy ===== *)
theory Ws_Listener
  imports Session_Handler
begin

text \<open>
  The listener of incoming connections (\<open>src/ic-websocket-gateway/src/ws_listener.rs\<close>): it gives each
  TCP connection the next client identifier, lets a task of its own do the TLS handshake, and starts a
  session handler once the handshake is done. TCP and TLS streams, the TLS acceptor and the files of
  the certificate are not part of the repository: they are types and functions of an environment.
\<close>

section \<open>Data\<close>

datatype ('tcp, 'tls) CustomStream = Tcp 'tcp | TcpWithTls 'tls

record TlsConfig =
  certificate_pem_path :: string
  certificate_key_pem_path :: string

record ('tcp, 'tls) AcceptedConnection =
  accepted_client_id :: u64
  accepted_stream :: "('tcp, 'tls) CustomStream"

record 'acc WsListener =
  tls_acceptor :: "'acc option"
  listener_polling_interval_ms :: u64
  next_client_id :: u64
  clients_connection_time :: "(u64, instant) dashmap"

text \<open>
  What the listener uses of its environment: binding the address, reading a file, making a TLS
  identity and an acceptor (an error is its text), and the handshake, with the time it takes.
\<close>

record ('ident, 'acc) listener_env =
  bind_address :: "string \<Rightarrow> string + unit"
  read_file :: "string \<Rightarrow> string + bytes"
  from_pkcs8 :: "bytes \<Rightarrow> bytes \<Rightarrow> string + 'ident"
  build_acceptor :: "'ident \<Rightarrow> string + 'acc"

type_synonym ('tcp, 'tls, 'acc) tls_accept = "'acc \<Rightarrow> 'tcp \<Rightarrow> duration \<times> (string + 'tls)"

text \<open>An \<open>expect\<close> on a result: the panic message shows the error.\<close>

definition expect_result :: "string \<Rightarrow> string + 'a \<Rightarrow> ('a, 'e) outcome" where
  "expect_result msg r = (case r of Inr x \<Rightarrow> Ok x | Inl e \<Rightarrow> Panic (msg @ '': '' @ e))"

section \<open>Creating the listener\<close>

definition load_tls_acceptor ::
  "('ident, 'acc) listener_env \<Rightarrow> TlsConfig \<Rightarrow> ('acc, string) outcome" where
  "load_tls_acceptor env tls_config =
     fst (and_then (expect_result ''Can't read certificate''
                      (read_file env (certificate_pem_path tls_config)), ()) (\<lambda>chain u.
          and_then (expect_result ''Can't read private key''
                      (read_file env (certificate_key_pem_path tls_config)), u) (\<lambda>privkey u.
          and_then (expect_result ''Can't create a TLS identity''
                      (from_pkcs8 env chain privkey), u) (\<lambda>tls_identity u.
          (expect_result ''Can't create a TLS acceptor from the TLS identity''
             (build_acceptor env tls_identity), u)))))"

definition WsListener_new ::
  "('ident, 'acc) listener_env \<Rightarrow> string \<Rightarrow> u64 \<Rightarrow> TlsConfig option
     \<Rightarrow> ('acc WsListener, string) outcome" where
  "WsListener_new env gateway_address interval_ms tls_config =
     (case expect_result ''Can't listen on this address'' (bind_address env gateway_address) of
        Panic m \<Rightarrow> Panic m
      | Err e \<Rightarrow> Err e
      | Ok _ \<Rightarrow>
          let new = (\<lambda>acceptor. \<lparr>tls_acceptor = acceptor, listener_polling_interval_ms = interval_ms,
                next_client_id = 0, clients_connection_time = dm_new\<rparr>)
          in (case tls_config of
                None \<Rightarrow> Ok (new None)
              | Some conf \<Rightarrow>
                  (case load_tls_acceptor env conf of
                     Ok acceptor \<Rightarrow> Ok (new (Some acceptor))
                   | Err e \<Rightarrow> Err e
                   | Panic m \<Rightarrow> Panic m)))"

section \<open>Accepting a connection\<close>

text \<open>
  \<open>accept_connection\<close> notes the time of the connection and spawns the task of the handshake, which
  holds the identifier, the stream and the acceptor; the loop then counts the identifier up, which
  wraps in the release build.
\<close>

record ('tcp, 'acc) tls_task =
  task_client_id :: u64
  task_stream :: 'tcp
  task_acceptor :: "'acc option"

definition accept_connection ::
  "instant \<Rightarrow> 'tcp \<Rightarrow> 'acc WsListener \<Rightarrow> ('tcp, 'acc) tls_task \<times> 'acc WsListener" where
  "accept_connection now stream l =
     (\<lparr>task_client_id = next_client_id l, task_stream = stream, task_acceptor = tls_acceptor l\<rparr>,
      l\<lparr>clients_connection_time := dm_insert (next_client_id l) now (clients_connection_time l)\<rparr>)"

definition count_client_id :: "'acc WsListener \<Rightarrow> 'acc WsListener" where
  "count_client_id l = l\<lparr>next_client_id := next_client_id l + 1\<rparr>"

definition TLS_ACCEPTOR_TIMEOUT :: duration where
  "TLS_ACCEPTOR_TIMEOUT = from_millis 10000"

text \<open>What the task of the handshake ends with: a stream, or an error it only logs.\<close>

definition accept_stream ::
  "('tcp, 'tls, 'acc) tls_accept \<Rightarrow> ('tcp, 'acc) tls_task
     \<Rightarrow> string + ('tcp, 'tls) AcceptedConnection" where
  "accept_stream tls_accept t =
     (let connection = (\<lambda>stream. \<lparr>accepted_client_id = task_client_id t, accepted_stream = stream\<rparr>) in
      case task_acceptor t of
        Some acceptor \<Rightarrow>
          let call = tls_accept acceptor (task_stream t) in
          if fst call \<le> TLS_ACCEPTOR_TIMEOUT
          then (case snd call of
                  Inr tls_stream \<Rightarrow> Inr (connection (TcpWithTls tls_stream))
                | Inl e \<Rightarrow> Inl (''TLS handshake failed: '' @ e))
          else Inl ''Accepting TLS connection timed out: Elapsed(())''
      | None \<Rightarrow> Inr (connection (Tcp (task_stream t))))"

section \<open>Starting a session handler\<close>

text \<open>
  \<open>start_session_handler\<close>: the handler it spawns and the time its connection came in; looking up a
  time that is not there is a panic of the listener.
\<close>

definition start_session_handler ::
  "'acc WsListener \<Rightarrow> u64 \<Rightarrow> (ClientSessionHandler \<times> instant, string) outcome" where
  "start_session_handler l cid =
     (case dm_get (clients_connection_time l) cid of
        Some start \<Rightarrow> Ok (ClientSessionHandler_new cid (listener_polling_interval_ms l), start)
      | None \<Rightarrow> Panic ''called `Option::unwrap()` on a `None` value'')"

section \<open>The loop\<close>

text \<open>
  The listener's task and the tasks of the handshakes: those running, the connections in the channel
  between them, oldest first, the handlers started, and whether the branch of \<open>accept\<close> is disabled
  for the rest of the current \<open>select!\<close>, which is what an error of \<open>accept\<close> does, since it does not
  match the pattern of the branch. The number of connections accepted is kept for the statements.
\<close>

record ('tcp, 'tls, 'acc) listener_state =
  ws_listener :: "'acc WsListener"
  tls_tasks :: "('tcp, 'acc) tls_task list"
  tls_acceptor_channel :: "('tcp, 'tls) AcceptedConnection list"
  started_handlers :: "ClientSessionHandler list"
  accept_disabled :: bool
  listener_panicked :: bool
  connections :: nat

definition listener_start :: "'acc WsListener \<Rightarrow> ('tcp, 'tls, 'acc) listener_state" where
  "listener_start l =
     \<lparr>ws_listener = l, tls_tasks = [], tls_acceptor_channel = [], started_handlers = [],
      accept_disabled = False, listener_panicked = False, connections = 0\<rparr>"

text \<open>The branch of \<open>accept\<close>, on a connection and on an error.\<close>

definition on_connection ::
  "instant \<Rightarrow> 'tcp \<Rightarrow> ('tcp, 'tls, 'acc) listener_state \<Rightarrow> ('tcp, 'tls, 'acc) listener_state" where
  "on_connection now stream s =
     (let (t, l) = accept_connection now stream (ws_listener s)
      in s\<lparr>ws_listener := count_client_id l, tls_tasks := tls_tasks s @ [t],
           accept_disabled := False, connections := Suc (connections s)\<rparr>)"

definition on_accept_error ::
  "('tcp, 'tls, 'acc) listener_state \<Rightarrow> ('tcp, 'tls, 'acc) listener_state" where
  "on_accept_error s = s\<lparr>accept_disabled := True\<rparr>"

text \<open>The branch of the channel; None while the channel is empty.\<close>

definition on_accepted ::
  "('tcp, 'tls, 'acc) listener_state \<Rightarrow> ('tcp, 'tls, 'acc) listener_state option" where
  "on_accepted s =
     (case tls_acceptor_channel s of
        [] \<Rightarrow> None
      | c # cs \<Rightarrow>
          let s1 = s\<lparr>tls_acceptor_channel := cs, accept_disabled := False\<rparr> in
          (case start_session_handler (ws_listener s) (accepted_client_id c) of
             Ok (h, _) \<Rightarrow> Some (s1\<lparr>started_handlers := started_handlers s @ [h]\<rparr>)
           | _ \<Rightarrow> Some (s1\<lparr>listener_panicked := True\<rparr>)))"

text \<open>The end of a handshake; None while the channel is full.\<close>

definition finish_handshake ::
  "('tcp, 'tls, 'acc) tls_accept \<Rightarrow> nat \<Rightarrow> ('tcp, 'tls, 'acc) listener_state
     \<Rightarrow> ('tcp, 'tls, 'acc) listener_state option" where
  "finish_handshake tls_accept n s =
     (let rest = take n (tls_tasks s) @ drop (Suc n) (tls_tasks s) in
      case accept_stream tls_accept (tls_tasks s ! n) of
        Inl _ \<Rightarrow> Some (s\<lparr>tls_tasks := rest\<rparr>)
      | Inr c \<Rightarrow>
          if CHANNEL_CAPACITY \<le> length (tls_acceptor_channel s) then None
          else Some (s\<lparr>tls_tasks := rest, tls_acceptor_channel := tls_acceptor_channel s @ [c]\<rparr>))"

inductive listener_step ::
  "('tcp, 'tls, 'acc) listener_state \<Rightarrow> ('tcp, 'tls, 'acc) listener_state \<Rightarrow> bool" where
  connection:
    "\<not> listener_panicked s \<Longrightarrow> \<not> accept_disabled s \<Longrightarrow> listener_step s (on_connection now stream s)"
| accept_error:
    "\<not> listener_panicked s \<Longrightarrow> \<not> accept_disabled s \<Longrightarrow> listener_step s (on_accept_error s)"
| accepted:
    "\<not> listener_panicked s \<Longrightarrow> on_accepted s = Some t \<Longrightarrow> listener_step s t"
| handshake:
    "n < length (tls_tasks s) \<Longrightarrow> finish_handshake tls_accept n s = Some t \<Longrightarrow> listener_step s t"

inductive_cases listener_stepE: "listener_step s t"

end
