(* ===== verification/Ws_Listener_Props.thy ===== *)
theory Ws_Listener_Props
  imports Ws_Listener
begin

text \<open>
  What the listener guarantees: the identifiers it gives to clients are distinct, the connection time
  it looks up is always there and is never given back, and what an error of \<open>accept\<close> does to it.
\<close>

section \<open>The invariant\<close>

text \<open>The identifiers that are in use: in a handshake, in the channel, in a session handler.\<close>

definition ids_in_use :: "('tcp, 'tls, 'acc) listener_state \<Rightarrow> u64 list" where
  "ids_in_use s =
     map task_client_id (tls_tasks s) @ map accepted_client_id (tls_acceptor_channel s) @
     map handler_id (started_handlers s)"

definition given_ids :: "nat \<Rightarrow> u64 set" where
  "given_ids n = of_nat ` {..<n}"

definition listener_inv :: "('tcp, 'tls, 'acc) listener_state \<Rightarrow> bool" where
  "listener_inv s \<longleftrightarrow>
     next_client_id (ws_listener s) = of_nat (connections s) \<and>
     dm_keys (clients_connection_time (ws_listener s)) = given_ids (connections s) \<and>
     set (ids_in_use s) \<subseteq> given_ids (connections s) \<and>
     (connections s \<le> 2 ^ 64 \<longrightarrow> distinct (ids_in_use s)) \<and>
     \<not> listener_panicked s"

lemma given_ids_0 [simp]: "given_ids 0 = {}"
  by (simp add: given_ids_def)

lemma given_ids_Suc: "given_ids (Suc n) = insert (of_nat n) (given_ids n)"
  by (auto simp: given_ids_def lessThan_Suc)

lemma of_nat_u64_inj:
  "m < 2 ^ 64 \<Longrightarrow> n < 2 ^ 64 \<Longrightarrow> (of_nat m :: u64) = of_nat n \<longleftrightarrow> m = n"
  using unat_u64_of_nat by metis

lemma given_ids_fresh:
  assumes "n < 2 ^ 64"
  shows "of_nat n \<notin> given_ids n"
proof
  assume "of_nat n \<in> given_ids n"
  then obtain m where m: "m < n" "(of_nat n :: u64) = of_nat m" by (auto simp: given_ids_def)
  with of_nat_u64_inj [of n m] assms show False by simp
qed

lemma card_given_ids: "n \<le> 2 ^ 64 \<Longrightarrow> card (given_ids n) = n"
proof -
  assume "n \<le> 2 ^ 64"
  then have "inj_on (of_nat :: nat \<Rightarrow> u64) {..<n}"
    using of_nat_u64_inj by (auto simp: inj_on_def)
  then show ?thesis by (simp add: given_ids_def card_image)
qed

text \<open>A handshake's end moves its identifier or drops it.\<close>

lemma finish_handshake_ids:
  assumes "finish_handshake tls_accept n s = Some t" and "n < length (tls_tasks s)"
  shows "set (ids_in_use t) \<subseteq> set (ids_in_use s) \<and> (distinct (ids_in_use s) \<longrightarrow> distinct (ids_in_use t)) \<and>
         ws_listener t = ws_listener s \<and> connections t = connections s \<and>
         listener_panicked t = listener_panicked s"
proof -
  define a b x where "a = take n (tls_tasks s)" and "b = drop (Suc n) (tls_tasks s)" and "x = tls_tasks s ! n"
  have tasks: "tls_tasks s = a @ x # b" using assms(2) by (simp add: a_def b_def x_def id_take_nth_drop)
  show ?thesis
  proof (cases "accept_stream tls_accept x")
    case (Inl e)
    with assms(1) have "t = s\<lparr>tls_tasks := a @ b\<rparr>"
      by (simp add: finish_handshake_def a_def b_def x_def Let_def)
    with tasks show ?thesis by (auto simp: ids_in_use_def)
  next
    case (Inr c)
    have id: "accepted_client_id c = task_client_id x"
      using Inr by (auto simp: accept_stream_def Let_def split: option.splits sum.splits if_splits)
    from Inr assms(1) have "t = s\<lparr>tls_tasks := a @ b, tls_acceptor_channel := tls_acceptor_channel s @ [c]\<rparr>"
      by (simp add: finish_handshake_def a_def b_def x_def Let_def split: if_splits)
    with tasks id show ?thesis by (auto simp: ids_in_use_def)
  qed
qed

lemma listener_inv_step:
  assumes inv: "listener_inv s" and go: "listener_step s t"
  shows "listener_inv t"
  using go
proof cases
  case (connection now stream)
  have fresh: "connections s < 2 ^ 64 \<Longrightarrow> of_nat (connections s) \<notin> set (ids_in_use s)"
    using given_ids_fresh [of "connections s"] inv unfolding listener_inv_def by blast
  with inv show ?thesis
    by (auto simp: connection(1) listener_inv_def on_connection_def accept_connection_def
        count_client_id_def given_ids_Suc ids_in_use_def)
next
  case accept_error
  with inv show ?thesis by (simp add: listener_inv_def on_accept_error_def ids_in_use_def)
next
  case accepted
  then obtain c cs where c: "tls_acceptor_channel s = c # cs"
    by (auto simp: on_accepted_def split: list.splits)
  have "accepted_client_id c \<in> dm_keys (clients_connection_time (ws_listener s))"
    using inv c unfolding listener_inv_def ids_in_use_def by auto
  then obtain time where "dm_get (clients_connection_time (ws_listener s)) (accepted_client_id c) = Some time"
    by (auto simp: in_dm_keys_iff)
  with accepted(2) c have "t = s\<lparr>tls_acceptor_channel := cs, accept_disabled := False,
      started_handlers := started_handlers s @
        [ClientSessionHandler_new (accepted_client_id c) (listener_polling_interval_ms (ws_listener s))]\<rparr>"
    by (simp add: on_accepted_def start_session_handler_def Let_def)
  with inv c show ?thesis by (auto simp: listener_inv_def ids_in_use_def ClientSessionHandler_new_def)
next
  case (handshake n tls_accept)
  from finish_handshake_ids [OF handshake(2,1)] inv show ?thesis by (auto simp: listener_inv_def)
qed

definition listener_init :: "('tcp, 'tls, 'acc) listener_state \<Rightarrow> bool" where
  "listener_init s \<longleftrightarrow>
     (\<exists>l. s = listener_start l \<and> next_client_id l = 0 \<and> clients_connection_time l = dm_new)"

interpretation listener: inductive_invariant listener_init listener_step listener_inv
proof unfold_locales
  show "listener_inv s" if "listener_init s" for s :: "('tcp, 'tls, 'acc) listener_state"
    using that by (auto simp: listener_init_def listener_start_def listener_inv_def ids_in_use_def)
qed (rule listener_inv_step)

lemma WsListener_new_init:
  "WsListener_new env addr interval_ms conf = Ok l \<Longrightarrow> listener_init (listener_start l)"
  by (auto simp: WsListener_new_def listener_init_def Let_def split: outcome.splits option.splits)

section \<open>Properties\<close>

text \<open>
  C34: the listener gives each connection an identifier of its own. As long as no more than 2 to the 64
  connections came in, the identifiers of the handshakes going on, of the connections waiting for a
  handler and of all session handlers ever started are pairwise distinct.
\<close>

theorem client_ids_distinct:
  assumes "reach listener_init listener_step s" and "connections s \<le> 2 ^ 64"
  shows "distinct (map task_client_id (tls_tasks s) @ map accepted_client_id (tls_acceptor_channel s) @
           map handler_id (started_handlers s))"
  using listener.inv_reach [OF assms(1)] assms(2) by (simp add: listener_inv_def ids_in_use_def)

text \<open>
  C35: the listener never panics: whenever it takes an accepted connection out of its channel, the time
  of that connection is in its map, so a handler is started for it, with the identifier of the
  connection and the polling interval of the gateway.
\<close>

theorem listener_starts_every_accepted:
  assumes "reach listener_init listener_step s"
    and "tls_acceptor_channel s = c # cs"
  shows "\<not> listener_panicked s \<and>
         (\<exists>t. on_accepted s = Some t \<and> \<not> listener_panicked t \<and>
            started_handlers t = started_handlers s @
              [ClientSessionHandler_new (accepted_client_id c) (listener_polling_interval_ms (ws_listener s))])"
proof -
  from listener.inv_reach [OF assms(1)] have inv: "listener_inv s" .
  then have np: "\<not> listener_panicked s" by (simp add: listener_inv_def)
  have "accepted_client_id c \<in> dm_keys (clients_connection_time (ws_listener s))"
    using inv assms(2) unfolding listener_inv_def ids_in_use_def by auto
  then obtain time where "dm_get (clients_connection_time (ws_listener s)) (accepted_client_id c) = Some time"
    by (auto simp: in_dm_keys_iff)
  with np assms(2) show ?thesis by (simp add: on_accepted_def start_session_handler_def Let_def)
qed

text \<open>
  C40: the map of connection times is never cleaned. After any run it has one entry per connection that
  ever came in, whether its handshake failed, its session ended or it is still open.
\<close>

theorem connection_times_never_removed:
  assumes "reach listener_init listener_step s" and "connections s \<le> 2 ^ 64"
  shows "dm_len (clients_connection_time (ws_listener s)) = connections s"
  using listener.inv_reach [OF assms(1)] card_given_ids [OF assms(2)]
  by (simp add: listener_inv_def dm_len_card)

text \<open>
  C38: an error of \<open>accept\<close> can stop the listener for good. The error disables the branch of \<open>accept\<close>
  until the other branch has run; with no handshake going on and no connection waiting in the channel,
  nothing can run it, and the listener takes no step ever after.
\<close>

theorem accept_error_stops_listener:
  assumes "reach listener_init listener_step s" and "\<not> accept_disabled s"
    and "tls_tasks s = []" and "tls_acceptor_channel s = []"
  shows "listener_step s (on_accept_error s) \<and> \<not> listener_step (on_accept_error s) t"
proof -
  have "\<not> listener_panicked s" using listener.inv_reach [OF assms(1)] by (simp add: listener_inv_def)
  then have "listener_step s (on_accept_error s)" using assms(2) by (rule accept_error)
  moreover have "\<not> listener_step (on_accept_error s) t"
    using assms(3,4) by (auto simp: on_accept_error_def on_accepted_def elim!: listener_stepE)
  ultimately show ?thesis by blast
qed

section \<open>Witnesses\<close>

text \<open>A listener without TLS, to which one client has connected, and after its handshake.\<close>

definition demo_listener :: "(nat, nat, nat) listener_state" where
  "demo_listener =
     listener_start
       \<lparr>tls_acceptor = None, listener_polling_interval_ms = 100, next_client_id = 0,
        clients_connection_time = dm_new\<rparr>"

definition demo_accepted :: "(nat, nat, nat) listener_state" where
  "demo_accepted =
     (let s = on_connection 3 40 demo_listener
      in s\<lparr>tls_tasks := [], tls_acceptor_channel := [\<lparr>accepted_client_id = 0, accepted_stream = Tcp 40\<rparr>]\<rparr>)"

lemma demo_listener_reach: "reach listener_init listener_step demo_listener"
  by (rule reach_init) (auto simp: listener_init_def demo_listener_def)

lemma demo_accepted_reach: "reach listener_init listener_step demo_accepted"
proof (rule reach_step [OF reach_step [OF demo_listener_reach]])
  show "listener_step demo_listener (on_connection 3 40 demo_listener)"
    by (rule connection) (simp_all add: demo_listener_def listener_start_def)
  show "listener_step (on_connection 3 40 demo_listener) demo_accepted"
    by (rule handshake [of 0 _ "\<lambda>_ _. (0, Inl [])"])
      (simp_all add: on_connection_def accept_connection_def demo_listener_def listener_start_def
        finish_handshake_def accept_stream_def demo_accepted_def Let_def count_client_id_def
        CHANNEL_CAPACITY_def)
qed

lemma demo_accepted_sel:
  "connections demo_accepted = 1"
  "tls_acceptor_channel demo_accepted = [\<lparr>accepted_client_id = 0, accepted_stream = Tcp 40\<rparr>]"
  by (simp_all add: demo_accepted_def on_connection_def accept_connection_def demo_listener_def
      listener_start_def Let_def)

theorem client_ids_distinct_witness:
  "distinct (map task_client_id (tls_tasks demo_accepted) @
     map accepted_client_id (tls_acceptor_channel demo_accepted) @
     map handler_id (started_handlers demo_accepted))"
  using client_ids_distinct [OF demo_accepted_reach] by (simp add: demo_accepted_sel)

theorem listener_starts_every_accepted_witness:
  "\<exists>t. on_accepted demo_accepted = Some t"
  using listener_starts_every_accepted [OF demo_accepted_reach demo_accepted_sel(2)] by blast

theorem connection_times_never_removed_witness:
  "dm_len (clients_connection_time (ws_listener demo_accepted)) = 1"
  using connection_times_never_removed [OF demo_accepted_reach] by (simp add: demo_accepted_sel)

theorem accept_error_stops_listener_witness:
  "\<not> listener_step (on_accept_error demo_listener) demo_listener"
  using accept_error_stops_listener [OF demo_listener_reach, of demo_listener]
  by (simp add: demo_listener_def listener_start_def)

end
