(* ===== verification/Gateway_Telemetry.thy ===== *)
theory Gateway_Telemetry
  imports Key_Store Ws_Listener_Props
begin

text \<open>
  Tracing and metrics (\<open>src/ic-websocket-gateway/src/gateway_tracing.rs\<close> and
  \<open>gateway_metrics.rs\<close>): which layers of tracing a start installs, with which filters, what it leaves in
  the file system, and which metrics it describes. The layers' formats and the exporters are libraries.
\<close>

section \<open>Tracing\<close>

text \<open>
  What tracing uses of its environment: the filter in an environment variable if it is set and valid
  (\<open>try_from_env\<close>), the milliseconds since the epoch or the error of a clock before it, the text of a
  principal, the installation of the exporter for an endpoint and a service name, and of the global
  subscriber (an error is its debug text).
\<close>

record tracing_env =
  try_from_env :: "string \<Rightarrow> string option"
  since_epoch :: "string + nat"
  principal_to_text :: "Principal \<Rightarrow> string"
  install_batch :: "string \<Rightarrow> string \<Rightarrow> string + unit"
  set_global_default :: "string + unit"

datatype EnvFilter = Directives string | OffByDefault

text \<open>The layers a subscriber is made of: the log file, standard output, the collector.\<close>

datatype tracing_layer =
    FileLayer string EnvFilter
  | StdoutLayer EnvFilter
  | TelemetryLayer string string EnvFilter

record InitTracingResult =
  tracing_layers :: "tracing_layer list"
  is_telemetry_enabled :: bool

definition env_filter :: "tracing_env \<Rightarrow> string \<Rightarrow> EnvFilter \<Rightarrow> EnvFilter" where
  "env_filter env var def_filter =
     (case try_from_env env var of Some d \<Rightarrow> Directives d | None \<Rightarrow> def_filter)"

definition stdout_tracing_layer :: "tracing_env \<Rightarrow> tracing_layer" where
  "stdout_tracing_layer env =
     StdoutLayer (env_filter env ''RUST_LOG_STDOUT'' (Directives ''ic_websocket_gateway=info''))"

text \<open>The directory of the traces, and a file named after the time; \<open>File::create\<close> empties the file.\<close>

definition create_traces_dir :: "'key key_env \<Rightarrow> file_system \<Rightarrow> (string + unit) \<times> file_system" where
  "create_traces_dir env fs =
     (if \<not> List.member (dirs fs) ''./data/traces''
      then (case create_dir_error env ''./data/traces'' of
              Some e \<Rightarrow> (Inl e, fs)
            | None \<Rightarrow> (Inr (), fs\<lparr>dirs := ''./data/traces'' # dirs fs\<rparr>))
      else (Inr (), fs))"

definition trace_filename :: "nat \<Rightarrow> string" where
  "trace_filename millis = ''./data/traces/gateway_'' @ show_nat millis @ ''.log''"

definition file_tracing_layer ::
  "tracing_env \<Rightarrow> 'key key_env \<Rightarrow> file_system \<Rightarrow> (string + tracing_layer) \<times> file_system" where
  "file_tracing_layer env kenv fs =
     (case create_traces_dir kenv fs of
        (Inl e, fs1) \<Rightarrow> (Inl e, fs1)
      | (Inr _, fs1) \<Rightarrow>
          (case since_epoch env of
             Inl e \<Rightarrow> (Inl e, fs1)
           | Inr timestamp \<Rightarrow>
               (case fs_write kenv (trace_filename timestamp) [] fs1 of
                  (Inl e, fs2) \<Rightarrow> (Inl e, fs2)
                | (Inr _, fs2) \<Rightarrow>
                    (Inr (FileLayer (trace_filename timestamp) (env_filter env ''RUST_LOG_FILE'' OffByDefault)),
                     fs2))))"

text \<open>An empty endpoint counts as no endpoint.\<close>

definition telemetry_endpoint :: "string option \<Rightarrow> string option" where
  "telemetry_endpoint endpoint = (case endpoint of Some s \<Rightarrow> if s = [] then None else Some s | None \<Rightarrow> None)"

text \<open>A slice of the first five bytes; the text of a principal is ASCII.\<close>

definition service_name :: "string \<Rightarrow> (string, string) outcome" where
  "service_name p_text =
     (if length p_text < 5 then Panic ''byte index 5 is out of bounds''
      else Ok (''ic-ws-gw-'' @ take 5 p_text))"

definition install_subscriber ::
  "tracing_env \<Rightarrow> tracing_layer list \<Rightarrow> bool \<Rightarrow> (InitTracingResult, string) outcome" where
  "install_subscriber env layers telemetry =
     (case expect_result ''should set subscriber'' (set_global_default env) of
        Ok _ \<Rightarrow> Ok \<lparr>tracing_layers = layers, is_telemetry_enabled = telemetry\<rparr>
      | Err e \<Rightarrow> Err e
      | Panic m \<Rightarrow> Panic m)"

definition telemetry_layer ::
  "tracing_env \<Rightarrow> string \<Rightarrow> Principal \<Rightarrow> (tracing_layer, string) outcome" where
  "telemetry_layer env endpoint gw_principal =
     (case service_name (principal_to_text env gw_principal) of
        Ok name \<Rightarrow>
          (case expect_result ''failed to install'' (install_batch env endpoint name) of
             Ok _ \<Rightarrow>
               Ok (TelemetryLayer endpoint name
                     (env_filter env ''RUST_LOG_TELEMETRY'' (Directives ''ic_websocket_gateway=trace'')))
           | Err e \<Rightarrow> Err e
           | Panic m \<Rightarrow> Panic m)
      | Err e \<Rightarrow> Err e
      | Panic m \<Rightarrow> Panic m)"

definition init_tracing ::
  "tracing_env \<Rightarrow> 'key key_env \<Rightarrow> string option \<Rightarrow> Principal \<Rightarrow> file_system
     \<Rightarrow> (InitTracingResult, string) outcome \<times> file_system" where
  "init_tracing env kenv endpoint gw_principal fs =
     (case file_tracing_layer env kenv fs of
        (Inl e, fs1) \<Rightarrow> (Err e, fs1)
      | (Inr file_layer, fs1) \<Rightarrow>
          (case telemetry_endpoint endpoint of
             Some e \<Rightarrow>
               and_then (telemetry_layer env e gw_principal, fs1) (\<lambda>opentelemetry fs1.
                 (install_subscriber env [file_layer, stdout_tracing_layer env, opentelemetry] True, fs1))
           | None \<Rightarrow>
               (install_subscriber env [file_layer, stdout_tracing_layer env] False, fs1)))"

section \<open>Metrics\<close>

datatype metric_kind = Counter | Gauge | Histogram

text \<open>
  What the recorder holds after the start: the address of its listener, after how many seconds idle
  metrics are dropped, the descriptions, and the gauges that were set.
\<close>

record 'addr metrics =
  metrics_listener :: 'addr
  idle_timeout_secs :: nat
  descriptions :: "(metric_kind \<times> string \<times> string) list"
  gauges :: "string \<rightharpoonup> nat"

text \<open>Parsing a socket address and installing the recorder; an error is its debug text.\<close>

record 'addr metrics_env =
  parse_socket_addr :: "string \<Rightarrow> string + 'addr"
  install_recorder :: "'addr \<Rightarrow> string + unit"

definition init_metrics :: "'addr metrics_env \<Rightarrow> string \<Rightarrow> ('addr metrics, string) outcome" where
  "init_metrics env address =
     (case parse_socket_addr env address of
        Inl e \<Rightarrow> Err e
      | Inr addr \<Rightarrow>
          (case expect_result ''failed to install Prometheus recorder'' (install_recorder env addr) of
             Ok _ \<Rightarrow>
               Ok \<lparr>metrics_listener = addr, idle_timeout_secs = 10,
                   descriptions =
                     [(Counter, ''client_connected_count'', ''Each time that a client connects it emits a point''),
                      (Gauge, ''clients_connected'', ''The number of clients currently connected''),
                      (Gauge, ''active_pollers'', ''The number of pollers currently active''),
                      (Histogram, ''connection_duration'', ''The duration of the client connection''),
                      (Histogram, ''tls_resolution_time'', ''The resolution time of the TLS handshake''),
                      (Histogram, ''connection_opening_time'', ''The time it takes to open a connection''),
                      (Histogram, ''poller_duration'', ''The time it takes to poll the canister'')],
                   gauges = [''active_pollers'' \<mapsto> 0]\<rparr>
           | Err e \<Rightarrow> Err e
           | Panic m \<Rightarrow> Panic m))"

section \<open>Facts\<close>

lemma expect_result_Ok [simp]: "expect_result m r = Ok x \<longleftrightarrow> r = Inr x"
  by (auto simp: expect_result_def split: sum.split)

lemma create_traces_dir_files [simp]: "files (snd (create_traces_dir env fs)) = files fs"
  by (simp add: create_traces_dir_def split: option.split)

lemma trace_filename_not_key: "trace_filename n \<noteq> ''./data/key_pair''"
  by (simp add: trace_filename_def)

lemma file_tracing_layer_files:
  "path \<noteq> trace_filename n \<Longrightarrow> since_epoch env = Inr n \<Longrightarrow>
     files (snd (file_tracing_layer env kenv fs)) path = files fs path"
  using create_traces_dir_files [of kenv fs]
  by (cases "create_traces_dir kenv fs")
     (auto simp: file_tracing_layer_def fs_write_def split: sum.splits option.splits)

lemma file_tracing_layer_key:
  "files (snd (file_tracing_layer env kenv fs)) ''./data/key_pair'' = files fs ''./data/key_pair''"
proof (cases "since_epoch env")
  case (Inl e)
  then show ?thesis
    using create_traces_dir_files [of kenv fs]
    by (cases "create_traces_dir kenv fs") (auto simp: file_tracing_layer_def split: sum.splits)
next
  case (Inr n)
  with trace_filename_not_key [of n] file_tracing_layer_files [of "''./data/key_pair''" n env kenv fs]
  show ?thesis by metis
qed

lemma init_tracing_fs:
  "snd (init_tracing env kenv endpoint p fs) = snd (file_tracing_layer env kenv fs)"
  by (auto simp: init_tracing_def and_then_def split: sum.splits prod.splits option.splits outcome.splits)

text \<open>The key pair of the gateway is not touched.\<close>

lemma init_tracing_key:
  "files (snd (init_tracing env kenv endpoint p fs)) ''./data/key_pair'' = files fs ''./data/key_pair''"
  by (simp add: init_tracing_fs file_tracing_layer_key)

section \<open>What a start installs\<close>

lemma file_tracing_layer_Inr:
  "file_tracing_layer env kenv fs = (Inr layer, fs') \<Longrightarrow>
     \<exists>n. since_epoch env = Inr n \<and> files fs' (trace_filename n) = Some [] \<and>
       layer = FileLayer (trace_filename n) (env_filter env ''RUST_LOG_FILE'' OffByDefault)"
  by (auto simp: file_tracing_layer_def fs_write_def split: sum.splits prod.splits option.splits)

lemma install_subscriber_Ok:
  "install_subscriber env layers telemetry = Ok res \<Longrightarrow>
     res = \<lparr>tracing_layers = layers, is_telemetry_enabled = telemetry\<rparr>"
  by (auto simp: install_subscriber_def split: outcome.splits)

lemma telemetry_layer_Ok:
  "telemetry_layer env e p = Ok layer \<Longrightarrow>
     layer = TelemetryLayer e (''ic-ws-gw-'' @ take 5 (principal_to_text env p))
       (env_filter env ''RUST_LOG_TELEMETRY'' (Directives ''ic_websocket_gateway=trace''))"
  by (auto simp: telemetry_layer_def service_name_def split: outcome.splits if_splits)

text \<open>
  What a successful start of tracing installs. The collector is used exactly if an endpoint is
  configured that is not empty, under a service name made of the first five characters of the gateway's
  principal; the log file exists, is new and empty, and is written only if \<open>RUST_LOG_FILE\<close> says so;
  standard output is always traced.
\<close>

theorem init_tracing_installs:
  assumes "init_tracing env kenv endpoint p fs = (Ok res, fs')"
  shows "(is_telemetry_enabled res \<longleftrightarrow> (\<exists>e. endpoint = Some e \<and> e \<noteq> [])) \<and>
         (\<exists>n. since_epoch env = Inr n \<and> files fs' (trace_filename n) = Some [] \<and>
           tracing_layers res =
             [FileLayer (trace_filename n) (env_filter env ''RUST_LOG_FILE'' OffByDefault),
              stdout_tracing_layer env] @
             (if is_telemetry_enabled res
              then [TelemetryLayer (the endpoint) (''ic-ws-gw-'' @ take 5 (principal_to_text env p))
                      (env_filter env ''RUST_LOG_TELEMETRY'' (Directives ''ic_websocket_gateway=trace''))]
              else []))"
proof -
  from assms obtain layer fs1 where layer: "file_tracing_layer env kenv fs = (Inr layer, fs1)"
    by (cases "file_tracing_layer env kenv fs") (auto simp: init_tracing_def split: sum.splits)
  from file_tracing_layer_Inr [OF this] obtain n where n: "since_epoch env = Inr n"
    "files fs1 (trace_filename n) = Some []"
    "layer = FileLayer (trace_filename n) (env_filter env ''RUST_LOG_FILE'' OffByDefault)" by blast
  show ?thesis
  proof (cases "telemetry_endpoint endpoint")
    case None
    with assms layer have "install_subscriber env [layer, stdout_tracing_layer env] False = Ok res" "fs' = fs1"
      by (simp_all add: init_tracing_def)
    with n None show ?thesis
      by (auto simp: telemetry_endpoint_def dest!: install_subscriber_Ok split: option.splits if_splits)
  next
    case (Some e)
    with assms layer obtain otel where otel: "telemetry_layer env e p = Ok otel"
      "install_subscriber env [layer, stdout_tracing_layer env, otel] True = Ok res" "fs' = fs1"
      by (auto simp: init_tracing_def and_then_Ok_iff)
    from Some have "endpoint = Some e" "e \<noteq> []"
      by (auto simp: telemetry_endpoint_def split: option.splits if_splits)
    with n install_subscriber_Ok [OF otel(2)] telemetry_layer_Ok [OF otel(1)] otel(3) show ?thesis by simp
  qed
qed

definition demo_tracing_env :: tracing_env where
  "demo_tracing_env =
     \<lparr>try_from_env = (\<lambda>_. None), since_epoch = Inr 1700, principal_to_text = (\<lambda>_. ''2vxsx-fae''),
      install_batch = (\<lambda>_ _. Inr ()), set_global_default = Inr ()\<rparr>"

definition demo_key_env :: "bytes key_env" where
  "demo_key_env =
     \<lparr>generate_pkcs8 = Inr [1, 2], write_error = (\<lambda>_. None), read_error = (\<lambda>_. None),
      create_dir_error = (\<lambda>_. None), parse_pkcs8 = Inr\<rparr>"

theorem init_tracing_installs_witness:
  "\<exists>res fs'. init_tracing demo_tracing_env demo_key_env (Some ''http://otel'') (Principal [4])
       \<lparr>files = Map.empty, dirs = []\<rparr> = (Ok res, fs') \<and>
     length (tracing_layers res) = 3 \<and> files fs' (trace_filename 1700) = Some []"
proof -
  let ?run = "init_tracing demo_tracing_env demo_key_env (Some ''http://otel'') (Principal [4])
       \<lparr>files = Map.empty, dirs = []\<rparr>"
  have "\<exists>res fs'. ?run = (Ok res, fs')"
    by (simp add: init_tracing_def file_tracing_layer_def create_traces_dir_def demo_tracing_env_def
        demo_key_env_def fs_write_def telemetry_endpoint_def telemetry_layer_def service_name_def
        install_subscriber_def expect_result_def)
  then obtain res fs' where run: "?run = (Ok res, fs')" by blast
  from init_tracing_installs [OF this] have "length (tracing_layers res) = 3"
    "files fs' (trace_filename 1700) = Some []"
    by (auto simp: demo_tracing_env_def)
  with run show ?thesis by blast
qed

end
