(* ===== verification/Gateway_System.thy ===== *)
theory Gateway_System
  imports Session_Handler
begin

text \<open>
  The whole gateway at run time: the session handlers and the pollers run as concurrent tasks over the
  shared gateway state and the channels between them. A step of the system is a step of one task.
  Connections arrive with identifiers that were not used before, which is what the listener of
  incoming connections provides.
\<close>

section \<open>State\<close>

record ws_gateway =
  gw :: GatewayState
  chans :: channels
  handlers :: "u64 \<Rightarrow> handler_task option"
  pollers :: "poller_task list"
  gw_principal :: "string + Principal"
  gw_interval_ms :: u64

definition ws_gateway_new :: "string + Principal \<Rightarrow> u64 \<Rightarrow> ws_gateway" where
  "ws_gateway_new p interval_ms =
     \<lparr>gw = GatewayState_new, chans = (\<lambda>_. no_channel), handlers = (\<lambda>_. None), pollers = [],
      gw_principal = p, gw_interval_ms = interval_ms\<rparr>"

section \<open>What a task owns\<close>

fun handler_ended :: "handler_pc \<Rightarrow> bool" where
  "handler_ended (HandlerDone _) = True"
| "handler_ended _ = False"

fun poller_ended :: "poller_pc \<Rightarrow> bool" where
  "poller_ended (PollerDone _) = True"
| "poller_ended _ = False"

text \<open>The poller state a handler holds, until it starts the poller that will own it.\<close>

fun pending_poller :: "handler_pc \<Rightarrow> poller_ref option" where
  "pending_poller (HandlerRelayOpen _ _ _ new_poller_state) = new_poller_state"
| "pending_poller (HandlerStartPoller r) = Some r"
| "pending_poller _ = None"

text \<open>
  A poller state lives while the gateway state, a running poller or a handler holds it; the sender of a
  channel lives while its handler holds it or a live poller state has it as an entry. When the last
  sender of a channel is dropped, its receiver is told so.
\<close>

definition live_arc :: "ws_gateway \<Rightarrow> poller_ref \<Rightarrow> bool" where
  "live_arc s r \<longleftrightarrow>
     (\<exists>c. dm_get (data (gw s)) c = Some r) \<or>
     (\<exists>t \<in> set (pollers s). \<not> poller_ended (pc t) \<and> poller_state (poller t) = r) \<or>
     (\<exists>i h. handlers s i = Some h \<and> pending_poller (handler_pc h) = Some r)"

definition sender_alive :: "ws_gateway \<Rightarrow> chan_id \<Rightarrow> bool" where
  "sender_alive s i \<longleftrightarrow>
     (\<exists>j h. handlers s j = Some h \<and> client_channel_tx h = Some i) \<or>
     (\<exists>r k cs. live_arc s r \<and> dm_get (arcs (gw s) r) k = Some cs \<and> sender cs = i)"

section \<open>Steps\<close>

text \<open>A handler's receiver is dropped with its task.\<close>

definition put_handler :: "u64 \<Rightarrow> handler_task \<Rightarrow> ws_gateway \<Rightarrow> ws_gateway" where
  "put_handler i h s =
     s\<lparr>handlers := (handlers s)(i \<mapsto> h),
       chans := (if handler_ended (handler_pc h)
                 then (chans s)(i := (chans s i)\<lparr>rx_open := False\<rparr>) else chans s)\<rparr>"

definition put_spawned :: "poller_task option \<Rightarrow> ws_gateway \<Rightarrow> ws_gateway" where
  "put_spawned t s = (case t of None \<Rightarrow> s | Some t \<Rightarrow> s\<lparr>pollers := pollers s @ [t]\<rparr>)"

text \<open>
  The steps, for the session environments \<open>E\<close> allows: a connection arrives, a waiting handler gets a
  message of its client or looks into its channel, a handler goes on inside an arm, a poller goes on.
\<close>

inductive gateway_step :: "('e session_env \<Rightarrow> bool) \<Rightarrow> ws_gateway \<Rightarrow> ws_gateway \<Rightarrow> bool" for E where
  connect:
    "handlers s i = None \<Longrightarrow> E env \<Longrightarrow>
     h = start_session env accepted (gw_principal s) (ClientSessionHandler_new i (gw_interval_ms s)) \<Longrightarrow>
     t = put_handler i h (s\<lparr>chans := (chans s)(i := new_channel)\<rparr>) \<Longrightarrow>
     gateway_step E s t"
| client_event:
    "handlers s i = Some h \<Longrightarrow> handler_pc h = HandlerUpdate \<Longrightarrow> E env \<Longrightarrow>
     handler_update env (ClientUpdate u) h (gw s) = (h', g') \<Longrightarrow>
     t = put_handler i h' (s\<lparr>gw := g'\<rparr>) \<Longrightarrow>
     gateway_step E s t"
| canister_event:
    "handlers s i = Some h \<Longrightarrow> handler_pc h = HandlerUpdate \<Longrightarrow> E env \<Longrightarrow>
     channel_recv (sender_alive s i) (chans s i) = Some (v, ch') \<Longrightarrow>
     handler_update env (CanisterUpdate v) h (gw s) = (h', g') \<Longrightarrow>
     t = put_handler i h' (s\<lparr>gw := g', chans := (chans s)(i := ch')\<rparr>) \<Longrightarrow>
     gateway_step E s t"
| handler_goes_on:
    "handlers s i = Some h \<Longrightarrow> E env \<Longrightarrow>
     handler_continue env h (gw s) = Some (h', g', spawned) \<Longrightarrow>
     t = put_spawned spawned (put_handler i h' (s\<lparr>gw := g'\<rparr>)) \<Longrightarrow>
     gateway_step E s t"
| poller_goes_on:
    "a < length (pollers s) \<Longrightarrow>
     poller_step env (pollers s ! a) (gw s) (chans s) = Some (p', g', chans') \<Longrightarrow>
     t = s\<lparr>pollers := (pollers s)[a := p'], gw := g', chans := chans'\<rparr> \<Longrightarrow>
     gateway_step E s t"

definition gateway_init :: "ws_gateway \<Rightarrow> bool" where
  "gateway_init s \<longleftrightarrow> (\<exists>p interval_ms. s = ws_gateway_new p interval_ms)"

abbreviation reachable :: "('e session_env \<Rightarrow> bool) \<Rightarrow> ws_gateway \<Rightarrow> bool" where
  "reachable E \<equiv> reach gateway_init (gateway_step E)"

end
