(* ===== verification/Gateway_Main.thy ===== *)
theory Gateway_Main
  imports Gateway_Telemetry Gateway_System
begin

text \<open>
  The start of the gateway (\<open>src/ic-websocket-gateway/src/main.rs\<close> and \<open>manager.rs\<close>): directories and
  keys, the manager with its agent, telemetry, the TLS configuration and the listener. What follows is
  the run of the listener and of the gateway. The command line is parsed by a library; its defaults
  are those the source declares.
\<close>

section \<open>Configuration\<close>

record DeploymentInfo =
  ic_network_url :: string
  gateway_address :: string
  polling_interval :: u64
  prometheus_endpoint :: string
  tls_certificate_pem_path :: "string option"
  tls_certificate_key_pem_path :: "string option"
  opentelemetry_collector_endpoint :: "string option"

definition DeploymentInfo_default :: DeploymentInfo where
  "DeploymentInfo_default =
     \<lparr>ic_network_url = ''http://127.0.0.1:4943'', gateway_address = ''0.0.0.0:8080'',
      polling_interval = 100, prometheus_endpoint = ''0.0.0.0:9000'',
      tls_certificate_pem_path = None, tls_certificate_key_pem_path = None,
      opentelemetry_collector_endpoint = None\<rparr>"

definition get_tls_config :: "DeploymentInfo \<Rightarrow> TlsConfig option" where
  "get_tls_config deployment_info =
     (case (tls_certificate_pem_path deployment_info, tls_certificate_key_pem_path deployment_info) of
        (Some certificate, Some key) \<Rightarrow>
          Some \<lparr>certificate_pem_path = certificate, certificate_key_pem_path = key\<rparr>
      | _ \<Rightarrow> None)"

section \<open>The manager\<close>

text \<open>
  What the start uses of the key store, the agent library, tracing, the metrics exporter and the
  listener's environment; an error is its debug text.
\<close>

record ('key, 'id, 'agent, 'ident, 'acc, 'addr) main_env =
  key_env :: "'key key_env"
  from_key_pair :: "'key \<Rightarrow> 'id"
  build_agent :: "string \<Rightarrow> 'id \<Rightarrow> bool \<Rightarrow> AgentError + 'agent"
  fetch_root_key :: "'agent \<Rightarrow> AgentError + 'agent"
  agent_get_principal :: "'agent \<Rightarrow> string + Principal"
  agent_error_text :: "AgentError \<Rightarrow> string"
  tracing_of :: tracing_env
  metrics_of :: "'addr metrics_env"
  listener_env :: "('ident, 'acc) listener_env"
  join_error_text :: "string \<Rightarrow> string"

record 'agent Manager =
  manager_agent :: 'agent
  manager_address :: string
  manager_state :: GatewayState

definition Manager_new ::
  "('key, 'id, 'agent, 'ident, 'acc, 'addr) main_env \<Rightarrow> string \<Rightarrow> string \<Rightarrow> 'id
     \<Rightarrow> ('agent Manager, string) outcome" where
  "Manager_new env address network_url identity =
     (case get_new_agent (build_agent env) (fetch_root_key env) network_url identity of
        Inl e \<Rightarrow> Panic (''could not get new agent: '' @ agent_error_text env e)
      | Inr agent \<Rightarrow>
          Ok \<lparr>manager_agent = agent, manager_address = address, manager_state = GatewayState_new\<rparr>)"

definition get_agent_principal ::
  "('key, 'id, 'agent, 'ident, 'acc, 'addr) main_env \<Rightarrow> 'agent Manager \<Rightarrow> (Principal, string) outcome" where
  "get_agent_principal env m =
     expect_result ''Principal should be set'' (agent_get_principal env (manager_agent m))"

text \<open>
  The task that listens: it creates the listener, and then runs it. Its panic is the error of joining
  the task.
\<close>

definition start_accepting_incoming_connections ::
  "('key, 'id, 'agent, 'ident, 'acc, 'addr) main_env \<Rightarrow> 'agent Manager \<Rightarrow> TlsConfig option \<Rightarrow> u64
     \<Rightarrow> ('acc WsListener, string) outcome" where
  "start_accepting_incoming_connections env m tls_config interval_ms =
     WsListener_new (listener_env env) (manager_address m) interval_ms tls_config"

section \<open>Starting\<close>

text \<open>
  What runs after a successful start: the listener, the gateway its handlers share, and the tracer,
  which is shut down at the end if telemetry is enabled.
\<close>

record 'acc running_gateway =
  running_listener :: "'acc WsListener"
  running_system :: ws_gateway
  running_telemetry :: bool

text \<open>The spawn of the listening task and the join of it, whose error is a panic.\<close>

definition run_listener ::
  "('key, 'id, 'agent, 'ident, 'acc, 'addr) main_env \<Rightarrow> DeploymentInfo \<Rightarrow> 'agent Manager \<Rightarrow> Principal \<Rightarrow> bool
     \<Rightarrow> ('acc running_gateway, string) outcome" where
  "run_listener env deployment_info manager agent_principal telemetry =
     (case start_accepting_incoming_connections env manager (get_tls_config deployment_info)
            (polling_interval deployment_info) of
        Ok l \<Rightarrow>
          Ok \<lparr>running_listener = l,
              running_system = (ws_gateway_new (Inr agent_principal) (polling_interval deployment_info))
                \<lparr>gw := manager_state manager\<rparr>,
              running_telemetry = telemetry\<rparr>
      | Err e \<Rightarrow> Panic (''could not join accept connections task: '' @ join_error_text env e)
      | Panic m \<Rightarrow> Panic (''could not join accept connections task: '' @ join_error_text env m))"

text \<open>An \<open>expect\<close> on what another function of the start returned, with the \<open>Debug\<close> of its error.\<close>

definition expect_ok ::
  "string \<Rightarrow> ('e \<Rightarrow> string) \<Rightarrow> ('a, 'e) outcome \<times> 's \<Rightarrow> ('a, 'e) outcome \<times> 's" where
  "expect_ok msg debug r =
     (case r of
        (Err e, s) \<Rightarrow> (Panic (msg @ '': '' @ debug e), s)
      | _ \<Rightarrow> r)"

definition main ::
  "('key, 'id, 'agent, 'ident, 'acc, 'addr) main_env \<Rightarrow> DeploymentInfo \<Rightarrow> file_system
     \<Rightarrow> ('acc running_gateway, string) outcome \<times> file_system" where
  "main env deployment_info fs =
     (case create_data_dir (key_env env) fs of
        (Inl e, fs1) \<Rightarrow> (Err e, fs1)
      | (Inr _, fs1) \<Rightarrow>
     (case load_key_pair (key_env env) ''./data/key_pair'' fs1 of
        (Inl e, fs2) \<Rightarrow> (Err e, fs2)
      | (Inr key_pair, fs2) \<Rightarrow>
     and_then (Manager_new env (gateway_address deployment_info) (ic_network_url deployment_info)
                 (from_key_pair env key_pair), fs2) (\<lambda>manager fs2.
     and_then (get_agent_principal env manager, fs2) (\<lambda>gateway_principal fs2.
     and_then (expect_ok ''could not init tracing'' debug_str
                 (init_tracing (tracing_of env) (key_env env)
                    (opentelemetry_collector_endpoint deployment_info) gateway_principal fs2)) (\<lambda>tracing fs3.
     and_then (expect_ok ''could not init metrics'' (\<lambda>e. e)
                 (init_metrics (metrics_of env) (prometheus_endpoint deployment_info), fs3)) (\<lambda>_ fs3.
       (run_listener env deployment_info manager gateway_principal (is_telemetry_enabled tracing), fs3)))))))"

end
