(* ===== verification/Gateway_Main_Props.thy ===== *)
theory Gateway_Main_Props
  imports Gateway_Main
begin

text \<open>
  What a successful start guarantees: the listener and the gateway begin in the initial states from
  which their invariants hold, configured as the command line says, and the gateway keeps its
  principal over restarts.
\<close>

lemma expect_ok_Ok [simp]: "fst (expect_ok m d r) = Ok x \<longleftrightarrow> fst r = Ok x" "snd (expect_ok m d r) = snd r"
  by (simp_all add: expect_ok_def split: prod.splits outcome.splits)

lemma expect_ok_pair: "expect_ok m d r = (Ok x, s) \<longleftrightarrow> r = (Ok x, s)"
  by (auto simp: expect_ok_def split: prod.splits outcome.splits)

lemma main_Ok:
  assumes "main env d fs = (Ok st, fs')"
  obtains fs1 fs2 k agent p l telemetry where
    "fs1 = snd (create_data_dir (key_env env) fs)"
    "load_key_pair (key_env env) ''./data/key_pair'' fs1 = (Inr k, fs2)"
    "get_new_agent (build_agent env) (fetch_root_key env) (ic_network_url d) (from_key_pair env k) = Inr agent"
    "agent_get_principal env agent = Inr p"
    "fs' = snd (init_tracing (tracing_of env) (key_env env) (opentelemetry_collector_endpoint d) p fs2)"
    "WsListener_new (listener_env env) (gateway_address d) (polling_interval d) (get_tls_config d) = Ok l"
    "st = \<lparr>running_listener = l, running_system = ws_gateway_new (Inr p) (polling_interval d),
           running_telemetry = telemetry\<rparr>"
proof -
  obtain r1 fs1 where r1: "create_data_dir (key_env env) fs = (r1, fs1)" by fastforce
  obtain r2 fs2 where r2: "load_key_pair (key_env env) ''./data/key_pair'' fs1 = (r2, fs2)" by fastforce
  from assms r1 r2 obtain k where k: "r2 = Inr k" by (auto simp: main_def split: sum.splits)
  have "\<exists>u. r1 = Inr u" using assms r1 by (auto simp: main_def split: sum.splits)
  with assms r1 r2 k obtain m p tr fs3 where *:
    "Manager_new env (gateway_address d) (ic_network_url d) (from_key_pair env k) = Ok m"
    "agent_get_principal env (manager_agent m) = Inr p"
    "init_tracing (tracing_of env) (key_env env) (opentelemetry_collector_endpoint d) p fs2 = (Ok tr, fs3)"
    "run_listener env d m p (is_telemetry_enabled tr) = Ok st" "fs3 = fs'"
    by (auto simp: main_def and_then_Ok_iff expect_ok_pair get_agent_principal_def)
  from *(1) obtain agent where agent:
    "get_new_agent (build_agent env) (fetch_root_key env) (ic_network_url d) (from_key_pair env k) = Inr agent"
    "m = \<lparr>manager_agent = agent, manager_address = gateway_address d, manager_state = GatewayState_new\<rparr>"
    by (auto simp: Manager_new_def split: sum.splits)
  from *(4) obtain l where
    "WsListener_new (listener_env env) (gateway_address d) (polling_interval d) (get_tls_config d) = Ok l"
    "st = \<lparr>running_listener = l, running_system = ws_gateway_new (Inr p) (polling_interval d),
           running_telemetry = is_telemetry_enabled tr\<rparr>"
    by (auto simp: run_listener_def start_accepting_incoming_connections_def agent(2) ws_gateway_new_def
        split: outcome.splits)
  with that [of fs1 k fs2 agent p l] r1 r2 k agent *(2,3,5) show thesis by simp
qed

lemma WsListener_new_sel:
  "WsListener_new env addr interval_ms conf = Ok l \<Longrightarrow>
     listener_polling_interval_ms l = interval_ms \<and> (tls_acceptor l = None \<longleftrightarrow> conf = None)"
  by (auto simp: WsListener_new_def Let_def split: outcome.splits option.splits)

lemma get_tls_config_None_iff:
  "get_tls_config d = None \<longleftrightarrow>
     tls_certificate_pem_path d = None \<or> tls_certificate_key_pem_path d = None"
  by (simp add: get_tls_config_def split: option.split)

lemma get_new_agent_principal:
  assumes "get_new_agent (build_agent env) (fetch_root_key env) url ident = Inr agent"
    and "\<And>url v a. build_agent env url ident v = Inr a \<Longrightarrow> agent_get_principal env a = p"
    and "\<And>a a'. fetch_root_key env a = Inr a' \<Longrightarrow> agent_get_principal env a' = agent_get_principal env a"
  shows "agent_get_principal env agent = p"
  using assms by (auto simp: get_new_agent_def Let_def split: sum.splits if_splits)

text \<open>
  C37: after a successful start, the gateway and its listener are in the initial states from which the
  invariants of the running system are proved; the handlers poll at the interval of the command line,
  and connections are accepted without TLS exactly if one of the two certificate paths is missing.
\<close>

theorem main_starts_initial_system:
  assumes "main env d fs = (Ok st, fs')"
  shows "gateway_init (running_system st) \<and> listener_init (listener_start (running_listener st)) \<and>
         gw_interval_ms (running_system st) = polling_interval d \<and>
         listener_polling_interval_ms (running_listener st) = polling_interval d \<and>
         (tls_acceptor (running_listener st) = None \<longleftrightarrow>
            tls_certificate_pem_path d = None \<or> tls_certificate_key_pem_path d = None)"
proof -
  from assms obtain p l tel where
    "WsListener_new (listener_env env) (gateway_address d) (polling_interval d) (get_tls_config d) = Ok l"
    "st = \<lparr>running_listener = l, running_system = ws_gateway_new (Inr p) (polling_interval d),
           running_telemetry = tel\<rparr>"
    by (rule main_Ok) blast
  then show ?thesis
    using WsListener_new_init WsListener_new_sel get_tls_config_None_iff
    by (fastforce simp: gateway_init_def ws_gateway_new_def)
qed

text \<open>
  C36: the gateway keeps its principal over restarts. A start that finds the key pair of an earlier
  successful start, with the same key format and the same agent library, ends up with the same
  principal and leaves the key pair as it was, although it writes a new trace file.
\<close>

theorem restart_keeps_principal:
  assumes first: "main env d fs = (Ok st, fs')" and again: "main env' d' fs' = (Ok st', fs'')"
    and keys: "parse_pkcs8 (key_env env') = parse_pkcs8 (key_env env)" "from_key_pair env' = from_key_pair env"
    and agents: "\<And>e url i v a. e = env \<or> e = env' \<Longrightarrow> build_agent e url i v = Inr a \<Longrightarrow>
        agent_get_principal e a = identity_sender i"
      "\<And>e a a'. e = env \<or> e = env' \<Longrightarrow> fetch_root_key e a = Inr a' \<Longrightarrow>
        agent_get_principal e a' = agent_get_principal e a"
  shows "gw_principal (running_system st') = gw_principal (running_system st) \<and>
         files fs'' ''./data/key_pair'' = files fs' ''./data/key_pair''"
proof -
  from first obtain fs1 fs2 t1 k agent p l where one:
    "load_key_pair (key_env env) ''./data/key_pair'' fs1 = (Inr k, fs2)"
    "get_new_agent (build_agent env) (fetch_root_key env) (ic_network_url d) (from_key_pair env k) = Inr agent"
    "agent_get_principal env agent = Inr p"
    "fs' = snd (init_tracing (tracing_of env) (key_env env) (opentelemetry_collector_endpoint d) p fs2)"
    "st = \<lparr>running_listener = l, running_system = ws_gateway_new (Inr p) (polling_interval d),
           running_telemetry = t1\<rparr>"
    by (rule main_Ok) blast
  from again obtain fs3 fs4 t2 k' agent' p' l' where two:
    "fs3 = snd (create_data_dir (key_env env') fs')"
    "load_key_pair (key_env env') ''./data/key_pair'' fs3 = (Inr k', fs4)"
    "get_new_agent (build_agent env') (fetch_root_key env') (ic_network_url d') (from_key_pair env' k') = Inr agent'"
    "agent_get_principal env' agent' = Inr p'"
    "fs'' = snd (init_tracing (tracing_of env') (key_env env') (opentelemetry_collector_endpoint d') p' fs4)"
    "st' = \<lparr>running_listener = l', running_system = ws_gateway_new (Inr p') (polling_interval d'),
            running_telemetry = t2\<rparr>"
    by (rule main_Ok) blast
  from load_key_pair_Inr [OF one(1)] obtain b
    where b: "files fs2 ''./data/key_pair'' = Some b" "parse_pkcs8 (key_env env) b = Inr k" by blast
  then have there: "files fs3 ''./data/key_pair'' = Some b" by (simp add: one(4) two(1) init_tracing_key)
  with load_key_pair_Inr [OF two(2)] have "fs4 = fs3" and "parse_pkcs8 (key_env env') b = Inr k'" by auto
  with b keys(1) have k: "k' = k"
    and fs: "files fs'' ''./data/key_pair'' = files fs' ''./data/key_pair''"
    using there by (simp_all add: one(4) two(5) init_tracing_key)
  have "Inr p = identity_sender (from_key_pair env k)"
    using get_new_agent_principal [OF one(2)] agents one(3) by metis
  moreover have "Inr p' = identity_sender (from_key_pair env' k')"
    using get_new_agent_principal [OF two(3)] agents two(4) by metis
  ultimately have "Inr p' = (Inr p :: string + Principal)" using k keys(2) by simp
  then show ?thesis using fs by (simp add: one(5) two(6) ws_gateway_new_def)
qed

section \<open>Witnesses\<close>

text \<open>An environment in which everything succeeds and keys, identities and agents are byte strings.\<close>

definition demo_main_env :: "(bytes, bytes, bytes, bytes, bytes, string) main_env" where
  "demo_main_env =
     \<lparr>key_env = demo_key_env,
      from_key_pair = (\<lambda>k. k), build_agent = (\<lambda>_ i _. Inr i), fetch_root_key = Inr,
      agent_get_principal = (\<lambda>a. Inr (Principal a)), agent_error_text = (\<lambda>_. []),
      tracing_of = demo_tracing_env,
      metrics_of = \<lparr>parse_socket_addr = Inr, install_recorder = (\<lambda>_. Inr ())\<rparr>,
      listener_env = \<lparr>bind_address = (\<lambda>_. Inr ()), read_file = (\<lambda>_. Inr []),
        from_pkcs8 = (\<lambda>a _. Inr a), build_acceptor = Inr\<rparr>,
      join_error_text = (\<lambda>_. [])\<rparr>"

definition demo_fs :: file_system where
  "demo_fs = \<lparr>files = Map.empty, dirs = []\<rparr>"

definition demo_fs' :: file_system where
  "demo_fs' =
     \<lparr>files = [''./data/key_pair'' \<mapsto> [1, 2], trace_filename 1700 \<mapsto> []],
      dirs = [''./data/traces'', ''./data'']\<rparr>"

definition demo_started :: "u64 \<Rightarrow> bytes running_gateway" where
  "demo_started interval_ms =
     \<lparr>running_listener = \<lparr>tls_acceptor = None, listener_polling_interval_ms = interval_ms,
        next_client_id = 0, clients_connection_time = dm_new\<rparr>,
      running_system = ws_gateway_new (Inr (Principal [1, 2])) interval_ms, running_telemetry = False\<rparr>"

lemma demo_main_run:
  "main demo_main_env DeploymentInfo_default demo_fs = (Ok (demo_started 100), demo_fs')"
  "main demo_main_env (DeploymentInfo_default\<lparr>polling_interval := 200\<rparr>) demo_fs' =
     (Ok (demo_started 200), demo_fs')"
  by (simp_all add: main_def demo_main_env_def demo_key_env_def demo_tracing_env_def DeploymentInfo_default_def demo_fs_def demo_fs'_def
      demo_started_def create_data_dir_def load_key_pair_def fs_write_def fs_read_def parse_key_pair_def
      Manager_new_def get_new_agent_def get_agent_principal_def expect_result_def
      run_listener_def start_accepting_incoming_connections_def WsListener_new_def get_tls_config_def ws_gateway_new_def
      is_mainnet_def IC_MAINNET_URLS_def expect_ok_def init_tracing_def file_tracing_layer_def
      create_traces_dir_def telemetry_endpoint_def install_subscriber_def init_metrics_def
      trace_filename_not_key [symmetric] fun_upd_twist Let_def)

theorem main_starts_initial_system_witness:
  "gateway_init (running_system (demo_started 100))"
  using main_starts_initial_system [OF demo_main_run(1)] by blast

theorem restart_keeps_principal_witness:
  "gw_principal (running_system (demo_started 200)) = gw_principal (running_system (demo_started 100)) \<and>
   files demo_fs' ''./data/key_pair'' = files demo_fs' ''./data/key_pair''"
  by (rule restart_keeps_principal [OF demo_main_run, where identity_sender = "\<lambda>i. Inr (Principal i)"])
    (auto simp: demo_main_env_def demo_key_env_def)

end
