(* ===== verification/Gateway_Tests.thy ===== *)
theory Gateway_Tests
  imports Gateway_State
begin

text \<open>
  The unit test of \<open>src/gateway-state/src/lib.rs\<close>: threads that insert their clients into the gateway
  state at once. A run of the test is the order in which the insertions take effect; the benchmarks of
  that file only measure time and are left out.
\<close>

definition clients_count :: nat where
  "clients_count = 1000"

text \<open>The client of the \<open>i\<close>-th thread, for the anonymous principal, and its channel.\<close>

definition test_client :: "nat \<Rightarrow> ClientKey \<times> chan_id" where
  "test_client i = (ClientKey_new (Principal [4]) (of_nat i), of_nat i)"

text \<open>
  The canister is the management canister, whose principal is empty. The test counts the threads that
  were given a poller state and looks at the number of clients in it.
\<close>

definition should_insert_new_client_channels_and_get_new_poller_state_once :: "nat list \<Rightarrow> bool" where
  "should_insert_new_client_channels_and_get_new_poller_state_once order =
     (let (results, g) = insert_clients (Principal []) (map test_client order) GatewayState_new;
          states = filter (\<lambda>r. r \<noteq> None) results
      in length states = 1 \<and>
         (case states of
            Some r # _ \<Rightarrow> dm_len (arcs g r) = clients_count
          | _ \<Rightarrow> False))"

lemma test_client_inj:
  assumes "n \<le> 2 ^ 64"
  shows "inj_on (fst \<circ> test_client) {..<n}"
proof (rule inj_onI)
  fix i j assume ij: "i \<in> {..<n}" "j \<in> {..<n}"
    and "(fst \<circ> test_client) i = (fst \<circ> test_client) j"
  then have "(of_nat i :: u64) = of_nat j" by (simp add: test_client_def ClientKey_new_def)
  moreover have "i < 2 ^ 64" "j < 2 ^ 64" using ij assms by simp_all
  ultimately show "i = j" using unat_u64_of_nat by metis
qed

text \<open>
  C31: the unit test of concurrent insertions passes in whatever order the thousand threads get the lock
  of the canister's shard: exactly one of them is given a poller state, and in the end it holds all
  thousand clients.
\<close>

theorem insertion_test_passes:
  assumes "distinct order" and "set order = {..<clients_count}"
  shows "should_insert_new_client_channels_and_get_new_poller_state_once order"
proof -
  let ?kts = "map test_client order"
  have "0 < clients_count" by (simp add: clients_count_def)
  then have "0 \<in> set order" using assms(2) by simp
  then have "order \<noteq> []" by auto
  then have ne: "?kts \<noteq> []" by simp
  have "dm_get (data GatewayState_new) (Principal []) = None" by (simp add: GatewayState_new_def)
  from insert_clients_starts_once [OF this ne] obtain r
    where fst: "fst (insert_clients (Principal []) ?kts GatewayState_new) =
        Some r # replicate (length ?kts - 1) None"
      and len: "dm_len (arcs (snd (insert_clients (Principal []) ?kts GatewayState_new)) r) =
        card (fst ` set ?kts)"
    by blast
  obtain rs g where ins: "insert_clients (Principal []) ?kts GatewayState_new = (rs, g)" by fastforce
  have "fst ` set ?kts = (fst \<circ> test_client) ` {..<clients_count}"
    using assms(2) by (simp add: image_image)
  then have "dm_len (arcs g r) = clients_count"
    using len card_image [OF test_client_inj, of clients_count]
    by (simp add: ins clients_count_def)
  with fst show ?thesis
    by (simp add: should_insert_new_client_channels_and_get_new_poller_state_once_def ins)
qed

theorem insertion_test_passes_witness:
  "should_insert_new_client_channels_and_get_new_poller_state_once (rev [0..<clients_count])"
  by (rule insertion_test_passes) auto

end
