(* ===== verification/Gateway_Benchmarks.thy ===== *)
theory Gateway_Benchmarks
  imports Gateway_Tests
begin

text \<open>
  The benchmarks of \<open>src/gateway-state/src/lib.rs\<close>: a thread that times one operation of the gateway
  state again and again, alone and while another thread keeps calling another one. A run is the order in
  which the operations of the two threads take effect, and the readings of the clock. What they print is
  the report; ratios of its durations are left out.
\<close>

section \<open>Two threads\<close>

text \<open>
  The main thread calls its operation \<open>n\<close> times, with a counter, the other one without end. The
  schedule says which thread is next (True is the main thread, which does nothing more when it is
  done); the results of each come in order.
\<close>

fun two_threads ::
  "(nat \<Rightarrow> GatewayState \<Rightarrow> 'a \<times> GatewayState) \<Rightarrow> (nat \<Rightarrow> GatewayState \<Rightarrow> 'b \<times> GatewayState)
     \<Rightarrow> nat \<Rightarrow> nat \<Rightarrow> nat \<Rightarrow> bool list \<Rightarrow> GatewayState \<Rightarrow> 'a list \<times> 'b list \<times> GatewayState" where
  "two_threads main other n i j [] g = ([], [], g)"
| "two_threads main other n i j (True # sched) g =
     (if i < n
      then let (x, g1) = main i g;
               (xs, ys, g2) = two_threads main other n (Suc i) j sched g1
           in (x # xs, ys, g2)
      else two_threads main other n i j sched g)"
| "two_threads main other n i j (False # sched) g =
     (let (y, g1) = other j g;
          (xs, ys, g2) = two_threads main other n i (Suc j) sched g1
      in (xs, y # ys, g2))"

text \<open>The main thread alone.\<close>

fun one_thread :: "(nat \<Rightarrow> GatewayState \<Rightarrow> 'a \<times> GatewayState) \<Rightarrow> nat \<Rightarrow> nat \<Rightarrow> GatewayState \<Rightarrow> 'a list \<times> GatewayState" where
  "one_thread main 0 i g = ([], g)"
| "one_thread main (Suc n) i g =
     (let (x, g1) = main i g;
          (xs, g2) = one_thread main n (Suc i) g1
      in (x # xs, g2))"

section \<open>Time\<close>

text \<open>
  The readings of the clock in a timed loop: one at its start, two around each operation, one at its
  end. A difference of instants saturates at zero; a duration is divided with truncation.
\<close>

definition loop_total :: "(nat \<Rightarrow> instant) \<Rightarrow> nat \<Rightarrow> duration" where
  "loop_total clock n = (\<Sum>i<n. clock (2 * i + 2) - clock (2 * i + 1))"

definition loop_average :: "(nat \<Rightarrow> instant) \<Rightarrow> nat \<Rightarrow> duration" where
  "loop_average clock n = loop_total clock n div n"

definition loop_elapsed :: "(nat \<Rightarrow> instant) \<Rightarrow> nat \<Rightarrow> duration" where
  "loop_elapsed clock n = clock (2 * n + 1) - clock 0"

record bench_report =
  average_idle :: duration
  elapsed_idle :: duration
  average_busy :: duration
  elapsed_busy :: duration

definition bench_report_of :: "(nat \<Rightarrow> instant) \<Rightarrow> (nat \<Rightarrow> instant) \<Rightarrow> nat \<Rightarrow> bench_report" where
  "bench_report_of idle busy n =
     \<lparr>average_idle = loop_average idle n, elapsed_idle = loop_elapsed idle n,
      average_busy = loop_average busy n, elapsed_busy = loop_elapsed busy n\<rparr>"

section \<open>The benchmarks\<close>

definition bench_insert :: "nat \<Rightarrow> GatewayState \<Rightarrow> poller_ref option \<times> GatewayState" where
  "bench_insert i =
     insert_client_channel_and_get_new_poller_state (Principal []) (fst (test_client i)) (snd (test_client i))"

definition bench_check :: "nat \<Rightarrow> GatewayState \<Rightarrow> CanisterRemovalResult \<times> GatewayState" where
  "bench_check i = remove_canister_if_empty (Principal [])"

text \<open>Threads that insert one client each, and the time each of them took: the average is printed.\<close>

definition benchmark_insertions_only :: "(nat \<Rightarrow> duration) \<Rightarrow> nat list \<Rightarrow> duration \<times> GatewayState" where
  "benchmark_insertions_only took order =
     (let (_, g) = insert_clients (Principal []) (map test_client order) GatewayState_new
      in ((\<Sum>i<clients_count. took i) div clients_count, g))"

definition bench_iterations :: nat where
  "bench_iterations = 10000"

text \<open>Each benchmark returns its report, what the operations of its two phases returned, and the state.\<close>

definition benchmark_insertions_while_check_if_empty ::
  "(nat \<Rightarrow> instant) \<Rightarrow> (nat \<Rightarrow> instant) \<Rightarrow> bool list
     \<Rightarrow> bench_report \<times> (poller_ref option list \<times> poller_ref option list \<times> CanisterRemovalResult list) \<times> GatewayState" where
  "benchmark_insertions_while_check_if_empty idle busy sched =
     (let (rs, g) = one_thread bench_insert bench_iterations 0 GatewayState_new;
          (rs', cs, g') = two_threads bench_insert bench_check bench_iterations 0 0 sched g
      in (bench_report_of idle busy bench_iterations, (rs, rs', cs), g'))"

definition benchmark_check_if_empty_while_insertions ::
  "(nat \<Rightarrow> instant) \<Rightarrow> (nat \<Rightarrow> instant) \<Rightarrow> bool list
     \<Rightarrow> bench_report \<times> (CanisterRemovalResult list \<times> CanisterRemovalResult list \<times> poller_ref option list) \<times> GatewayState" where
  "benchmark_check_if_empty_while_insertions idle busy sched =
     (let (cs, g) = one_thread bench_check bench_iterations 0 GatewayState_new;
          (cs', rs, g') = two_threads bench_check bench_insert bench_iterations 0 0 sched g
      in (bench_report_of idle busy bench_iterations, (cs, cs', rs), g'))"

text \<open>The sleeps of the two threads only restrict the schedules; the total is that of the timed calls.\<close>

definition simulation_iterations :: nat where
  "simulation_iterations = 100"

definition simulate_ic_ws ::
  "(nat \<Rightarrow> instant) \<Rightarrow> bool list
     \<Rightarrow> duration \<times> (CanisterRemovalResult list \<times> poller_ref option list) \<times> GatewayState" where
  "simulate_ic_ws clock sched =
     (let (cs, rs, g) = two_threads bench_check bench_insert simulation_iterations 0 0 sched GatewayState_new
      in (loop_average clock simulation_iterations, (cs, rs), g))"

section \<open>What every schedule keeps\<close>

text \<open>
  The contract of two threads over one state: each operation keeps an invariant and returns what is
  expected of it, so every interleaving does.
\<close>

locale two_thread_contract =
  fixes main :: "nat \<Rightarrow> GatewayState \<Rightarrow> 'a \<times> GatewayState"
    and other :: "nat \<Rightarrow> GatewayState \<Rightarrow> 'b \<times> GatewayState"
    and n :: nat
    and inv :: "GatewayState \<Rightarrow> bool"
    and main_ok :: "'a \<Rightarrow> bool"
    and other_ok :: "'b \<Rightarrow> bool"
  assumes main_step: "i < n \<Longrightarrow> inv g \<Longrightarrow> inv (snd (main i g)) \<and> main_ok (fst (main i g))"
    and other_step: "inv g \<Longrightarrow> inv (snd (other j g)) \<and> other_ok (fst (other j g))"
begin

lemma one_thread_keeps:
  "i + k \<le> n \<Longrightarrow> inv g \<Longrightarrow>
     inv (snd (one_thread main k i g)) \<and> list_all main_ok (fst (one_thread main k i g))"
proof (induction k arbitrary: i g)
  case (Suc k)
  with main_step [of i g] Suc.IH [of "Suc i" "snd (main i g)"] show ?case by (simp add: split_beta Let_def)
qed simp

lemma two_threads_keep:
  "inv g \<Longrightarrow> two_threads main other n i j sched g = (xs, ys, g') \<Longrightarrow>
     inv g' \<and> list_all main_ok xs \<and> list_all other_ok ys"
proof (induction sched arbitrary: i j g xs ys g')
  case (Cons b sched)
  consider "b" "i < n" | "b" "\<not> i < n" | "\<not> b" by blast
  then show ?case
  proof cases
    case 1
    obtain xs' ys' g'' where rest: "two_threads main other n (Suc i) j sched (snd (main i g)) = (xs', ys', g'')"
      using prod_cases3 by blast
    with 1 Cons.prems have "xs = fst (main i g) # xs'" "ys' = ys" "g'' = g'" by (auto simp: split_beta Let_def)
    with rest Cons main_step [OF 1(2), of g] show ?thesis by fastforce
  next
    case 2
    with Cons show ?thesis by simp
  next
    case 3
    obtain xs' ys' g'' where rest: "two_threads main other n i (Suc j) sched (snd (other j g)) = (xs', ys', g'')"
      using prod_cases3 by blast
    with 3 Cons.prems have "ys = fst (other j g) # ys'" "xs' = xs" "g'' = g'" by (auto simp: split_beta Let_def)
    with rest Cons other_step [of g j] show ?thesis by fastforce
  qed
qed simp

end

text \<open>The clients the loop counters below \<open>n\<close> stand for.\<close>

definition bench_keys :: "nat \<Rightarrow> ClientKey set" where
  "bench_keys n = (\<lambda>i. fst (test_client i)) ` {..<n}"

text \<open>No empty poller state is left behind; or the canister is polled, for exactly the clients of a set.\<close>

definition polled_nonempty :: "GatewayState \<Rightarrow> bool" where
  "polled_nonempty g \<longleftrightarrow>
     (\<forall>r. dm_get (data g) (Principal []) = Some r \<longrightarrow> \<not> dm_is_empty (arcs g r))"

definition holds_exactly :: "ClientKey set \<Rightarrow> GatewayState \<Rightarrow> bool" where
  "holds_exactly K g \<longleftrightarrow> (\<exists>r. dm_get (data g) (Principal []) = Some r \<and> dm_keys (arcs g r) = K)"

lemma bench_check_nonempty:
  "polled_nonempty g \<Longrightarrow> bench_check i g = (NotEmpty, g)"
  by (auto simp: bench_check_def remove_canister_if_empty_def polled_nonempty_def split: option.split)

lemma bench_insert_polled:
  assumes "dm_get (data g) (Principal []) = Some r"
  shows "fst (bench_insert i g) = None" "data (snd (bench_insert i g)) = data g"
    "dm_keys (arcs (snd (bench_insert i g)) r) = insert (fst (test_client i)) (dm_keys (arcs g r))"
  using insert_when_polled [OF assms] by (simp_all add: bench_insert_def)

lemma bench_insert_vacant:
  assumes "dm_get (data g) (Principal []) = None"
  shows "holds_exactly {fst (test_client i)} (snd (bench_insert i g))"
  using insert_when_vacant [OF assms] by (simp add: bench_insert_def holds_exactly_def)

lemma holds_exactly_nonempty: "holds_exactly K g \<Longrightarrow> K \<noteq> {} \<Longrightarrow> polled_nonempty g"
  by (auto simp: holds_exactly_def polled_nonempty_def dm_is_empty_def dm_len_card)

lemma bench_insert_nonempty: "polled_nonempty (snd (bench_insert i g))"
proof (cases "dm_get (data g) (Principal [])")
  case None
  from bench_insert_vacant [OF this] show ?thesis by (rule holds_exactly_nonempty) simp
next
  case (Some r)
  with bench_insert_polled [OF this] have "holds_exactly (insert (fst (test_client i)) (dm_keys (arcs g r))) (snd (bench_insert i g))"
    by (simp add: holds_exactly_def)
  then show ?thesis by (rule holds_exactly_nonempty) simp
qed

lemma bench_insert_holds:
  assumes "holds_exactly K g"
  shows "holds_exactly (insert (fst (test_client i)) K) (snd (bench_insert i g)) \<and> fst (bench_insert i g) = None"
  using assms bench_insert_polled [of g] by (auto simp: holds_exactly_def)

interpretation insert_check:
  two_thread_contract bench_insert bench_check n "\<lambda>g. 0 < n \<and> holds_exactly (bench_keys n) g"
    "\<lambda>r. r = None" "\<lambda>r. r = NotEmpty"
  for n
proof unfold_locales
  show "(0 < n \<and> holds_exactly (bench_keys n) (snd (bench_insert i g))) \<and> fst (bench_insert i g) = None"
    if "i < n" "0 < n \<and> holds_exactly (bench_keys n) g" for i g
  proof -
    have "insert (fst (test_client i)) (bench_keys n) = bench_keys n" using that by (auto simp: bench_keys_def)
    with that bench_insert_holds [of "bench_keys n" g i] show ?thesis by simp
  qed
  show "(0 < n \<and> holds_exactly (bench_keys n) (snd (bench_check j g))) \<and> fst (bench_check j g) = NotEmpty"
    if "0 < n \<and> holds_exactly (bench_keys n) g" for j g
  proof -
    have "bench_keys n \<noteq> {}" using that by (auto simp: bench_keys_def)
    with that holds_exactly_nonempty have "polled_nonempty g" by blast
    with that show ?thesis by (simp add: bench_check_nonempty)
  qed
qed

interpretation check_insert:
  two_thread_contract bench_check bench_insert n polled_nonempty "\<lambda>r. r = NotEmpty" "\<lambda>_. True"
  for n
  by unfold_locales (simp_all add: bench_check_nonempty bench_insert_nonempty)

section \<open>What the benchmarks do\<close>

lemma bench_keys_card: "n \<le> 2 ^ 64 \<Longrightarrow> card (bench_keys n) = n"
  using card_image [OF test_client_inj, of n] by (simp add: bench_keys_def comp_def)

lemma insert_loop_polled:
  "holds_exactly K g \<Longrightarrow>
     holds_exactly (K \<union> (\<lambda>i. fst (test_client i)) ` {i..<i + k}) (snd (one_thread bench_insert k i g)) \<and>
     fst (one_thread bench_insert k i g) = replicate k None"
proof (induction k arbitrary: i K g)
  case (Suc k)
  have "{i..<i + Suc k} = insert i {Suc i..<Suc i + k}" by auto
  then have "K \<union> (\<lambda>i. fst (test_client i)) ` {i..<i + Suc k} =
      insert (fst (test_client i)) K \<union> (\<lambda>i. fst (test_client i)) ` {Suc i..<Suc i + k}"
    by simp
  with Suc.IH [OF conjunct1 [OF bench_insert_holds [OF Suc.prems]], of i "Suc i"]
    bench_insert_holds [OF Suc.prems, of i]
  show ?case by (simp add: split_beta Let_def)
qed simp

lemma insert_loop_first:
  assumes "0 < n"
  shows "holds_exactly (bench_keys n) (snd (one_thread bench_insert n 0 GatewayState_new)) \<and>
         fst (one_thread bench_insert n 0 GatewayState_new) = Some 0 # replicate (n - 1) None"
proof -
  obtain k where n: "n = Suc k" using assms by (cases n) auto
  have new: "dm_get (data GatewayState_new) (Principal []) = None" by (simp add: GatewayState_new_def)
  have first: "fst (bench_insert 0 GatewayState_new) = Some 0"
    using insert_when_vacant(1) [OF new] by (simp add: bench_insert_def GatewayState_new_def)
  have "{..<n} = insert 0 {1..<1 + k}" using n by auto
  then have "{fst (test_client 0)} \<union> (\<lambda>i. fst (test_client i)) ` {1..<1 + k} = bench_keys n"
    by (simp add: bench_keys_def)
  with insert_loop_polled [OF bench_insert_vacant [OF new, of 0], of 1 k] first
  show ?thesis by (simp add: n split_beta Let_def)
qed

lemma list_all_singleton: "list_all (\<lambda>x. x = a) xs \<longleftrightarrow> set xs \<subseteq> {a}"
  by (auto simp: list_all_iff)

lemma polled_nonempty_new: "polled_nonempty GatewayState_new"
  by (simp add: polled_nonempty_def GatewayState_new_def)

text \<open>
  Insertions that started at a new state: only the first one handed out a poller state, and all clients
  are there.
\<close>

definition all_inserted :: "poller_ref option list \<Rightarrow> GatewayState \<Rightarrow> bool" where
  "all_inserted rs g \<longleftrightarrow>
     (case rs of
        [] \<Rightarrow> g = GatewayState_new
      | r # rs' \<Rightarrow> r = Some 0 \<and> set rs' \<subseteq> {None} \<and> holds_exactly (bench_keys (length rs)) g)"

lemma bench_keys_Suc: "bench_keys (Suc n) = insert (fst (test_client n)) (bench_keys n)"
  by (simp add: bench_keys_def lessThan_Suc)

lemma bench_insert_all:
  assumes "all_inserted rs g"
  shows "all_inserted (rs @ [fst (bench_insert (length rs) g)]) (snd (bench_insert (length rs) g))"
proof (cases rs)
  case Nil
  then have g: "g = GatewayState_new" using assms by (simp add: all_inserted_def)
  have new: "dm_get (data GatewayState_new) (Principal []) = None" by (simp add: GatewayState_new_def)
  have "fst (bench_insert 0 GatewayState_new) = Some 0"
    using insert_when_vacant(1) [OF new] by (simp add: bench_insert_def GatewayState_new_def)
  with bench_insert_vacant [OF new, of 0] Nil g show ?thesis
    by (simp add: all_inserted_def bench_keys_Suc) (simp add: bench_keys_def)
next
  case (Cons r rs')
  then have "holds_exactly (bench_keys (length rs)) g" using assms by (simp add: all_inserted_def)
  from bench_insert_holds [OF this, of "length rs"] assms Cons show ?thesis
    by (simp add: all_inserted_def bench_keys_Suc)
qed

lemma bench_check_all: "all_inserted rs g \<Longrightarrow> bench_check i g = (NotEmpty, g)"
  by (rule bench_check_nonempty, cases rs)
    (auto simp: all_inserted_def polled_nonempty_new bench_keys_Suc intro: holds_exactly_nonempty)

lemma check_insert_all:
  "all_inserted rs0 g \<Longrightarrow> two_threads bench_check bench_insert n i (length rs0) sched g = (cs, rs, g') \<Longrightarrow>
     all_inserted (rs0 @ rs) g'"
proof (induction sched arbitrary: i rs0 g cs rs g')
  case (Cons b sched)
  show ?case
  proof (cases b)
    case True
    with Cons show ?thesis by (auto simp: bench_check_all split: if_splits prod.splits)
  next
    case False
    let ?r = "fst (bench_insert (length rs0) g)" and ?g = "snd (bench_insert (length rs0) g)"
    obtain cs' rs' g'' where rest: "two_threads bench_check bench_insert n i (length (rs0 @ [?r])) sched ?g = (cs', rs', g'')"
      using prod_cases3 by blast
    with False Cons.prems(2) have "rs = ?r # rs'" "g'' = g'" by (auto simp: split_beta Let_def)
    with Cons.IH [OF bench_insert_all [OF Cons.prems(1)] rest] show ?thesis by simp
  qed
qed simp

lemma check_loop_new: "one_thread bench_check n i GatewayState_new = (replicate n NotEmpty, GatewayState_new)"
  by (induction n arbitrary: i) (simp_all add: bench_check_nonempty polled_nonempty_new)

text \<open>
  C32: no benchmark ever sees an empty poller state, in whatever order its two threads run. The checks
  that run against the insertions all find the canister in use (or not there at all, before the first
  insertion), so they never remove it. In each benchmark with two threads, only the first insertion
  hands out a poller state, in the idle phase of the first benchmark and among the concurrent
  insertions of the other two, and all clients that were inserted are there in the end: the ten
  thousand of the idle phase, whose keys the busy phase uses again, in the first benchmark, and one for
  each concurrent insertion that the schedule let run in the other two.
\<close>

theorem benchmarks_remove_nothing:
  "(case benchmark_insertions_while_check_if_empty idle busy sched of (report, (rs, rs', cs), g) \<Rightarrow>
      rs = Some 0 # replicate (bench_iterations - 1) None \<and> set rs' \<subseteq> {None} \<and> set cs \<subseteq> {NotEmpty} \<and>
      (\<exists>r. dm_get (data g) (Principal []) = Some r \<and> dm_len (arcs g r) = bench_iterations)) \<and>
   (case benchmark_check_if_empty_while_insertions idle busy sched of (report, (cs, cs', rs), g) \<Rightarrow>
      set (cs @ cs') \<subseteq> {NotEmpty} \<and> all_inserted rs g) \<and>
   (case simulate_ic_ws clock sched of (average, (cs, rs), g) \<Rightarrow>
      set cs \<subseteq> {NotEmpty} \<and> all_inserted rs g)"
proof -
  have n: "0 < bench_iterations" "card (bench_keys bench_iterations) = bench_iterations"
    by (simp_all add: bench_iterations_def bench_keys_card)
  obtain rs g where idle: "one_thread bench_insert bench_iterations 0 GatewayState_new = (rs, g)" by fastforce
  obtain rs' cs g' where busy: "two_threads bench_insert bench_check bench_iterations 0 0 sched g = (rs', cs, g')"
    using prod_cases3 by blast
  from insert_loop_first [OF n(1)] idle
  have g: "holds_exactly (bench_keys bench_iterations) g" "rs = Some 0 # replicate (bench_iterations - 1) None"
    by simp_all
  from insert_check.two_threads_keep [OF _ busy] g(1) n(1)
  have "holds_exactly (bench_keys bench_iterations) g'" "set rs' \<subseteq> {None}" "set cs \<subseteq> {NotEmpty}"
    by (simp_all add: list_all_singleton)
  moreover obtain cs1 g1 where idle1: "one_thread bench_check bench_iterations 0 GatewayState_new = (cs1, g1)"
    by fastforce
  moreover obtain cs2 rs2 g2
    where busy1: "two_threads bench_check bench_insert bench_iterations 0 0 sched g1 = (cs2, rs2, g2)"
    using prod_cases3 by blast
  moreover have idle2: "polled_nonempty g1" "set cs1 \<subseteq> {NotEmpty}"
    using check_insert.one_thread_keeps [OF _ polled_nonempty_new, of 0 bench_iterations bench_iterations] idle1
    by (simp_all add: list_all_singleton)
  moreover from check_insert.two_threads_keep [OF idle2(1) busy1] have "set cs2 \<subseteq> {NotEmpty}"
    by (simp add: list_all_singleton)
  moreover have "g1 = GatewayState_new" using idle1 by (simp add: check_loop_new)
  with check_insert_all [of "[]" g1] busy1 have "all_inserted rs2 g2" by (simp add: all_inserted_def)
  moreover obtain cs3 rs3 g3
    where sim: "two_threads bench_check bench_insert simulation_iterations 0 0 sched GatewayState_new = (cs3, rs3, g3)"
    using prod_cases3 by blast
  moreover from check_insert.two_threads_keep [OF polled_nonempty_new sim] have "set cs3 \<subseteq> {NotEmpty}"
    by (simp add: list_all_singleton)
  moreover from check_insert_all [of "[]" GatewayState_new] sim have "all_inserted rs3 g3"
    by (simp add: all_inserted_def)
  ultimately show ?thesis
    using g(2) n(2) idle busy
    by (auto simp: benchmark_insertions_while_check_if_empty_def benchmark_check_if_empty_while_insertions_def
        simulate_ic_ws_def holds_exactly_def dm_len_card)
qed

text \<open>On a clock that does not run backwards, the timed operations take no longer than the loop.\<close>

lemma loop_average_bound:
  assumes "mono clock"
  shows "loop_average clock n * n \<le> loop_elapsed clock n"
proof -
  have le: "clock i \<le> clock j" if "i \<le> j" for i j using assms that by (rule monoD)
  have "loop_total clock n \<le> clock (2 * n) - clock 0"
  proof (induction n)
    case (Suc n)
    then show ?case
      using le [of 0 "2 * n"] le [of "2 * n" "2 * n + 1"] le [of "2 * n + 1" "2 * n + 2"]
      by (simp add: loop_total_def)
  qed (simp add: loop_total_def)
  also have "\<dots> \<le> loop_elapsed clock n" using le [of "2 * n" "2 * n + 1"] by (simp add: loop_elapsed_def)
  finally show ?thesis unfolding loop_average_def using div_times_less_eq_dividend le_trans by blast
qed

end
