(* ===== verification/Session_Handler_Props.thy ===== *)
theory Session_Handler_Props
  imports Session_Handler
begin

text \<open>
  What a session handler guarantees on its own: what it knows of its client at each point of its loop,
  what each update does to the gateway state, when it panics, and that a client is registered before
  its first message is relayed.
\<close>

section \<open>Well-formed handlers\<close>

text \<open>What the handler with identifier \<open>i\<close> holds, by where it is.\<close>

definition handler_wf :: "u64 \<Rightarrow> handler_task \<Rightarrow> bool" where
  "handler_wf i h \<longleftrightarrow>
     session_wf (client_session h) \<and>
     (case handler_pc h of
        HandlerUpdate \<Rightarrow>
          (case session_state (client_session h) of
             Init \<Rightarrow> client_channel_tx h = Some i
           | Closed \<Rightarrow> False
           | _ \<Rightarrow> client_channel_tx h = None)
      | HandlerRelayOpen cid key m _ \<Rightarrow>
          session_state (client_session h) = Setup m \<and> client_channel_tx h = None \<and>
          canister_id (client_session h) = Some cid \<and> client_key (client_session h) = Some key
      | HandlerStartPoller _ \<Rightarrow>
          (\<exists>m. session_state (client_session h) = Setup m) \<and> client_channel_tx h = None
      | HandlerWsClose cid key _ \<Rightarrow>
          client_channel_tx h = None \<and>
          canister_id (client_session h) = Some cid \<and> client_key (client_session h) = Some key
      | HandlerDone _ \<Rightarrow> client_channel_tx h = None)"

lemma handler_wfD:
  "handler_wf i h \<Longrightarrow> session_wf (client_session h)"
  by (simp add: handler_wf_def)

lemma get_canister_id_simps [simp]:
  "canister_id s = Some c \<Longrightarrow> get_canister_id s = Ok c"
  "canister_id s = None \<Longrightarrow> get_canister_id s = Panic ''must be set during Setup''"
  by (simp_all add: get_canister_id_def expect_def)

lemma get_client_key_simps [simp]:
  "client_key s = Some k \<Longrightarrow> get_client_key s = Ok k"
  "client_key s = None \<Longrightarrow> get_client_key s = Panic ''must be set during Setup''"
  by (simp_all add: get_client_key_def expect_def)

lemma goto_simps [simp]:
  "goto (Ok p) h = h\<lparr>handler_pc := p\<rparr>"
  "goto (Err e) h = end_task (Err e) h"
  "goto (Panic m) h = end_task (Panic m) h"
  by (simp_all add: goto_def)

lemma end_task_sel [simp]:
  "handler_pc (end_task r h) = HandlerDone r"
  "client_channel_tx (end_task r h) = None"
  "client_session (end_task r h) = client_session h"
  "handler (end_task r h) = handler h"
  by (simp_all add: end_task_def)

lemma takes_sender_simps [simp]:
  "takes_sender (Ok (Some (Setup m)))" "\<not> takes_sender (Ok (Some Init))"
  "\<not> takes_sender (Ok (Some Open))" "\<not> takes_sender (Ok (Some Closed))"
  "\<not> takes_sender (Ok None)" "\<not> takes_sender (Err e)" "\<not> takes_sender (Panic x)"
  by (simp_all add: takes_sender_def)

section \<open>Removing the client\<close>

lemma remove_client_state:
  "snd (remove_client c k g) = snd (remove_client_if_exists c k g)"
  by (simp add: remove_client_def remove_client_if_exists_def split: option.splits)

lemma remove_client_result:
  "fst (remove_client c k g) = Ok () \<or>
   fst (remove_client c k g) = Panic ''Client key not found in poller state''"
  by (simp add: remove_client_def split: option.splits)

lemma handle_closed_known:
  assumes "canister_id s = Some c" "client_key s = Some k"
  shows "snd (handle_closed s g) = snd (remove_client_if_exists c k g)"
    and "fst (handle_closed s g) = Ok (HandlerWsClose c k (Ok ())) \<or>
         fst (handle_closed s g) = Panic ''Client key not found in poller state''"
  using remove_client_result [of c k g] remove_client_state [of c k g]
  by (cases "remove_client c k g"; auto simp: handle_closed_def assms)+

lemma removed_key:
  "fst (remove_client_if_exists c k g) = Removed k' \<Longrightarrow> k' = k"
  by (auto simp: remove_client_if_exists_def split: option.splits)

fun poller_error :: "IcWsError \<Rightarrow> bool" where
  "poller_error (Poller _) = True"
| "poller_error _ = False"

lemma case_not_poller:
  "\<not> poller_error e \<Longrightarrow> (case e of IcWsProtocol _ \<Rightarrow> x | WebSocket _ \<Rightarrow> x | Poller m \<Rightarrow> y m) = x"
  by (cases e) simp_all

lemma handle_error_known:
  assumes "canister_id s = Some c" "client_key s = Some k" "\<not> poller_error e"
  shows "snd (handle_error e s g) = snd (remove_client_if_exists c k g)"
    and "fst (handle_error e s g) =
           (case fst (remove_client_if_exists c k g) of
              Removed _ \<Rightarrow>
                Ok (HandlerWsClose c k (Err (''Client session error: '' @ debug_ic_ws_error e)))
            | Vacant \<Rightarrow> Err (''Client error before session Setup: '' @ debug_ic_ws_error e))"
proof -
  have eq: "handle_error e s g =
      (case remove_client_if_exists c k g of
         (Removed k', g1) \<Rightarrow>
           (Ok (HandlerWsClose c k' (Err (''Client session error: '' @ debug_ic_ws_error e))), g1)
       | (Vacant, g1) \<Rightarrow> (Err (''Client error before session Setup: '' @ debug_ic_ws_error e), g1))"
  proof (cases e)
    case (IcWsProtocol m)
    show ?thesis unfolding IcWsProtocol by (simp add: handle_error_def assms(1,2))
  next
    case (WebSocket m)
    show ?thesis unfolding WebSocket by (simp add: handle_error_def assms(1,2))
  qed (use assms(3) in simp)
  show "snd (handle_error e s g) = snd (remove_client_if_exists c k g)"
    by (simp add: eq split: prod.splits ClientRemovalResult.splits)
  show "fst (handle_error e s g) =
      (case fst (remove_client_if_exists c k g) of
         Removed _ \<Rightarrow>
           Ok (HandlerWsClose c k (Err (''Client session error: '' @ debug_ic_ws_error e)))
       | Vacant \<Rightarrow> Err (''Client error before session Setup: '' @ debug_ic_ws_error e))"
    using removed_key [of c k g]
    by (simp add: eq split: prod.splits ClientRemovalResult.splits)
qed

lemma handle_early:
  assumes "canister_id s = None"
  shows "handle_closed s g = (Panic ''must be set during Setup'', g)"
    and "\<not> poller_error e \<Longrightarrow> handle_error e s g = (Panic ''must be set during Setup'', g)"
  using assms by (cases e; simp add: handle_closed_def handle_error_def)+

lemma handle_error_poller [simp]:
  "handle_error (Poller m) s g = (Err (''Poller error: '' @ debug_str m), g)"
  by (simp add: handle_error_def)

section \<open>What one update of the session does\<close>

text \<open>Only a channel without senders makes the session report a failed poller.\<close>

lemma poller_error_cause:
  "fst (try_update_state env ev s) = Err (Poller e) \<Longrightarrow> ev = CanisterUpdate None"
proof (rule ccontr)
  assume err: "fst (try_update_state env ev s) = Err (Poller e)" and ev: "ev \<noteq> CanisterUpdate None"
  have send: "fst (send_ws_message_to_client env m s) \<noteq> Err (Poller e)" for m s
    by (simp add: send_ws_message_to_client_def split: sum.splits)
  have cls: "fst (close_ws_session env s) \<noteq> Err (Poller e)" for s
    by (simp add: close_ws_session_def split: sum.splits)
  have rel: "fst (relay_canister_message env m s) \<noteq> Err (Poller e)" for m s
    by (simp add: relay_canister_message_def send split: sum.splits)
  have req: "get_client_request env m \<noteq> Inl (Poller e)" for m
    by (simp add: get_client_request_def split: Message.splits option.splits)
  have ser: "serialize (self_describe env) b \<noteq> Inl (Poller e)" for b
    by (simp add: serialize_def split: sum.splits)
  have cli: "fst (relay_client_message env m s) \<noteq> Err (Poller e)" for m s
    using req [of m] ser
    by (auto simp: relay_client_message_def relay_ws_message_to_ic_def
        split: sum.splits EnvelopeContent.splits option.splits)
  have su: "fst (handle_setup_transition env m s) \<noteq> Err (Poller e)" for m s
    using cls [of s]
    by (auto simp: handle_setup_transition_def and_then_def Let_def
        split: sum.splits prod.splits outcome.splits)
  have "fst (handle_event env ev s) \<noteq> Err (Poller e)"
  proof (cases ev)
    case (ClientUpdate u)
    show ?thesis
    proof (cases u)
      case (Inr m)
      show ?thesis
        using ClientUpdate Inr cli [of m s] su [of m s]
        by (cases "is_close m"; cases "session_state s"; cases "handle_setup_transition env m s";
            cases "fst (handle_setup_transition env m s)") (auto simp: client_update_Init)
    qed (simp add: ClientUpdate)
  next
    case (CanisterUpdate v)
    with ev obtain cm where v: "v = Some cm" by (cases v) auto
    show ?thesis
      using CanisterUpdate v rel [of cm s]
      by (cases "session_state s"; cases "relay_canister_message env cm s";
          cases "fst (relay_canister_message env cm s)") (auto simp: canister_update_Setup)
  qed
  with err show False by (simp add: fst_try_update_state split: outcome.splits)
qed

lemma poller_error_event:
  "fst (try_update_state env ev s) = Err e \<Longrightarrow> ev \<noteq> CanisterUpdate None \<Longrightarrow> \<not> poller_error e"
  using poller_error_cause [of env ev s] by (cases e) auto

lemma handler_update_eq:
  "handler_update env ev h g =
     (let r = fst (try_update_state env ev (client_session h));
          s1 = snd (try_update_state env ev (client_session h));
          a = handle_update r s1 (client_channel_tx h) g
      in (goto (fst a) (h\<lparr>client_session := s1,
            client_channel_tx := (if takes_sender r then None else client_channel_tx h)\<rparr>), snd a))"
  by (simp add: handler_update_def Let_def split_beta)

lemma end_task_no_sender:
  "client_channel_tx h = None \<Longrightarrow> end_task r h = h\<lparr>handler_pc := HandlerDone r\<rparr>"
  by (cases h) (simp add: end_task_def)

text \<open>
  What an error or the end of the session does to a handler whose client is known, and to one whose
  client is not.
\<close>

lemma leave_known:
  assumes "canister_id s = Some c" "client_key s = Some k" "client_channel_tx h = None"
    and a: "a = handle_closed s g \<or> (\<exists>e. \<not> poller_error e \<and> a = handle_error e s g)"
  obtains p where "goto (fst a) h = h\<lparr>handler_pc := p\<rparr>"
    and "snd a = snd (remove_client_if_exists c k g)"
    and "(\<exists>r. p = HandlerWsClose c k r \<and> (\<forall>m. r \<noteq> Panic m)) \<or> (\<exists>e. p = HandlerDone (Err e)) \<or>
         p = HandlerDone (Panic ''Client key not found in poller state'')"
proof -
  have e: "end_task r h = h\<lparr>handler_pc := HandlerDone r\<rparr>" for r
    using assms(3) by (rule end_task_no_sender)
  from a show ?thesis
  proof
    assume a: "a = handle_closed s g"
    note k = handle_closed_known [OF assms(1,2), of g, folded a]
    from k(2) show ?thesis by (rule disjE) (auto simp: e intro: that [OF _ k(1)])
  next
    assume "\<exists>e. \<not> poller_error e \<and> a = handle_error e s g"
    then obtain x where x: "\<not> poller_error x" and a: "a = handle_error x s g" by blast
    note k = handle_error_known [OF assms(1,2) x, of g, folded a]
    from k(2) show ?thesis
      by (cases "fst (remove_client_if_exists c k g)") (auto simp: e intro: that [OF _ k(1)])
  qed
qed

text \<open>
  Everything a waiting handler can do on an event, when it is well-formed: stay, register its client,
  leave with its client removed, end because its poller failed, or panic because the session ended
  before its client was known.
\<close>

lemma handler_update_cases:
  assumes wf: "handler_wf i h" and pc: "handler_pc h = HandlerUpdate"
    and up: "handler_update env ev h g = (h', g')"
  obtains
    (stay) s where "h' = h\<lparr>client_session := s\<rparr>" "g' = g" "handler_wf i h'"
      "client_key s = client_key (client_session h)" "canister_id s = canister_id (client_session h)"
      "client_channel_tx h = None"
  | (register) s c k m new where "client_channel_tx h = Some i" "g' = snd (insert_client_channel_and_get_new_poller_state c k i g)"
      "new = fst (insert_client_channel_and_get_new_poller_state c k i g)"
      "h' = h\<lparr>client_session := s, client_channel_tx := None,
               handler_pc := HandlerRelayOpen c k m new\<rparr>"
      "handler_wf i h'" "inspect_ic_ws_open_message env m = Inr (k, c)"
      "session_state (client_session h) = Init" "started_calls s = started_calls (client_session h)"
  | (leave) s c k p where "canister_id (client_session h) = Some c"
      "client_key (client_session h) = Some k" "client_channel_tx h = None"
      "g' = snd (remove_client_if_exists c k g)" "h' = h\<lparr>client_session := s, handler_pc := p\<rparr>"
      "(\<exists>r. p = HandlerWsClose c k r \<and> (\<forall>m. r \<noteq> Panic m)) \<or> (\<exists>e. p = HandlerDone (Err e)) \<or>
       p = HandlerDone (Panic ''Client key not found in poller state'')"
      "handler_wf i h'" "canister_id s = Some c"
  | (poller_failed) s e where "ev = CanisterUpdate None" "g' = g"
      "h' = end_task (Err e) (h\<lparr>client_session := s\<rparr>)" "handler_wf i h'"
  | (early) s m where "session_state (client_session h) = Init" "g' = g"
      "h' = end_task (Panic m) (h\<lparr>client_session := s\<rparr>)" "handler_wf i h'"
      "m = ''must be set during Setup'' \<or>
       m = ''Canister shall not send messages while in Init state'' \<and> (\<exists>cm. ev = CanisterUpdate (Some cm))"
      "canister_id s = None"
proof -
  let ?s = "client_session h"
  obtain r t where rt: "try_update_state env ev ?s = (r, t)" by fastforce
  note swf = handler_wfD [OF wf]
  note twf = session_step_wf [OF swf, of env ev, unfolded rt snd_conv]
  have open_st: "session_state ?s \<noteq> Closed" using wf pc by (auto simp: handler_wf_def)
  have tx: "session_state ?s \<noteq> Init \<Longrightarrow> client_channel_tx h = None"
    "session_state ?s = Init \<Longrightarrow> client_channel_tx h = Some i"
    using wf pc open_st by (auto simp: handler_wf_def split: IcWsSessionState.splits)
  let ?h = "h\<lparr>client_session := t\<rparr>"
  have pc_eq: "?h\<lparr>handler_pc := HandlerUpdate\<rparr> = ?h" using pc by (cases h) simp
  have res: "(h', g') = (goto (fst (handle_update r t (client_channel_tx h) g))
      (?h\<lparr>client_channel_tx := (if takes_sender r then None else client_channel_tx h)\<rparr>),
      snd (handle_update r t (client_channel_tx h) g))"
    using up by (simp add: handler_update_eq rt Let_def)
  have gone: thesis
    if known: "canister_id t = Some c" "client_key t = Some k" "canister_id ?s = Some c"
        "client_key ?s = Some k" "session_state ?s \<noteq> Init" "\<not> takes_sender r"
      and arm: "handle_update r t (client_channel_tx h) g = handle_closed t g \<or>
        (\<exists>e. \<not> poller_error e \<and> handle_update r t (client_channel_tx h) g = handle_error e t g)"
    for c k
  proof -
    have "client_channel_tx ?h = None" using tx that by simp
    from leave_known [OF known(1,2) this arm] obtain p
      where p: "goto (fst (handle_update r t (client_channel_tx h) g)) ?h = ?h\<lparr>handler_pc := p\<rparr>"
        "snd (handle_update r t (client_channel_tx h) g) = snd (remove_client_if_exists c k g)"
        "(\<exists>r. p = HandlerWsClose c k r \<and> (\<forall>m. r \<noteq> Panic m)) \<or> (\<exists>e. p = HandlerDone (Err e)) \<or>
         p = HandlerDone (Panic ''Client key not found in poller state'')" by blast
    have h': "h' = ?h\<lparr>handler_pc := p\<rparr>" and g': "g' = snd (remove_client_if_exists c k g)"
      using res p(1,2) known(6) by simp_all
    have "handler_wf i h'"
      using p(3) twf known tx by (auto simp: h' handler_wf_def)
    with known tx p(3) h' g' show thesis by (intro leave) simp_all
  qed
  show ?thesis
    using swf rt open_st
  proof (cases rule: session_update_cases)
    case unchanged
    with res have eq: "h' = ?h" "g' = g" using pc_eq by (simp_all add: handle_update_def)
    with unchanged wf pc twf have "handler_wf i h'"
      by (auto simp: handler_wf_def same_session_def split: IcWsSessionState.splits)
    with eq unchanged tx show ?thesis by (intro stay [of t]) (simp_all add: same_session_def)
  next
    case (opened m)
    from session_wf_known [OF swf, of m] opened obtain k c
      where kc: "client_key ?s = Some k" "canister_id ?s = Some c" by blast
    with res opened have eq: "h' = ?h" "g' = g" using pc_eq by (simp_all add: handle_update_def)
    with opened wf pc twf have "handler_wf i h'" by (simp add: handler_wf_def)
    with eq opened tx show ?thesis by (intro stay [of t]) simp_all
  next
    case (set_up m k c)
    let ?p = "insert_client_channel_and_get_new_poller_state c k i g"
    have "h' = ?h\<lparr>client_channel_tx := None, handler_pc := HandlerRelayOpen c k m (fst ?p)\<rparr>" "g' = snd ?p"
      using res set_up tx
      by (simp_all add: handle_update_def register_client_def expect_def Let_def split_beta)
    moreover from this set_up twf have "handler_wf i h'" by (simp add: handler_wf_def)
    ultimately show ?thesis using set_up tx by (intro register [where s = t]) simp_all
  next
    case closed
    show ?thesis
    proof (cases "session_state ?s = Init")
      case True
      with session_wf_Init [OF swf] closed have "canister_id t = None" by simp
      with res closed have eq: "h' = end_task (Panic ''must be set during Setup'') ?h" "g' = g"
        by (simp_all add: handle_update_def handle_early)
      moreover from twf eq have "handler_wf i h'" by (simp add: handler_wf_def)
      ultimately show ?thesis
        using early [OF True eq(2,1) _ disjI1 [OF refl]] \<open>canister_id t = None\<close> by blast
    next
      case False
      with swf open_st obtain k c where "client_key ?s = Some k" "canister_id ?s = Some c"
        by (auto simp: session_wf_def split: IcWsSessionState.splits)
      with closed False show ?thesis by (intro gone) (simp_all add: handle_update_def)
    qed
  next
    case (failed e)
    have pe: "poller_error e \<Longrightarrow> ev = CanisterUpdate None"
      using poller_error_event [of env ev ?s e] rt failed(1) by auto
    show ?thesis
    proof (cases "poller_error e")
      case True
      then obtain m where m: "e = Poller m" by (cases e) simp_all
      with res failed have eq: "h' = end_task (Err (''Poller error: '' @ debug_str m)) ?h" "g' = g"
        by (simp_all add: handle_update_def)
      moreover from twf eq have "handler_wf i h'" by (simp add: handler_wf_def)
      ultimately show ?thesis using pe True by (intro poller_failed [where s = t]) simp_all
    next
      case no: False
      show ?thesis
      proof (cases "session_state ?s = Init")
        case True
        with session_wf_Init [OF swf] failed have "canister_id t = None" by simp
        with res failed no have eq: "h' = end_task (Panic ''must be set during Setup'') ?h" "g' = g"
          by (simp_all add: handle_update_def handle_early)
        moreover from twf eq have "handler_wf i h'" by (simp add: handler_wf_def)
      ultimately show ?thesis using early [OF True eq(2,1) _ disjI1 [OF refl]] \<open>canister_id t = None\<close> by blast
      next
        case False
        with swf open_st obtain k c where "client_key ?s = Some k" "canister_id ?s = Some c"
          by (auto simp: session_wf_def split: IcWsSessionState.splits)
        with failed no False show ?thesis by (intro gone) (auto simp: handle_update_def)
      qed
    qed
  next
    case (panicked cm)
    with res have eq: "h' = end_task (Panic ''Canister shall not send messages while in Init state'') ?h" "g' = g"
      by (simp_all add: handle_update_def)
    from twf eq have "handler_wf i h'" by (simp add: handler_wf_def)
    moreover have "canister_id t = None" using panicked(4) session_wf_Init [OF swf panicked(2)] by simp
    moreover have "\<exists>cm. ev = CanisterUpdate (Some cm)" using panicked(3) by blast
    ultimately show ?thesis
      using early [OF panicked(2) eq(2,1) _ disjI2 [OF conjI [OF refl]]] by blast
  qed
qed

text \<open>Everything a handler inside an arm can do: relay the first message or fail to, start a poller, close.\<close>

lemma handler_continue_cases:
  assumes wf: "handler_wf i h" and go: "handler_continue env h g = Some (h', g', sp)"
  obtains
    (relayed) s c k m new where "handler_pc h = HandlerRelayOpen c k m new" "sp = None" "g' = g"
      "fst (relay_client_message env m (client_session h)) = Ok ()"
      "s = snd (relay_client_message env m (client_session h))"
      "same_session (client_session h) s"
      "h' = h\<lparr>client_session := s,
               handler_pc := (case new of Some r \<Rightarrow> HandlerStartPoller r | None \<Rightarrow> HandlerUpdate)\<rparr>"
      "handler_wf i h'"
  | (relay_failed) s c k m new r where "handler_pc h = HandlerRelayOpen c k m new" "sp = None"
      "\<exists>e. fst (relay_client_message env m (client_session h)) = Err e"
      "g' = snd (remove_client_if_exists c k g)"
      "same_session (client_session h) s"
      "h' = h\<lparr>client_session := s, handler_pc := HandlerDone r\<rparr>"
      "(\<exists>e. r = Err e) \<or> r = Panic ''Client key not found in poller state''"
      "handler_wf i h'"
  | (started) r c where "handler_pc h = HandlerStartPoller r" "canister_id (client_session h) = Some c"
      "sp = Some (poller_task_new (CanisterPoller_new c r (handler_polling_interval_ms (handler h))))"
      "g' = g" "h' = h\<lparr>handler_pc := HandlerUpdate\<rparr>" "handler_wf i h'"
  | (ws_closed) c k r where "handler_pc h = HandlerWsClose c k r" "sp = None" "g' = g"
      "h' = end_task r (h\<lparr>client_session := call_ws_close c k (client_session h)\<rparr>)" "handler_wf i h'"
proof -
  note swf = handler_wfD [OF wf]
  from go show ?thesis
  proof (cases "handler_pc h")
    case (HandlerRelayOpen c k m new)
    obtain r s where rs: "relay_client_message env m (client_session h) = (r, s)" by fastforce
    have same: "same_session (client_session h) s"
      using relay_client_frame(1) [of "client_session h" env m] rs by simp
    have wf': "session_state s = Setup m" "canister_id s = Some c" "client_key s = Some k"
        "client_channel_tx h = None" "session_wf s"
      using wf same HandlerRelayOpen by (auto simp: handler_wf_def same_session_def session_wf_def)
    show ?thesis
    proof (cases r)
      case (Ok u)
      let ?h = "h\<lparr>client_session := s,
          handler_pc := (case new of Some r \<Rightarrow> HandlerStartPoller r | None \<Rightarrow> HandlerUpdate)\<rparr>"
      have eq: "h' = ?h" "g' = g" "sp = None"
        using go rs Ok HandlerRelayOpen by (auto simp: handler_continue_def relay_open_message_def)
      moreover have "handler_wf i ?h" using wf' by (auto simp: handler_wf_def split: option.split)
      ultimately show ?thesis using HandlerRelayOpen rs Ok same by (intro relayed) auto
    next
      case (Err e)
      obtain q g2 where q: "remove_client c k g = (q, g2)" by fastforce
      have g2: "g2 = snd (remove_client_if_exists c k g)"
        using remove_client_state [of c k g] q by simp
      from remove_client_result [of c k g] q
      have "\<exists>r. ((\<exists>e. r = Err e) \<or> r = Panic ''Client key not found in poller state'') \<and>
          h' = h\<lparr>client_session := s, handler_pc := HandlerDone r\<rparr> \<and> g' = g2 \<and> sp = None"
        using go rs Err HandlerRelayOpen wf'(4)
        by (auto simp: handler_continue_def relay_open_message_def end_task_no_sender)
      then obtain r' where r': "(\<exists>e. r' = Err e) \<or> r' = Panic ''Client key not found in poller state''"
        "h' = h\<lparr>client_session := s, handler_pc := HandlerDone r'\<rparr>" "g' = g2" "sp = None" by blast
      moreover from r'(2) wf' have "handler_wf i h'" by (simp add: handler_wf_def)
      ultimately show ?thesis using HandlerRelayOpen g2 rs Err same by (intro relay_failed) auto
    next
      case (Panic x)
      with relay_client_message_Panic [of env m "client_session h" x] rs wf HandlerRelayOpen
      show ?thesis by (auto simp: handler_wf_def)
    qed
  next
    case (HandlerStartPoller r)
    with wf swf obtain c where c: "canister_id (client_session h) = Some c"
      using session_wf_known [OF swf] by (auto simp: handler_wf_def)
    have "h' = h\<lparr>handler_pc := HandlerUpdate\<rparr>" "g' = g"
      "sp = Some (poller_task_new (CanisterPoller_new c r (handler_polling_interval_ms (handler h))))"
      using go HandlerStartPoller c by (auto simp: handler_continue_def start_poller_def)
    moreover have "handler_wf i (h\<lparr>handler_pc := HandlerUpdate\<rparr>)"
      using wf HandlerStartPoller by (auto simp: handler_wf_def)
    ultimately show ?thesis using HandlerStartPoller c by (intro started) auto
  next
    case (HandlerWsClose c k r)
    have eq: "h' = end_task r (h\<lparr>client_session := call_ws_close c k (client_session h)\<rparr>)" "g' = g" "sp = None"
      using go HandlerWsClose by (auto simp: handler_continue_def)
    moreover have "handler_wf i h'"
      using swf by (simp add: eq handler_wf_def call_ws_close_def session_wf_def
          split: IcWsSessionState.splits)
    ultimately show ?thesis using HandlerWsClose by (intro ws_closed) auto
  qed (simp_all add: handler_continue_def)
qed

text \<open>A new handler: it waits for its session in Init, or its task has already ended.\<close>

lemma session_init_frame:
  "same_session \<lparr>client_id = i, client_key = None, canister_id = None, session_state = Init,
      ws_write = [], started_calls = []\<rparr> (snd (ClientSession_init env i q))"
  (is "same_session ?s _")
proof (cases "serialize (self_describe env) (cbor_handshake env \<lparr>gateway_principal = q\<rparr>)")
  case (Inr b)
  obtain r t where rt: "send_ws_message_to_client env (Binary b) ?s = (r, t)" by fastforce
  with send_frame(1) [of ?s env "Binary b"] have "same_session ?s t" by simp
  with Inr rt show ?thesis by (simp add: ClientSession_init_def split: outcome.split)
qed (simp add: ClientSession_init_def)

lemma start_session_cases:
  assumes "h = start_session env accepted p sh"
  obtains (running) "handler_pc h = HandlerUpdate" "session_state (client_session h) = Init"
      "client_channel_tx h = Some (handler_id sh)" "client_key (client_session h) = None"
      "canister_id (client_session h) = None" "handler_wf (handler_id sh) h"
  | (ended) r where "handler_pc h = HandlerDone r" "client_channel_tx h = None"
      "client_key (client_session h) = None" "canister_id (client_session h) = None"
      "handler_wf (handler_id sh) h"
proof -
  let ?ended = "\<lambda>r s. \<lparr>handler = sh, handler_pc = HandlerDone r, client_session = s, client_channel_tx = None\<rparr>"
  have e: thesis
    if "h = ?ended r s" "client_key s = None" "canister_id s = None" "session_state s = Init" for r s
    using that by (intro ended) (auto simp: handler_wf_def session_wf_def)
  show ?thesis
  proof (cases accepted)
    case (Inl x)
    with assms show ?thesis by (intro e) (auto simp: start_session_def Let_def)
  next
    case acc: (Inr u)
    show ?thesis
    proof (cases p)
      case (Inl x)
      with acc assms show ?thesis by (intro e) (auto simp: start_session_def Let_def)
    next
      case (Inr q)
      obtain r s where rs: "ClientSession_init env (handler_id sh) q = (r, s)" by fastforce
      with session_init_frame [of "handler_id sh" env q]
      have s: "client_key s = None" "canister_id s = None" "session_state s = Init"
        by (auto simp: same_session_def)
      show ?thesis
      proof (cases r)
        case (Ok v)
        with acc Inr rs s assms show ?thesis
          by (intro running) (auto simp: start_session_def Let_def handler_wf_def session_wf_def)
      qed (use acc Inr rs s assms in \<open>auto simp: start_session_def Let_def intro!: e\<close>)
    qed
  qed
qed

section \<open>Properties\<close>

text \<open>
  C16: a client is registered before its first message is relayed. The step in which a session is set
  up makes no call to the canister; it puts the sender of the handler's own channel under the
  client's key into the poller state of the canister the client named, and hands out a new poller
  state exactly when the canister was not polled. Only the next step relays the message.
\<close>

theorem registers_before_relaying:
  assumes "handler_wf i h" and "handler_pc h = HandlerUpdate"
    and "handler_update env ev h g = (h', g')" and "handler_pc h' = HandlerRelayOpen c k m new"
  shows "started_calls (client_session h') = started_calls (client_session h) \<and>
         (\<exists>r. dm_get (data g') c = Some r \<and> dm_get (arcs g' r) k = Some \<lparr>sender = i\<rparr> \<and>
            (new = (if dm_get (data g) c = None then Some r else None))) \<and>
         client_channel_tx h' = None"
  using assms(1,2,3)
proof (cases rule: handler_update_cases)
  case (register s c' k' m' new')
  have eq: "c' = c" "k' = k" "new' = new" using assms(4) unfolding register(4) by auto
  show ?thesis
  proof (cases "dm_get (data g) c")
    case None
    from insert_when_vacant [OF this, of k i] register eq None show ?thesis
      by (intro conjI exI [of _ "next_arc g"]) simp_all
  next
    case (Some r)
    from insert_when_polled [OF this, of k i] register eq Some show ?thesis
      by (intro conjI exI [of _ r]) simp_all
  qed
qed (use assms(2,4) in auto)

text \<open>
  A client that goes away before it has opened its session makes its handler panic. If the first
  thing a session in Init gets is a close message or a read error, the handler looks for the canister
  of a client it does not know; the gateway state is not touched.
\<close>

theorem early_end_panics:
  assumes "handler_wf i h" and "handler_pc h = HandlerUpdate"
    and "session_state (client_session h) = Init"
    and "case u of Inl _ \<Rightarrow> True | Inr m \<Rightarrow> is_close m"
  shows "handler_update env (ClientUpdate u) h g =
           (end_task (Panic ''must be set during Setup'')
              (h\<lparr>client_session := (client_session h)\<lparr>session_state := Closed\<rparr>\<rparr>), g)"
proof -
  let ?s = "client_session h"
  have none: "canister_id ?s = None" using session_wf_Init [OF handler_wfD [OF assms(1)] assms(3)] by simp
  have "(\<exists>e. \<not> poller_error e \<and> try_update_state env (ClientUpdate u) ?s =
          (Err e, ?s\<lparr>session_state := Closed\<rparr>)) \<or>
        try_update_state env (ClientUpdate u) ?s = (Ok (Some Closed), ?s\<lparr>session_state := Closed\<rparr>)"
    using assms(3,4) by (cases u) (auto simp: try_update_state_eq)
  then show ?thesis
  proof
    assume "\<exists>e. \<not> poller_error e \<and> try_update_state env (ClientUpdate u) ?s =
          (Err e, ?s\<lparr>session_state := Closed\<rparr>)"
    then show ?thesis using none by (auto simp: handler_update_def handle_update_def handle_early)
  qed (simp add: handler_update_def handle_update_def handle_early none)
qed

text \<open>
  C30: what an error of a session whose client is known leads to. After a failed poller the gateway
  state is left alone and the handler ends; otherwise the client is removed, and if it was there the
  handler goes on to tell the canister before it returns the error; if it was not, it returns the
  error at once. None of this can panic.
\<close>

theorem session_error_cleans_up:
  assumes "handler_wf i h" and "handler_pc h = HandlerUpdate"
    and "canister_id (client_session h) = Some c" and "client_key (client_session h) = Some k"
    and "try_update_state env ev (client_session h) = (Err e, t)"
  shows "handler_update env ev h g =
           (case e of
              Poller m \<Rightarrow> (end_task (Err (''Poller error: '' @ debug_str m)) (h\<lparr>client_session := t\<rparr>), g)
            | _ \<Rightarrow>
                if \<exists>r cs. dm_get (data g) c = Some r \<and> dm_get (arcs g r) k = Some cs
                then (h\<lparr>client_session := t,
                        handler_pc := HandlerWsClose c k
                          (Err (''Client session error: '' @ debug_ic_ws_error e))\<rparr>,
                      snd (remove_client_if_exists c k g))
                else (end_task (Err (''Client error before session Setup: '' @ debug_ic_ws_error e))
                        (h\<lparr>client_session := t\<rparr>), g))"
proof -
  note swf = handler_wfD [OF assms(1)]
  have t: "canister_id t = Some c" "client_key t = Some k"
    using session_step_identity [OF swf, of env ev] assms(3-5) by auto
  have up: "handler_update env ev h g =
      (goto (fst (handle_error e t g)) (h\<lparr>client_session := t\<rparr>), snd (handle_error e t g))"
    using assms(5) by (simp add: handler_update_def handle_update_def split_beta)
  have rm: "remove_client_if_exists c k g =
      (if \<exists>r cs. dm_get (data g) c = Some r \<and> dm_get (arcs g r) k = Some cs
       then (Removed k, snd (remove_client_if_exists c k g)) else (Vacant, g))"
    by (auto simp: remove_client_if_exists_def split: option.split)
  show ?thesis
  proof (cases "poller_error e")
    case True
    then show ?thesis by (cases e) (simp_all add: up)
  next
    case False
    have eq: "handle_error e t g =
        (if \<exists>r cs. dm_get (data g) c = Some r \<and> dm_get (arcs g r) k = Some cs
         then (Ok (HandlerWsClose c k (Err (''Client session error: '' @ debug_ic_ws_error e))),
               snd (remove_client_if_exists c k g))
         else (Err (''Client error before session Setup: '' @ debug_ic_ws_error e), g))"
    proof (cases "\<exists>r cs. dm_get (data g) c = Some r \<and> dm_get (arcs g r) k = Some cs")
      case True
      then have "fst (remove_client_if_exists c k g) = Removed k" using rm by (metis fst_conv)
      with True handle_error_known [OF t False, of g] show ?thesis by (intro prod_eqI) simp_all
    next
      case vacant: False
      then have "remove_client_if_exists c k g = (Vacant, g)" using rm by metis
      with vacant handle_error_known [OF t False, of g] show ?thesis
        by (simp only: if_False) (simp add: prod_eq_iff)
    qed
    show ?thesis
      unfolding case_not_poller [OF False] up eq
      by (cases "\<exists>r cs. dm_get (data g) c = Some r \<and> dm_get (arcs g r) k = Some cs")
        (simp_all only: if_True if_False fst_conv snd_conv goto_simps)
  qed
qed

text \<open>
  C29: a close message of a registered client ends its session in order: the client is removed from
  the poller state of its canister first, then the canister is told once, and the handler returns
  without an error.
\<close>

theorem close_cleans_up:
  assumes "handler_wf i h" and "handler_pc h = HandlerUpdate"
    and "canister_id (client_session h) = Some c" and "client_key (client_session h) = Some k"
    and "is_close m" and "dm_get (data g) c = Some r" and "dm_get (arcs g r) k \<noteq> None"
  shows "\<exists>h1 g1 h2. handler_update env (ClientUpdate (Inr m)) h g = (h1, g1) \<and>
           remove_client c k g = (Ok (), g1) \<and> dm_get (arcs g1 r) k = None \<and>
           started_calls (client_session h1) = started_calls (client_session h) \<and>
           handler_continue env' h1 g1 = Some (h2, g1, None) \<and>
           handler_pc h2 = HandlerDone (Ok ()) \<and>
           started_calls (client_session h2) = started_calls (client_session h) @ [WsClose c k]"
proof -
  have "session_state (client_session h) \<noteq> Closed" using assms(1,2) by (auto simp: handler_wf_def)
  with assms(5) have up: "try_update_state env (ClientUpdate (Inr m)) (client_session h) =
      (Ok (Some Closed), (client_session h)\<lparr>session_state := Closed\<rparr>)"
    by (simp add: try_update_state_eq)
  obtain g1 where rm: "remove_client c k g = (Ok (), g1)" "dm_get (arcs g1 r) k = None"
    using assms(6,7) by (auto simp: remove_client_def)
  let ?h1 = "h\<lparr>client_session := (client_session h)\<lparr>session_state := Closed\<rparr>,
               handler_pc := HandlerWsClose c k (Ok ())\<rparr>"
  have "handler_update env (ClientUpdate (Inr m)) h g = (?h1, g1)"
    using assms(3,4) rm(1) by (simp add: handler_update_def handle_update_def handle_closed_def up)
  moreover have "handler_continue env' ?h1 g1 =
      Some (end_task (Ok ()) (?h1\<lparr>client_session := call_ws_close c k (client_session ?h1)\<rparr>), g1, None)"
    by (simp add: handler_continue_def)
  ultimately show ?thesis using rm by (auto simp: call_ws_close_def)
qed

section \<open>Witnesses\<close>

definition mock_handler :: handler_task where
  "mock_handler =
     \<lparr>handler = ClientSessionHandler_new 7 100, handler_pc = HandlerUpdate,
      client_session = mock_session, client_channel_tx = Some 7\<rparr>"

definition mock_open_handler :: handler_task where
  "mock_open_handler =
     \<lparr>handler = ClientSessionHandler_new 7 100, handler_pc = HandlerUpdate,
      client_session = mock_session\<lparr>canister_id := Some (Principal [4]),
        client_key := Some (ClientKey_new (Principal [1]) 9), session_state := Open\<rparr>,
      client_channel_tx = None\<rparr>"

lemma mock_handler_wf [simp]: "handler_wf 7 mock_handler" "handler_wf 7 mock_open_handler"
  by (simp_all add: handler_wf_def mock_handler_def mock_open_handler_def mock_session_def session_wf_def)

lemma mock_handler_sel [simp]:
  "handler_pc mock_handler = HandlerUpdate" "handler_pc mock_open_handler = HandlerUpdate"
  "session_state (client_session mock_handler) = Init"
  "canister_id (client_session mock_open_handler) = Some (Principal [4])"
  "client_key (client_session mock_open_handler) = Some (ClientKey_new (Principal [1]) 9)"
  by (simp_all add: mock_handler_def mock_open_handler_def mock_session_def)

theorem registers_before_relaying_witness:
  "\<exists>h' g'. handler_update mock_session_env (ClientUpdate (Inr (Binary [5]))) mock_handler GatewayState_new =
     (h', g') \<and> dm_get (data g') (Principal [4]) \<noteq> None"
proof -
  obtain h' g' where up: "handler_update mock_session_env (ClientUpdate (Inr (Binary [5]))) mock_handler
      GatewayState_new = (h', g')" by fastforce
  then have "\<exists>new. handler_pc h' = HandlerRelayOpen (Principal [4]) (ClientKey_new (Principal [1]) 9) (Binary [5]) new"
    by (auto simp: handler_update_def mock_handler_def mock_setup handle_update_def register_client_def
        expect_def split_beta Let_def)
  then obtain new where "handler_pc h' =
      HandlerRelayOpen (Principal [4]) (ClientKey_new (Principal [1]) 9) (Binary [5]) new" by blast
  from registers_before_relaying [OF mock_handler_wf(1) mock_handler_sel(1) up this] up show ?thesis by auto
qed

theorem early_end_panics_witness:
  "handler_pc (fst (handler_update mock_session_env (ClientUpdate (Inr (Close None))) mock_handler
     GatewayState_new)) = HandlerDone (Panic ''must be set during Setup'')"
  using early_end_panics [OF mock_handler_wf(1) mock_handler_sel(1,3), of "Inr (Close None)"
      mock_session_env GatewayState_new] by simp

theorem session_error_cleans_up_witness:
  "snd (handler_update mock_session_env (ClientUpdate (Inl ''reset'')) mock_open_handler GatewayState_new) =
     GatewayState_new"
proof -
  have "try_update_state mock_session_env (ClientUpdate (Inl ''reset'')) (client_session mock_open_handler) =
      (Err (WebSocket (''Error receiving message from client: '' @ ''reset'')),
       (client_session mock_open_handler)\<lparr>session_state := Closed\<rparr>)"
    by (simp add: try_update_state_eq)
  from session_error_cleans_up [OF mock_handler_wf(2) mock_handler_sel(2,4,5) this, of GatewayState_new]
  show ?thesis by (simp add: GatewayState_new_def)
qed

theorem close_cleans_up_witness:
  "\<exists>g. \<exists>h1 g1. handler_update mock_session_env (ClientUpdate (Inr (Close None))) mock_open_handler g =
     (h1, g1) \<and> dm_get (arcs g1 0) (ClientKey_new (Principal [1]) 9) = None"
proof -
  let ?g = "snd (insert_client_channel_and_get_new_poller_state (Principal [4])
      (ClientKey_new (Principal [1]) 9) 7 GatewayState_new)"
  have g: "dm_get (data ?g) (Principal [4]) = Some 0" "dm_get (arcs ?g 0) (ClientKey_new (Principal [1]) 9) \<noteq> None"
    by (simp_all add: insert_client_channel_and_get_new_poller_state_def GatewayState_new_def Let_def)
  have "is_close (Close None)" by simp
  from close_cleans_up [OF mock_handler_wf(2) mock_handler_sel(2,4,5) this g] show ?thesis by blast
qed

end
