(* ===== verification/Canister_Poller_Props.thy ===== *)
theory Canister_Poller_Props
  imports Canister_Poller
begin

text \<open>
  What the poller guarantees: the nonces it accepts, the order in which it relays messages, how
  long it sleeps, and that every iteration comes to an end.
\<close>

section \<open>Nonces\<close>

lemma get_nonce_last:
  "get_nonce_from_message key =
     (case parse_u64 (last (str_split (CHR ''_'') key)) of
        Inl e \<Rightarrow> Inl (''Could not parse nonce. Error: '' @ debug_parse_error e)
      | Inr n \<Rightarrow> Inr n)"
  by (simp add: get_nonce_from_message_def iter_last_Some)

lemma get_nonce_from_message_suffix:
  "CHR ''_'' \<notin> set s \<Longrightarrow>
     get_nonce_from_message (pre @ CHR ''_'' # s) = get_nonce_from_message s"
  by (simp add: get_nonce_last last_str_split_append)

lemma get_nonce_from_message_show [simp]:
  "get_nonce_from_message (pre @ CHR ''_'' # show_u64 n) = Inr n"
proof -
  have "get_nonce_from_message (show_u64 n) = Inr n"
    by (simp add: get_nonce_last str_split_none [OF show_u64_no_underscore])
  then show ?thesis by (simp only: get_nonce_from_message_suffix [OF show_u64_no_underscore])
qed

text \<open>The messages carry the nonces of a list, one each.\<close>

definition has_nonces :: "CanisterOutputMessage list \<Rightarrow> u64 list \<Rightarrow> bool" where
  "has_nonces ms ns = list_all2 (\<lambda>m n. get_nonce_from_message (out_key m) = Inr n) ms ns"

lemma has_nonces_Nil [simp]: "has_nonces [] ns \<longleftrightarrow> ns = []"
  by (simp add: has_nonces_def)

lemma has_nonces_Cons:
  "has_nonces (m # ms) ns \<longleftrightarrow>
     (\<exists>n ns'. ns = n # ns' \<and> get_nonce_from_message (out_key m) = Inr n \<and> has_nonces ms ns')"
  by (simp add: has_nonces_def list_all2_Cons1)

lemma has_nonces_length: "has_nonces ms ns \<Longrightarrow> length ms = length ns"
  by (simp add: has_nonces_def list_all2_lengthD)

text \<open>Consecutive nonces from \<open>n\<close> on.\<close>

fun nonces_from :: "u64 \<Rightarrow> nat \<Rightarrow> u64 list" where
  "nonces_from n 0 = []"
| "nonces_from n (Suc k) = n # nonces_from (n + 1) k"

lemma length_nonces_from [simp]: "length (nonces_from n k) = k"
  by (induction k arbitrary: n) auto

lemma nth_nonces_from: "i < k \<Longrightarrow> nonces_from n k ! i = n + of_nat i"
  by (induction k arbitrary: n i) (auto simp: nth_Cons' algebra_simps)

lemma unat_u64_succ: "unat (n :: u64) + 1 < 2 ^ 64 \<Longrightarrow> unat (n + 1) = unat n + 1"
  by (simp add: unat_word_ariths)

lemma u64_succ_ne_0:
  assumes "unat (n :: u64) + 1 < 2 ^ 64"
  shows "n + 1 \<noteq> 0"
proof
  assume "n + 1 = 0"
  then have "unat (n + 1) = 0" by simp
  with unat_u64_succ [OF assms] show False by simp
qed

text \<open>Once a nonce is expected, the loop accepts exactly the consecutive nonces from it on.\<close>

lemma update_nonce_loop_expected:
  assumes "has_nonces ms ns" and "nxt \<noteq> 0" and "unat nxt + length ms \<le> 2 ^ 64"
  shows "fst (update_nonce_loop nxt ms) = Inr () \<longleftrightarrow> ns = nonces_from nxt (length ms)"
    and "ns = nonces_from nxt (length ms) \<Longrightarrow>
           snd (update_nonce_loop nxt ms) = nxt + of_nat (length ms)"
proof -
  have "(fst (update_nonce_loop nxt ms) = Inr () \<longleftrightarrow> ns = nonces_from nxt (length ms)) \<and>
      (ns = nonces_from nxt (length ms) \<longrightarrow>
         snd (update_nonce_loop nxt ms) = nxt + of_nat (length ms))"
    using assms
  proof (induction ms arbitrary: nxt ns)
    case Nil
    then show ?case by simp
  next
    case (Cons m ms)
    from Cons.prems(1) obtain n ns' where ns: "ns = n # ns'"
      and n: "get_nonce_from_message (out_key m) = Inr n" and ns': "has_nonces ms ns'"
      by (auto simp: has_nonces_Cons)
    show ?case
    proof (cases "n = nxt")
      case False
      with Cons.prems(2) show ?thesis by (simp add: ns n)
    next
      case True
      show ?thesis
      proof (cases "ms = []")
        case True
        with \<open>n = nxt\<close> ns' show ?thesis by (simp add: ns n)
      next
        case False
        with Cons.prems(3) have "unat nxt + 1 < 2 ^ 64"
          by (cases ms) auto
        with Cons.prems(3) have "nxt + 1 \<noteq> 0" "unat (nxt + 1) + length ms \<le> 2 ^ 64"
          by (simp_all add: u64_succ_ne_0 unat_u64_succ)
        from Cons.IH [OF ns' this] \<open>n = nxt\<close> show ?thesis
          by (auto simp: ns n algebra_simps)
      qed
    qed
  qed
  then show "fst (update_nonce_loop nxt ms) = Inr () \<longleftrightarrow> ns = nonces_from nxt (length ms)"
    and "ns = nonces_from nxt (length ms) \<Longrightarrow>
           snd (update_nonce_loop nxt ms) = nxt + of_nat (length ms)"
    by auto
qed

text \<open>The nonce the first message of an output must carry: any nonce, for a poller that just started.\<close>

definition first_nonce :: "CanisterPoller \<Rightarrow> u64 list \<Rightarrow> u64" where
  "first_nonce p ns = (if next_message_nonce p = 0 then hd ns else next_message_nonce p)"

lemma update_nonce_loop_first:
  assumes "has_nonces ms ns" and "ms \<noteq> []" and "unat (first_nonce p ns) + length ms \<le> 2 ^ 64"
  shows "fst (update_nonce_loop (next_message_nonce p) ms) = Inr () \<longleftrightarrow>
           ns = nonces_from (first_nonce p ns) (length ms)"
    and "ns = nonces_from (first_nonce p ns) (length ms) \<Longrightarrow>
           snd (update_nonce_loop (next_message_nonce p) ms) =
             first_nonce p ns + of_nat (length ms)"
proof -
  let ?nxt = "next_message_nonce p"
  have "(fst (update_nonce_loop ?nxt ms) = Inr () \<longleftrightarrow> ns = nonces_from (first_nonce p ns) (length ms)) \<and>
      (ns = nonces_from (first_nonce p ns) (length ms) \<longrightarrow>
         snd (update_nonce_loop ?nxt ms) = first_nonce p ns + of_nat (length ms))"
  proof (cases "?nxt = 0")
    case False
    with update_nonce_loop_expected [OF assms(1) False] assms(3) show ?thesis
      by (simp add: first_nonce_def)
  next
    case True
    obtain m ms' where ms: "ms = m # ms'" using assms(2) by (cases ms) auto
    with assms(1) obtain n ns' where ns: "ns = n # ns'"
      and n: "get_nonce_from_message (out_key m) = Inr n" and ns': "has_nonces ms' ns'"
      by (auto simp: has_nonces_Cons)
    have first: "first_nonce p ns = n" using True by (simp add: first_nonce_def ns)
    show ?thesis
    proof (cases "ms' = []")
      case True
      with ns' \<open>?nxt = 0\<close> first show ?thesis by (simp add: ms ns n)
    next
      case False
      with assms(3) first have "unat n + 1 < 2 ^ 64" by (cases ms') (auto simp: ms)
      with assms(3) first have "n + 1 \<noteq> 0" "unat (n + 1) + length ms' \<le> 2 ^ 64"
        by (simp_all add: u64_succ_ne_0 unat_u64_succ ms)
      from update_nonce_loop_expected [OF ns' this] \<open>?nxt = 0\<close> first show ?thesis
        by (auto simp: ms ns n algebra_simps)
    qed
  qed
  then show "fst (update_nonce_loop ?nxt ms) = Inr () \<longleftrightarrow> ns = nonces_from (first_nonce p ns) (length ms)"
    and "ns = nonces_from (first_nonce p ns) (length ms) \<Longrightarrow>
           snd (update_nonce_loop ?nxt ms) = first_nonce p ns + of_nat (length ms)"
    by auto
qed

lemma update_nonce_sel [simp]:
  "fst (update_nonce out p) = fst (update_nonce_loop (next_message_nonce p) (messages out))"
  "snd (update_nonce out p) =
     p\<lparr>next_message_nonce := snd (update_nonce_loop (next_message_nonce p) (messages out))\<rparr>"
  by (simp_all add: update_nonce_def split_beta)

lemma has_nonces_Suc_form:
  "has_nonces ms ns \<Longrightarrow> ms \<noteq> [] \<Longrightarrow> nonces_from a (length ms) = ns \<Longrightarrow>
     get_nonce_from_message (out_key (hd ms)) = Inr a"
  by (cases ms) (auto simp: has_nonces_Cons)

text \<open>
  The key of a message is some prefix, an underscore and the nonce in decimal; the nonce is read
  back from any such key, whatever the prefix (which may hold underscores and digits itself), and a
  key is accepted exactly when what follows its last underscore is a decimal number, with an
  optional plus sign, below two to the 64.
\<close>

theorem nonce_roundtrip:
  "get_nonce_from_message (pre @ ''_'' @ show_u64 n) = Inr n \<and>
   ((get_nonce_from_message key = Inr v) =
      (\<exists>ds. (last (str_split (CHR ''_'') key) = ds \<or> last (str_split (CHR ''_'') key) = CHR ''+'' # ds)
         \<and> ds \<noteq> [] \<and> dec_value 0 ds = Some (unat v)))"
proof -
  have "get_nonce_from_message key = Inr v \<longleftrightarrow>
      parse_u64 (last (str_split (CHR ''_'') key)) = Inr v"
    by (simp add: get_nonce_last split: sum.splits)
  then show ?thesis by (simp add: parse_u64_Inr_iff)
qed

text \<open>The nonce that is expected when message \<open>i\<close> is read: the one after the nonce before it.\<close>

definition expected_nonce :: "u64 \<Rightarrow> u64 list \<Rightarrow> nat \<Rightarrow> u64" where
  "expected_nonce next_nonce ns i = (case i of 0 \<Rightarrow> next_nonce | Suc j \<Rightarrow> ns ! j + 1)"

lemma expected_nonce_Cons: "expected_nonce next_nonce (n # ns) (Suc i) = expected_nonce (n + 1) ns i"
  by (cases i) (simp_all add: expected_nonce_def)

lemma update_nonce_loop_accepts:
  "update_nonce_loop next_nonce ms = (Inr (), n') \<longleftrightarrow>
     (\<exists>ns. has_nonces ms ns \<and> (\<forall>i < length ns. expected_nonce next_nonce ns i \<in> {0, ns ! i}) \<and>
        n' = expected_nonce next_nonce ns (length ns))"
proof (induction ms arbitrary: next_nonce)
  case Nil
  then show ?case by (auto simp: expected_nonce_def)
next
  case (Cons m ms)
  have step: "(\<forall>i < length (n # ns). expected_nonce next_nonce (n # ns) i \<in> {0, (n # ns) ! i}) \<longleftrightarrow>
      next_nonce \<in> {0, n} \<and> (\<forall>i < length ns. expected_nonce (n + 1) ns i \<in> {0, ns ! i})" for n ns
    unfolding length_Cons All_less_Suc2 by (simp add: expected_nonce_Cons) (simp add: expected_nonce_def)
  show ?case
  proof (cases "get_nonce_from_message (out_key m)")
    case (Inr n)
    have first: "(\<exists>ns. has_nonces ms ns \<and> P (n # ns)) \<longleftrightarrow> (\<exists>ns. has_nonces (m # ms) ns \<and> P ns)" for P
      using Inr by (auto simp: has_nonces_Cons)
    from Inr have "update_nonce_loop next_nonce (m # ms) = (Inr (), n') \<longleftrightarrow>
        next_nonce \<in> {0, n} \<and> update_nonce_loop (n + 1) ms = (Inr (), n')" by auto
    also have "\<dots> \<longleftrightarrow> (\<exists>ns. has_nonces ms ns \<and>
        (\<forall>i < length (n # ns). expected_nonce next_nonce (n # ns) i \<in> {0, (n # ns) ! i}) \<and>
        n' = expected_nonce next_nonce (n # ns) (length (n # ns)))"
      unfolding step Cons.IH by (auto simp: expected_nonce_Cons)
    also have "\<dots> \<longleftrightarrow> (\<exists>ns. has_nonces (m # ms) ns \<and>
        (\<forall>i < length ns. expected_nonce next_nonce ns i \<in> {0, ns ! i}) \<and>
        n' = expected_nonce next_nonce ns (length ns))"
      by (rule first)
    finally show ?thesis .
  qed (simp add: has_nonces_Cons)
qed

text \<open>Without a wrap of the nonces this means that they are consecutive.\<close>

lemma update_nonce_consecutive:
  assumes "has_nonces (messages out) ns" and "messages out \<noteq> []"
    and "unat (first_nonce p ns) + length ns \<le> 2 ^ 64"
  shows "(fst (update_nonce out p) = Inr ()) =
           (\<forall>i < length ns. ns ! i = first_nonce p ns + of_nat i) \<and>
         (fst (update_nonce out p) = Inr () \<longrightarrow>
            snd (update_nonce out p) = p\<lparr>next_message_nonce := first_nonce p ns + of_nat (length ns)\<rparr>)"
proof -
  have len: "length (messages out) = length ns" using assms(1) by (rule has_nonces_length)
  have "ns = nonces_from (first_nonce p ns) (length ns) \<longleftrightarrow>
      (\<forall>i < length ns. ns ! i = first_nonce p ns + of_nat i)"
    by (auto simp: list_eq_iff_nth_eq nth_nonces_from)
  moreover note update_nonce_loop_first [OF assms(1,2), of p] assms(3)
  ultimately show ?thesis by (simp only: update_nonce_sel len) simp
qed

text \<open>
  C15: which batches of messages a poller accepts. It accepts a batch exactly if every key holds a nonce,
  and each nonce is the one expected when its message is read: the next one of the poller for the first
  message, and the one after the nonce before it, modulo two to the 64, for the others; but where 0 is
  expected (by a poller that has not polled yet, or after the largest nonce) any nonce will do. Then the
  poller expects the nonce after the last one, and nothing else of it has changed. In particular, a
  batch that is not empty, whose keys hold nonces and which does not reach the largest nonce before its
  end, is accepted exactly if its nonces are consecutive from the first one expected.
\<close>

theorem update_nonce_accepts_consecutive:
  "(update_nonce out p = (Inr (), p')) =
     (\<exists>ns. has_nonces (messages out) ns \<and>
        (\<forall>i < length ns. expected_nonce (next_message_nonce p) ns i \<in> {0, ns ! i}) \<and>
        p' = p\<lparr>next_message_nonce := expected_nonce (next_message_nonce p) ns (length ns)\<rparr>) \<and>
   (has_nonces (messages out) ns \<and> messages out \<noteq> [] \<and> unat (first_nonce p ns) + length ns \<le> 2 ^ 64 \<longrightarrow>
      (fst (update_nonce out p) = Inr ()) = (\<forall>i < length ns. ns ! i = first_nonce p ns + of_nat i))"
proof
  have "update_nonce out p = (Inr (), p') \<longleftrightarrow>
      (\<exists>n'. update_nonce_loop (next_message_nonce p) (messages out) = (Inr (), n') \<and>
         p' = p\<lparr>next_message_nonce := n'\<rparr>)"
    by (auto simp: update_nonce_def split: prod.splits)
  then show "(update_nonce out p = (Inr (), p')) =
     (\<exists>ns. has_nonces (messages out) ns \<and>
        (\<forall>i < length ns. expected_nonce (next_message_nonce p) ns i \<in> {0, ns ! i}) \<and>
        p' = p\<lparr>next_message_nonce := expected_nonce (next_message_nonce p) ns (length ns)\<rparr>)"
    unfolding update_nonce_loop_accepts by blast
qed (use update_nonce_consecutive in blast)

text \<open>
  An output that was accepted once is rejected when the canister returns it again, with the
  error of a gap between the nonce expected and that of its first message.
\<close>

theorem replayed_output_rejected:
  assumes "has_nonces (messages out) ns" and "messages out \<noteq> []"
    and "unat (first_nonce p ns) + length ns < 2 ^ 64"
    and "fst (update_nonce out p) = Inr ()"
  shows "fst (update_nonce out (snd (update_nonce out p))) =
           Inl (non_consecutive_error (first_nonce p ns + of_nat (length ns)) (first_nonce p ns))"
proof -
  let ?a = "first_nonce p ns" and ?k = "length ns"
  have len: "length (messages out) = ?k" using assms(1) by (rule has_nonces_length)
  with assms(2) have k: "0 < ?k" by auto
  have "unat ?a + length (messages out) \<le> 2 ^ 64" using assms(3) len by simp
  note first = update_nonce_loop_first [OF assms(1,2) this]
  have ns: "ns = nonces_from ?a (length (messages out))" using first(1) assms(4) by simp
  have nxt: "snd (update_nonce_loop (next_message_nonce p) (messages out)) = ?a + of_nat ?k"
    using first(2) ns len by simp
  have hd: "get_nonce_from_message (out_key (hd (messages out))) = Inr ?a"
    using has_nonces_Suc_form [OF assms(1,2) ns [symmetric]] .
  have "unat (of_nat ?k :: u64) = ?k" using assms(3) by (simp add: unat_u64_of_nat)
  then have "unat (?a + of_nat ?k) = unat ?a + ?k"
    using assms(3) by (simp add: unat_word_ariths)
  then have "?a + of_nat ?k \<noteq> 0" "?a \<noteq> ?a + of_nat ?k" using k by (auto simp: unat_eq_zero)
  then have "fst (update_nonce_loop (?a + of_nat ?k) (messages out)) =
      Inl (non_consecutive_error (?a + of_nat ?k) ?a)"
    using hd assms(2) by (cases "messages out") auto
  then show ?thesis by (simp only: update_nonce_sel nxt) simp
qed

text \<open>
  The increment of the expected nonce wraps. After a message with the largest nonce the poller
  expects 0, which is also what a poller expects that has not polled yet, so it then takes any
  nonce.
\<close>

theorem nonce_wraps_around:
  "let p = CanisterPoller_new c st ms\<lparr>next_message_nonce := nxt\<rparr>;
       out = \<lparr>messages = [\<lparr>out_client_key = k, out_key = pre @ ''_'' @ show_u64 (- 1), out_content = b\<rparr>,
                          \<lparr>out_client_key = k', out_key = pre' @ ''_'' @ show_u64 n, out_content = b'\<rparr>],
              cert = crt, tree = tr, is_end_of_queue = eoq\<rparr>
   in fst (update_nonce out p) = (if nxt = 0 \<or> nxt = - 1 then Inr () else Inl (non_consecutive_error nxt (- 1)))"
  by (simp add: Let_def)

section \<open>One poll\<close>

text \<open>
  What one poll leads to, on every branch: an answer with messages is relayed if its nonces are
  accepted and fails the poller otherwise; an answer without messages and an error of a replica
  that may recover lead to a pause; a timeout leads to the next poll at once; every other error
  fails the poller. The expected nonce only moves when messages are accepted or a bad nonce fails
  the poller.
\<close>

theorem poll_outcomes:
  "poll_and_relay_start env p =
     (let (d, answer) = get_messages env (poller_canister_id p) \<lparr>get_nonce = next_message_nonce p\<rparr> in
      if 5 * 10 ^ 9 < d then \<lparr>poller = p, pc = PollerChecking\<rparr>
      else case answer of
        Inr out \<Rightarrow>
          if messages out = [] then \<lparr>poller = p, pc = PollerPolled\<rparr>
          else \<lparr>poller = snd (update_nonce out p),
                pc = (case fst (update_nonce out p) of
                        Inl e \<Rightarrow> PollerFailed e
                      | Inr _ \<Rightarrow> PollerRelaying (messages out) (cert out) (tree out)
                                   (is_end_of_queue out \<noteq> Some False))\<rparr>
      | Inl (Agent e) \<Rightarrow>
          \<lparr>poller = p, pc = (if is_recoverable_error e then PollerPolled
                           else PollerFailed (''Unrecoverable agent error: '' @ agent_error_debug env e))\<rparr>
      | Inl (Candid e) \<Rightarrow> \<lparr>poller = p, pc = PollerFailed (''Unrecoverable candid error: '' @ e)\<rparr>
      | Inl (Cdk e) \<Rightarrow> \<lparr>poller = p, pc = PollerFailed (''Unrecoverable CDK error: '' @ debug_str e)\<rparr>)"
proof -
  have limit: "from_millis POLLING_TIMEOUT_MS = 5 * 10 ^ 9"
    by (simp add: from_millis_def POLLING_TIMEOUT_MS_def)
  obtain d answer where call:
    "get_messages env (poller_canister_id p) \<lparr>get_nonce = next_message_nonce p\<rparr> = (d, answer)"
    by (rule prod.exhaust)
  have eoq: "(case b of None \<Rightarrow> True | Some x \<Rightarrow> x) = (b \<noteq> Some False)" for b
    by (cases b) auto
  show ?thesis
  proof (cases "5 * 10 ^ 9 < d")
    case True
    then show ?thesis
      by (simp add: poll_and_relay_start_def poll_canister_def timeout_def limit call)
  next
    case False
    then have t: "timeout (from_millis POLLING_TIMEOUT_MS) (d, a) = Some a" for a :: "IcError + _"
      by (simp add: timeout_def limit)
    show ?thesis
    proof (cases answer)
      case (Inr out)
      with False show ?thesis
        by (simp add: poll_and_relay_start_def poll_canister_def t Inr call eoq Let_def
            split_beta split: sum.split)
    next
      case (Inl e)
      with False show ?thesis
        by (cases e) (simp_all add: poll_and_relay_start_def poll_canister_def t Inl call)
    qed
  qed
qed

section \<open>Sleeping\<close>

text \<open>
  Computing the pause never panics; the pause is at most the polling interval, and it ends
  exactly one interval after the iteration started, or it is empty if the iteration took longer.
\<close>

theorem effective_interval_bounds:
  "\<exists>d. compute_effective_polling_interval p t = Some d \<and>
       d \<le> from_millis (polling_interval_ms p) \<and>
       t + d = max t (from_millis (polling_interval_ms p))"
  by (auto simp: compute_effective_polling_interval_def duration_sub_def Let_def from_millis_def max_def)

section \<open>Relaying\<close>

text \<open>The messages of a list that a poller state sends to one channel, as the client gets them.\<close>

definition delivered ::
  "PollerState \<Rightarrow> bytes \<Rightarrow> bytes \<Rightarrow> chan_id \<Rightarrow> CanisterOutputMessage list \<Rightarrow> CanisterToClientMessage list" where
  "delivered clients crt tr cid ms =
     map (to_client_message crt tr)
       (filter (\<lambda>m. dm_get clients (out_client_key m) = Some \<lparr>sender = cid\<rparr>) ms)"

lemma delivered_simps [simp]:
  "delivered clients crt tr cid [] = []"
  "delivered clients crt tr cid (ms @ ms') =
     delivered clients crt tr cid ms @ delivered clients crt tr cid ms'"
  by (simp_all add: delivered_def)

lemma ClientSender_eq_iff: "cs = \<lparr>sender = cid\<rparr> \<longleftrightarrow> sender cs = cid"
  by (cases cs) simp

lemma relay_message_Some:
  assumes "relay_message m tx chans = Some chans'"
  shows "rx_open (chans' cid) = rx_open (chans cid) \<and>
         queue (chans' cid) =
           queue (chans cid) @ (if cid = tx \<and> rx_open (chans cid) then [m] else [])"
proof -
  from assms obtain ok ch where send: "channel_send m (chans tx) = Some (ok, ch)"
    and "chans' = chans(tx := ch)"
    by (auto simp: relay_message_def split: option.splits)
  with channel_send_rx_open [OF send] channel_send_queue [OF send] show ?thesis by simp
qed

lemma relay_output_message_Some:
  assumes "relay_output_message clients crt tr m chans = Some chans'"
  shows "rx_open (chans' cid) = rx_open (chans cid) \<and>
         queue (chans' cid) =
           queue (chans cid) @ (if rx_open (chans cid) then delivered clients crt tr cid [m] else [])"
proof (cases "dm_get clients (out_client_key m)")
  case None
  with assms show ?thesis by (simp add: relay_output_message_def delivered_def)
next
  case (Some cs)
  with assms relay_message_Some [of "to_client_message crt tr m" "sender cs" chans chans' cid]
  show ?thesis by (auto simp: relay_output_message_def delivered_def ClientSender_eq_iff)
qed

lemma relay_output_message_None:
  "relay_output_message clients crt tr m chans = None \<longleftrightarrow>
     (\<exists>cs. dm_get clients (out_client_key m) = Some cs \<and> rx_open (chans (sender cs)) \<and>
        CHANNEL_CAPACITY \<le> length (queue (chans (sender cs))))"
  by (auto simp: relay_output_message_def relay_message_def channel_send_def split: option.splits)

text \<open>
  C23: relaying keeps the order. However far it gets before it has to wait, every open channel
  receives the messages for its client, and no others, in the order the canister put them, after
  what it held before; a closed channel and a channel of no client receive nothing; and it stops
  before the end only at a message whose channel is open and full.
\<close>

theorem relay_messages_in_order:
  "\<exists>sent. ms = sent @ fst (relay_messages clients crt tr ms chans) \<and>
     (\<forall>cid. queue (snd (relay_messages clients crt tr ms chans) cid) =
              queue (chans cid) @
                (if rx_open (chans cid) then delivered clients crt tr cid sent else []) \<and>
            rx_open (snd (relay_messages clients crt tr ms chans) cid) = rx_open (chans cid)) \<and>
     (case fst (relay_messages clients crt tr ms chans) of
        [] \<Rightarrow> True
      | m # _ \<Rightarrow> relay_output_message clients crt tr m (snd (relay_messages clients crt tr ms chans)) = None)"
proof (induction ms arbitrary: chans)
  case Nil
  then show ?case by simp
next
  case (Cons m ms)
  show ?case
  proof (cases "relay_output_message clients crt tr m chans")
    case None
    then show ?thesis by simp
  next
    case (Some chans')
    note step = relay_output_message_Some [OF Some]
    obtain sent where sent: "ms = sent @ fst (relay_messages clients crt tr ms chans')"
      and q: "\<forall>cid. queue (snd (relay_messages clients crt tr ms chans') cid) =
            queue (chans' cid) @ (if rx_open (chans' cid) then delivered clients crt tr cid sent else []) \<and>
          rx_open (snd (relay_messages clients crt tr ms chans') cid) = rx_open (chans' cid)"
      and stop: "case fst (relay_messages clients crt tr ms chans') of [] \<Rightarrow> True
          | m # _ \<Rightarrow> relay_output_message clients crt tr m (snd (relay_messages clients crt tr ms chans')) = None"
      using Cons.IH by blast
    have "delivered clients crt tr cid (m # sent) =
        delivered clients crt tr cid [m] @ delivered clients crt tr cid sent" for cid
      by (simp add: delivered_def)
    moreover have "relay_messages clients crt tr (m # ms) chans = relay_messages clients crt tr ms chans'"
      by (simp add: Some)
    ultimately show ?thesis
      using sent q stop step by (intro exI [of _ "m # sent"]) (simp only:, simp)
  qed
qed

section \<open>Every iteration ends\<close>

text \<open>Steps left in the current iteration, and the room its relaying needs in each channel.\<close>

fun steps_left :: "poller_pc \<Rightarrow> nat" where
  "steps_left (PollerRelaying ms _ _ _) = 4 + length ms"
| "steps_left PollerPolled = 3"
| "steps_left (PollerSleeping _) = 2"
| "steps_left PollerChecking = 1"
| "steps_left (PollerFailed _) = 1"
| "steps_left _ = 0"

fun relay_pending :: "poller_pc \<Rightarrow> nat" where
  "relay_pending (PollerRelaying ms _ _ _) = length ms"
| "relay_pending _ = 0"

lemma relay_output_message_room:
  assumes "\<forall>cid. has_room (Suc n) (chans cid)"
  shows "\<exists>chans'. relay_output_message clients crt tr m chans = Some chans' \<and>
           (\<forall>cid. has_room n (chans' cid))"
proof (cases "relay_output_message clients crt tr m chans")
  case None
  then show ?thesis using assms by (fastforce simp: relay_output_message_None has_room_def)
next
  case (Some chans')
  have "length (delivered clients crt tr cid [m]) \<le> 1" for cid
    by (simp add: delivered_def)
  then have "has_room n (chans' cid)" for cid
    using assms [rule_format, of cid] relay_output_message_Some [OF Some, of cid]
    by (auto simp: has_room_def intro: order_trans [rotated])
  with Some show ?thesis by blast
qed

lemma poller_step_progress:
  assumes "pc t \<noteq> PollerLoop" and "\<nexists>r. pc t = PollerDone r"
    and "\<forall>cid. has_room (relay_pending (pc t)) (chans cid)"
  shows "\<exists>t' g' chans'. poller_step env t g chans = Some (t', g', chans') \<and>
           steps_left (pc t') < steps_left (pc t) \<and>
           (\<forall>cid. has_room (relay_pending (pc t')) (chans' cid))"
proof (cases "pc t")
  case (PollerRelaying ms crt tr eoq)
  show ?thesis
  proof (cases ms)
    case Nil
    with PollerRelaying assms(3) show ?thesis
      by (cases eoq) (simp_all add: poller_step_def Let_def)
  next
    case (Cons m ms')
    with PollerRelaying assms(3) have "\<forall>cid. has_room (Suc (length ms')) (chans cid)" by simp
    from relay_output_message_room [OF this, of "arcs g (poller_state (poller t))" crt tr m]
    obtain chans' where "relay_output_message (arcs g (poller_state (poller t))) crt tr m chans = Some chans'"
      and "\<forall>cid. has_room (length ms') (chans' cid)" by blast
    with PollerRelaying Cons show ?thesis by (simp add: poller_step_def Let_def)
  qed
next
  case PollerPolled
  obtain d where "compute_effective_polling_interval (poller t) (elapsed env) = Some d"
    by (cases "from_millis (polling_interval_ms (poller t)) < elapsed env")
       (auto simp: compute_effective_polling_interval_def duration_sub_def Let_def)
  with PollerPolled assms(3) show ?thesis by (simp add: poller_step_def Let_def)
next
  case PollerChecking
  with assms(3) show ?thesis
    by (cases "poller_should_terminate (poller t) g"; cases "fst (poller_should_terminate (poller t) g)")
       (auto simp: poller_step_def Let_def)
next
  case (PollerFailed e)
  with assms(3) show ?thesis
    by (cases "remove_failed_canister (poller_canister_id (poller t)) g";
        cases "fst (remove_failed_canister (poller_canister_id (poller t)) g)")
       (auto simp: poller_step_def Let_def)
qed (use assms in \<open>auto simp: poller_step_def Let_def\<close>)

definition at_rest :: "poller_pc \<Rightarrow> bool" where
  "at_rest q \<longleftrightarrow> q = PollerLoop \<or> (\<exists>r. q = PollerDone r)"

lemma poller_run_to_rest:
  "\<forall>cid. has_room (relay_pending (pc t)) (chans cid) \<Longrightarrow>
     \<exists>n \<le> steps_left (pc t). at_rest (pc (fst (poller_run n envs (t, g, chans))))"
proof (induction "steps_left (pc t)" arbitrary: t g chans envs rule: less_induct)
  case less
  show ?case
  proof (cases "at_rest (pc t)")
    case True
    then show ?thesis by (intro exI [of _ 0]) simp
  next
    case False
    then have "pc t \<noteq> PollerLoop" "\<nexists>r. pc t = PollerDone r" by (auto simp: at_rest_def)
    from poller_step_progress [OF this less.prems] obtain t' g' chans'
      where step: "poller_step (envs 0) t g chans = Some (t', g', chans')"
        and left: "steps_left (pc t') < steps_left (pc t)"
        and room: "\<forall>cid. has_room (relay_pending (pc t')) (chans' cid)"
      by blast
    from less.hyps [OF left room, of "\<lambda>i. envs (Suc i)" g'] obtain n
      where "n \<le> steps_left (pc t')"
        and "at_rest (pc (fst (poller_run n (\<lambda>i. envs (Suc i)) (t', g', chans'))))"
      by blast
    with step left show ?thesis by (intro exI [of _ "Suc n"]) simp
  qed
qed

text \<open>
  C18: every polling iteration ends. If the channels have room for the messages this poll returns,
  then within five steps more than there are messages the poller is back at the top of its loop or
  its task has ended; it never gets stuck in between.
\<close>

theorem iteration_ends:
  assumes "pc t = PollerLoop"
    and "\<forall>cid. has_room (relay_pending (pc (poll_and_relay_start (envs 0) (poller t)))) (chans cid)"
  shows "\<exists>n \<le> 5 + relay_pending (pc (poll_and_relay_start (envs 0) (poller t))).
           0 < n \<and> at_rest (pc (fst (poller_run n envs (t, g, chans))))"
proof -
  let ?t1 = "poll_and_relay_start (envs 0) (poller t)"
  let ?c = "poller_canister_id (poller t)"
  let ?g1 = "set_clients_gauge ?c (dm_len (arcs g (poller_state (poller t)))) g"
  have step: "poller_step (envs 0) t g chans = Some (?t1, ?g1, chans)"
    by (simp add: poller_step_def Let_def assms(1))
  have left: "steps_left (pc ?t1) \<le> 4 + relay_pending (pc ?t1)" by (cases "pc ?t1") auto
  from poller_run_to_rest [OF assms(2), of "\<lambda>i. envs (Suc i)" ?g1] obtain n
    where "n \<le> steps_left (pc ?t1)"
      and "at_rest (pc (fst (poller_run n (\<lambda>i. envs (Suc i)) (?t1, ?g1, chans))))"
    by blast
  with step left show ?thesis by (intro exI [of _ "Suc n"]) simp
qed

section \<open>A canister that answers as documented\<close>

text \<open>
  The canister keeps a log of messages, the \<open>i\<close>-th with nonce \<open>i\<close>, and answers a poll from nonce
  \<open>n\<close> with some of the messages from the \<open>n\<close>-th on, in order, or not at all.
\<close>

definition canister_log :: "CanisterOutputMessage list \<Rightarrow> bool" where
  "canister_log log \<longleftrightarrow> length log < 2 ^ 64 \<and>
     (\<forall>i < length log. get_nonce_from_message (out_key (log ! i)) = Inr (of_nat i))"

definition answers_from :: "CanisterOutputMessage list \<Rightarrow> Principal \<Rightarrow> poller_env \<Rightarrow> bool" where
  "answers_from log c env \<longleftrightarrow>
     (\<forall>n out. snd (get_messages env c \<lparr>get_nonce = n\<rparr>) = Inr out \<longrightarrow>
        (\<exists>k. messages out = take k (drop (unat n) log)))"

text \<open>The messages a poller relays over a sequence of polls, until it fails.\<close>

fun poll_sequence ::
  "poller_env list \<Rightarrow> CanisterPoller \<Rightarrow> CanisterOutputMessage list \<times> CanisterPoller" where
  "poll_sequence [] p = ([], p)"
| "poll_sequence (env # envs) p =
     (let t = poll_and_relay_start env p in
      case pc t of
        PollerFailed e \<Rightarrow> ([], poller t)
      | PollerRelaying ms crt tr eoq \<Rightarrow>
          let (rest, p') = poll_sequence envs (poller t) in (ms @ rest, p')
      | _ \<Rightarrow> poll_sequence envs (poller t))"

lemma canister_log_nonces:
  assumes "canister_log log" and "n + length ms \<le> length log" and "ms = take (length ms) (drop n log)"
  shows "has_nonces ms (nonces_from (of_nat n) (length ms))"
proof -
  have "get_nonce_from_message (out_key (ms ! i)) = Inr (of_nat n + of_nat i)" if "i < length ms" for i
  proof -
    have "ms ! i = log ! (n + i)" using that assms(2,3) by (metis nth_take nth_drop add_leD1)
    with that assms(1,2) show ?thesis by (simp add: canister_log_def)
  qed
  then show ?thesis by (auto simp: has_nonces_def list_all2_conv_all_nth nth_nonces_from)
qed

text \<open>One poll of such a canister relays the next messages of the log, and only those.\<close>

lemma poll_from_log:
  assumes log: "canister_log log" and ans: "answers_from log (poller_canister_id p) env"
    and p: "next_message_nonce p = of_nat n" "n \<le> length log"
  shows "\<exists>k. n + k \<le> length log \<and>
           poller (poll_and_relay_start env p) = p\<lparr>next_message_nonce := of_nat (n + k)\<rparr> \<and>
           (case pc (poll_and_relay_start env p) of
              PollerRelaying ms _ _ _ \<Rightarrow> ms = take k (drop n log)
            | _ \<Rightarrow> k = 0)"
proof (cases "\<exists>ms crt tr eoq. pc (poll_and_relay_start env p) = PollerRelaying ms crt tr eoq \<or>
    (\<exists>out. poll_canister env p = Inr (MessagesPolled out))")
  case False
  then have "poller (poll_and_relay_start env p) = p"
    by (auto simp: poll_and_relay_start_def split: sum.splits PollingStatus.splits)
  with False p show ?thesis
    by (intro exI [of _ 0]) (auto split: poller_pc.splits)
next
  case True
  have n: "unat (of_nat n :: u64) = n"
    using log p(2) by (intro unat_u64_of_nat) (simp add: canister_log_def)
  obtain out where out: "poll_canister env p = Inr (MessagesPolled out)"
    using True by (auto simp: poll_and_relay_start_def split: sum.splits PollingStatus.splits)
  then have snd_out: "snd (get_messages env (poller_canister_id p) \<lparr>get_nonce = next_message_nonce p\<rparr>) = Inr out"
    and ne: "messages out \<noteq> []"
    by (auto simp: poll_canister_def timeout_def Let_def split: option.splits sum.splits IcError.splits if_splits)
  from ans snd_out obtain k0
    where "messages out = take k0 (drop (unat (next_message_nonce p)) log)"
    unfolding answers_from_def by blast
  then have k0: "messages out = take k0 (drop n log)" using p(1) n by simp
  define k where "k = length (messages out)"
  have k: "messages out = take k (drop n log)" "n + k \<le> length log" "0 < k"
    using k0 ne p(2) by (auto simp: k_def min_def)
  note ns = canister_log_nonces [OF log, of n "messages out", folded k_def, OF k(2,1)]
  have first: "first_nonce p (nonces_from (of_nat n) k) = of_nat n"
    using k(3) by (cases k) (auto simp: first_nonce_def p(1))
  have "unat (first_nonce p (nonces_from (of_nat n) k)) + length (messages out) \<le> 2 ^ 64"
    using log k(2) n by (simp only: first) (simp add: canister_log_def k_def)
  note upd = update_nonce_loop_first [OF ns ne this, unfolded first, folded k_def]
  have "update_nonce out p = (Inr (), p\<lparr>next_message_nonce := of_nat (n + k)\<rparr>)"
    using upd by (simp add: prod_eq_iff)
  with out k(1,2) show ?thesis
    by (intro exI [of _ k]) (simp add: poll_and_relay_start_def Let_def)
qed

lemma take_append_drop_take: "take n xs @ take k (drop n xs) = take (n + k) xs"
  by (simp add: take_add)

lemma poll_sequence_log:
  assumes "canister_log log"
  shows "\<forall>env \<in> set envs. answers_from log (poller_canister_id p) env \<Longrightarrow>
     next_message_nonce p = of_nat n \<Longrightarrow> n \<le> length log \<Longrightarrow>
     \<exists>n'. n \<le> n' \<and> n' \<le> length log \<and>
       take n log @ fst (poll_sequence envs p) = take n' log \<and>
       snd (poll_sequence envs p) = p\<lparr>next_message_nonce := of_nat n'\<rparr>"
proof (induction envs arbitrary: p n)
  case Nil
  then show ?case by (intro exI [of _ n]) simp
next
  case (Cons env envs)
  let ?t = "poll_and_relay_start env p"
  from poll_from_log [OF assms _ Cons.prems(2,3), of env] Cons.prems(1) obtain k
    where k: "n + k \<le> length log" "poller ?t = p\<lparr>next_message_nonce := of_nat (n + k)\<rparr>"
      and ms: "case pc ?t of PollerRelaying ms _ _ _ \<Rightarrow> ms = take k (drop n log) | _ \<Rightarrow> k = 0"
    by auto
  have "\<forall>env \<in> set envs. answers_from log (poller_canister_id (poller ?t)) env"
    and "next_message_nonce (poller ?t) = of_nat (n + k)"
    using Cons.prems(1) k(2) by simp_all
  from Cons.IH [OF this k(1)] obtain n' where n': "n + k \<le> n'" "n' \<le> length log"
    and rest: "take (n + k) log @ fst (poll_sequence envs (poller ?t)) = take n' log"
    and p': "snd (poll_sequence envs (poller ?t)) = poller ?t\<lparr>next_message_nonce := of_nat n'\<rparr>"
    by blast
  show ?case
  proof (cases "pc ?t")
    case (PollerFailed e)
    with k ms show ?thesis by (intro exI [of _ n]) (simp add: Let_def)
  next
    case (PollerRelaying qs crt tr eoq)
    with ms have "take n log @ qs = take (n + k) log" by (simp add: take_add)
    with PollerRelaying k n' rest p' show ?thesis
      by (intro exI [of _ n']) (simp add: Let_def split_beta flip: append_assoc)
  qed (use k ms n' rest p' in \<open>auto simp: Let_def intro!: exI [of _ n']\<close>)
qed

text \<open>
  C3: against a canister that answers as documented, whatever polls time out, fail in a way the
  poller survives, or come back short, the messages a new poller relays are a prefix of the
  canister's log: each message once, in order, none skipped; and the nonce it asks for next is the
  length of that prefix.
\<close>

theorem relays_log_exactly_once:
  assumes "canister_log log" and "\<forall>env \<in> set envs. answers_from log c env"
  shows "\<exists>n \<le> length log.
           fst (poll_sequence envs (CanisterPoller_new c st ms)) = take n log \<and>
           next_message_nonce (snd (poll_sequence envs (CanisterPoller_new c st ms))) = of_nat n"
proof -
  have "\<forall>env \<in> set envs. answers_from log (poller_canister_id (CanisterPoller_new c st ms)) env"
    and "next_message_nonce (CanisterPoller_new c st ms) = of_nat 0"
    using assms(2) by (simp_all add: CanisterPoller_new_def)
  from poll_sequence_log [OF assms(1) this] show ?thesis by auto
qed

section \<open>Witnesses\<close>

text \<open>The messages and the environment of the unit tests (\<open>tests/canister_poller.rs\<close>).\<close>

definition mock_message :: "u64 \<Rightarrow> CanisterOutputMessage" where
  "mock_message nonce =
     \<lparr>out_client_key = ClientKey_new (Principal [4]) 0, out_key = ''_'' @ show_u64 nonce,
      out_content = []\<rparr>"

definition mock_output :: "u64 list \<Rightarrow> CanisterOutputCertifiedMessages" where
  "mock_output ns =
     \<lparr>messages = map mock_message ns, cert = [], tree = [], is_end_of_queue = Some True\<rparr>"

definition mock_env :: "(u64 \<Rightarrow> CanisterOutputCertifiedMessages) \<Rightarrow> poller_env" where
  "mock_env answer =
     \<lparr>get_messages = (\<lambda>_ args. (0, Inr (answer (get_nonce args)))),
      agent_error_debug = (\<lambda>_. []), elapsed = 0\<rparr>"

definition mock_poller :: CanisterPoller where
  "mock_poller = CanisterPoller_new (Principal [4]) 0 100"

lemma mock_message_nonce [simp]: "get_nonce_from_message (out_key (mock_message n)) = Inr n"
  using get_nonce_from_message_show [of "[]" n] by (simp add: mock_message_def)

lemma has_nonces_mock [simp]: "has_nonces (map mock_message ns) ns"
  by (induction ns) (simp_all add: has_nonces_Cons)

lemma mock_sel [simp]:
  "messages (mock_output ns) = map mock_message ns"
  "next_message_nonce mock_poller = 0"
  "poller_canister_id mock_poller = Principal [4]"
  "get_messages (mock_env f) c args = (0, Inr (f (get_nonce args)))"
  by (simp_all add: mock_output_def mock_poller_def CanisterPoller_new_def mock_env_def)

lemma canister_log_mock: "k < 2 ^ 64 \<Longrightarrow> canister_log (map mock_message (nonces_from 0 k))"
  by (simp add: canister_log_def nth_nonces_from)

theorem update_nonce_accepts_consecutive_witness:
  "fst (update_nonce (mock_output [5, 6]) mock_poller) = Inr () \<and>
   fst (update_nonce (mock_output [5, 7]) mock_poller) \<noteq> Inr () \<and>
   update_nonce (mock_output [- 1, 7]) mock_poller = (Inr (), mock_poller\<lparr>next_message_nonce := 8\<rparr>)"
proof -
  have two: "(\<forall>i < Suc (Suc 0). P i) \<longleftrightarrow> P 0 \<and> P (Suc 0)" for P
    by (auto simp: less_Suc_eq)
  have "fst (update_nonce (mock_output [5, n]) mock_poller) = Inr () \<longleftrightarrow> n = 6" for n
    using update_nonce_accepts_consecutive [of "mock_output [5, n]" mock_poller mock_poller "[5, n]"]
    by (simp add: first_nonce_def two has_nonces_Cons del: update_nonce_sel)
  moreover have "has_nonces (map mock_message [- 1, 7]) [- 1, 7]" by (rule has_nonces_mock)
  then have "update_nonce (mock_output [- 1, 7]) mock_poller = (Inr (), mock_poller\<lparr>next_message_nonce := 8\<rparr>)"
    unfolding update_nonce_accepts_consecutive [THEN conjunct1]
    by (intro exI [of _ "[- 1, 7]"]) (simp add: expected_nonce_def two)
  ultimately show ?thesis by simp
qed

theorem replayed_output_rejected_witness:
  "fst (update_nonce (mock_output [0, 1]) (snd (update_nonce (mock_output [0, 1]) mock_poller))) =
     Inl (non_consecutive_error 2 0)"
proof -
  have "fst (update_nonce (mock_output [0, 1]) mock_poller) = Inr ()"
    by (simp)
  from replayed_output_rejected [OF _ _ _ this, of "[0, 1]"] show ?thesis
    by (simp add: first_nonce_def)
qed

theorem iteration_ends_witness:
  "\<exists>n \<le> 7. 0 < n \<and>
     at_rest (pc (fst (poller_run n (\<lambda>_. mock_env (\<lambda>_. mock_output [0, 1]))
       (poller_task_new mock_poller, GatewayState_new, \<lambda>_. no_channel))))"
proof -
  have "relay_pending (pc (poll_and_relay_start (mock_env (\<lambda>_. mock_output [0, 1])) mock_poller)) = 2"
    by (simp add: poll_and_relay_start_def poll_canister_def timeout_def update_nonce_def Let_def)
  then show ?thesis
    using iteration_ends [of "poller_task_new mock_poller" "\<lambda>_. mock_env (\<lambda>_. mock_output [0, 1])"
        "\<lambda>_. no_channel" GatewayState_new]
    by (simp add: poller_task_new_def has_room_def no_channel_def)
qed

theorem relays_log_exactly_once_witness:
  "\<exists>n \<le> 3. fst (poll_sequence
        [mock_env (\<lambda>n. mock_output (take 2 (drop (unat n) [0, 1, 2]))),
         mock_env (\<lambda>n. mock_output (take 2 (drop (unat n) [0, 1, 2])))] mock_poller) =
      take n (map mock_message [0, 1, 2])"
proof -
  let ?env = "mock_env (\<lambda>n. mock_output (take 2 (drop (unat n) [0, 1, 2])))"
  have "nonces_from 0 3 = [0, 1, 2]" by (simp add: numeral_3_eq_3)
  then have log: "canister_log (map mock_message [0, 1, 2])"
    using canister_log_mock [of 3] by simp
  have "\<forall>env \<in> set [?env, ?env]. answers_from (map mock_message [0, 1, 2]) (Principal [4]) env"
    by (auto simp: answers_from_def take_map drop_map simp del: list.map)
  from relays_log_exactly_once [OF log this, of 0 100, folded mock_poller_def] obtain n
    where "n \<le> length (map mock_message [0, 1, 2])"
      and "fst (poll_sequence [?env, ?env] mock_poller) = take n (map mock_message [0, 1, 2])"
    by blast
  moreover from this(1) have "n \<le> 3" by simp
  ultimately show ?thesis by blast
qed

end
