(* ===== verification/Gateway_System_Props.thy ===== *)
theory Gateway_System_Props
  imports Gateway_System Session_Handler_Props Canister_Poller_Props
begin

text \<open>
  What the whole gateway guarantees in every reachable state: each poller state has one owner, each
  client entry belongs to a session handler that is still running, and a session cannot get a canister
  message before it is set up. The invariant is shown for every step in lemmas about what a step does
  to the shared state, and reaches all states through the locale of inductive invariants.
\<close>

section \<open>What the operations do to the shared state\<close>

lemma insert_effect:
  "dm_get (data (snd (insert_client_channel_and_get_new_poller_state c k tx g))) c' =
     (if c' = c then Some (case dm_get (data g) c of Some r \<Rightarrow> r | None \<Rightarrow> next_arc g)
      else dm_get (data g) c')"
  "arcs (snd (insert_client_channel_and_get_new_poller_state c k tx g)) =
     (case dm_get (data g) c of
        Some r \<Rightarrow> (arcs g)(r := dm_insert k \<lparr>sender = tx\<rparr> (arcs g r))
      | None \<Rightarrow> (arcs g)(next_arc g := dm_insert k \<lparr>sender = tx\<rparr> dm_new))"
  "fst (insert_client_channel_and_get_new_poller_state c k tx g) =
     (case dm_get (data g) c of Some _ \<Rightarrow> None | None \<Rightarrow> Some (next_arc g))"
  by (cases "dm_get (data g) c";
      simp add: insert_client_channel_and_get_new_poller_state_def Let_def fun_eq_iff)+

lemma remove_effect:
  "data (snd (remove_client_if_exists c k g)) = data g"
  "arcs (snd (remove_client_if_exists c k g)) =
     (case dm_get (data g) c of
        Some r \<Rightarrow> (arcs g)(r := dm_erase k (arcs g r))
      | None \<Rightarrow> arcs g)"
  by (auto simp: remove_client_if_exists_def fun_eq_iff dm_erase_absent split: option.split)

lemma relay_output_message_queue:
  assumes "relay_output_message clients crt tr m chs = Some chs'" and "queue (chs' i) \<noteq> queue (chs i)"
  shows "\<exists>k cs. dm_get clients k = Some cs \<and> sender cs = i"
  using assms
  by (fastforce simp: relay_output_message_def relay_message_def
      split: option.splits prod.splits if_splits)

text \<open>What a step of a poller does: it keeps what it polls, and when it ends its canister is removed.\<close>

lemma poller_step_cases:
  assumes go: "poller_step env t g chs = Some (t', g', chs')"
    and r: "dm_get (data g) (poller_canister_id (poller t)) = Some (poller_state (poller t))"
  obtains
    (runs) "\<not> poller_ended (pc t')"
      "g' = g \<or> g' = set_clients_gauge (poller_canister_id (poller t))
                       (dm_len (arcs g (poller_state (poller t)))) g"
      "poller_canister_id (poller t') = poller_canister_id (poller t)"
      "poller_state (poller t') = poller_state (poller t)"
      "\<And>i. queue (chs' i) \<noteq> queue (chs i) \<Longrightarrow>
             \<exists>k cs. dm_get (arcs g (poller_state (poller t))) k = Some cs \<and> sender cs = i"
  | (ends) e where "pc t' = PollerDone (Ok ()) \<or> pc t' = PollerDone (Err e)"
      "g' = g\<lparr>data := dm_erase (poller_canister_id (poller t)) (data g)\<rparr>" "chs' = chs"
      "poller t' = poller t"
      "(\<exists>m. pc t = PollerFailed m) \<or> dm_is_empty (arcs g (poller_state (poller t)))"
      "poller_ended (pc t')"
proof -
  have start: "poller_canister_id (poller (poll_and_relay_start env p)) = poller_canister_id p \<and>
      poller_state (poller (poll_and_relay_start env p)) = poller_state p \<and>
      \<not> poller_ended (pc (poll_and_relay_start env p))" for p
    by (auto simp: poll_and_relay_start_def update_nonce_def Let_def
        split: sum.splits PollingStatus.splits prod.splits)
  have interval: "\<exists>d. compute_effective_polling_interval p x = Some d" for p x
    by (auto simp: compute_effective_polling_interval_def duration_sub_def Let_def)
  note def = go [unfolded poller_step_def Let_def]
  show ?thesis
  proof (cases "pc t")
    case PollerLoop
    with def start [of "poller t"] show ?thesis by (intro runs) auto
  next
    case (PollerRelaying ms crt tr eoq)
    show ?thesis
    proof (cases ms)
      case Nil
      with def PollerRelaying show ?thesis by (intro runs) (auto split: if_splits)
    next
      case (Cons m ms')
      with def PollerRelaying obtain
        "relay_output_message (arcs g (poller_state (poller t))) crt tr m chs = Some chs'"
        "t' = t\<lparr>pc := PollerRelaying ms' crt tr eoq\<rparr>" "g' = g"
        by (auto split: option.splits)
      then show ?thesis by (intro runs) (simp_all add: relay_output_message_queue)
    qed
  next
    case PollerPolled
    with def interval [of "poller t" "elapsed env"] show ?thesis by (intro runs) auto
  next
    case (PollerSleeping d)
    with def show ?thesis by (intro runs) auto
  next
    case PollerChecking
    note check = def [unfolded PollerChecking poller_pc.case poller_should_terminate_def
        remove_canister_if_empty_def r option.case]
    show ?thesis
    proof (cases "dm_is_empty (arcs g (poller_state (poller t)))")
      case True
      with check show ?thesis by (intro ends) auto
    next
      case False
      with check show ?thesis by (intro runs) auto
    qed
  next
    case (PollerFailed e)
    with def r show ?thesis by (intro ends [of e]) (auto simp: remove_failed_canister_def)
  qed (use def in auto)
qed

section \<open>The invariant\<close>

text \<open>Who owns a poller state: a running poller, or the handler that is about to start it.\<close>

definition owner :: "ws_gateway \<Rightarrow> nat + u64 \<Rightarrow> (CanisterPrincipal \<times> poller_ref) option" where
  "owner s x =
     (case x of
        Inl a \<Rightarrow>
          if a < length (pollers s) \<and> \<not> poller_ended (pc (pollers s ! a))
          then Some (poller_canister_id (poller (pollers s ! a)), poller_state (poller (pollers s ! a)))
          else None
      | Inr i \<Rightarrow>
          (case handlers s i of
             Some h \<Rightarrow>
               (case (canister_id (client_session h), pending_poller (handler_pc h)) of
                  (Some c, Some r) \<Rightarrow> Some (c, r)
                | _ \<Rightarrow> None)
           | None \<Rightarrow> None))"

text \<open>A handler whose client is known and that has not begun to clean up.\<close>

definition serves :: "handler_task \<Rightarrow> CanisterPrincipal \<Rightarrow> ClientKey \<Rightarrow> bool" where
  "serves h c k \<longleftrightarrow>
     canister_id (client_session h) = Some c \<and> client_key (client_session h) = Some k \<and>
     (case handler_pc h of
        HandlerUpdate \<Rightarrow> True
      | HandlerRelayOpen _ _ _ _ \<Rightarrow> True
      | HandlerStartPoller _ \<Rightarrow> True
      | _ \<Rightarrow> False)"

definition handlers_ok :: "ws_gateway \<Rightarrow> bool" where
  "handlers_ok s \<longleftrightarrow> (\<forall>i h. handlers s i = Some h \<longrightarrow> handler_wf i h)"

text \<open>Each entry of a polled canister is the sender of a handler that serves that client.\<close>

definition entries_ok :: "ws_gateway \<Rightarrow> bool" where
  "entries_ok s \<longleftrightarrow>
     (\<forall>c r k cs. dm_get (data (gw s)) c = Some r \<longrightarrow> dm_get (arcs (gw s) r) k = Some cs \<longrightarrow>
        (\<exists>h. handlers s (sender cs) = Some h \<and> serves h c k))"

text \<open>A channel whose sender its handler still holds is in no poller state and has carried nothing.\<close>

definition unregistered :: "ws_gateway \<Rightarrow> u64 \<Rightarrow> bool" where
  "unregistered s i \<longleftrightarrow>
     (case handlers s i of None \<Rightarrow> True | Some h \<Rightarrow> client_channel_tx h = Some i)"

definition quiet_ok :: "ws_gateway \<Rightarrow> bool" where
  "quiet_ok s \<longleftrightarrow>
     (\<forall>i. unregistered s i \<longrightarrow>
        queue (chans s i) = [] \<and> (\<forall>r k cs. dm_get (arcs (gw s) r) k = Some cs \<longrightarrow> sender cs \<noteq> i))"

definition owners_ok :: "ws_gateway \<Rightarrow> bool" where
  "owners_ok s \<longleftrightarrow>
     (\<forall>x c r. owner s x = Some (c, r) \<longrightarrow> dm_get (data (gw s)) c = Some r) \<and>
     (\<forall>x y c c' r. owner s x = Some (c, r) \<longrightarrow> owner s y = Some (c', r) \<longrightarrow> x = y)"

definition gateway_inv :: "ws_gateway \<Rightarrow> bool" where
  "gateway_inv s \<longleftrightarrow>
     gateway_wf (gw s) \<and> handlers_ok s \<and> entries_ok s \<and> quiet_ok s \<and> owners_ok s"

lemma owner_simps [simp]:
  "owner s (Inl a) =
     (if a < length (pollers s) \<and> \<not> poller_ended (pc (pollers s ! a))
      then Some (poller_canister_id (poller (pollers s ! a)), poller_state (poller (pollers s ! a)))
      else None)"
  "owner s (Inr i) =
     (case handlers s i of
        Some h \<Rightarrow>
          (case (canister_id (client_session h), pending_poller (handler_pc h)) of
             (Some c, Some r) \<Rightarrow> Some (c, r)
           | _ \<Rightarrow> None)
      | None \<Rightarrow> None)"
  by (simp_all add: owner_def)

lemma entries_okD:
  "entries_ok s \<Longrightarrow> dm_get (data (gw s)) c = Some r \<Longrightarrow> dm_get (arcs (gw s) r) k = Some cs \<Longrightarrow>
     \<exists>h. handlers s (sender cs) = Some h \<and> serves h c k"
  unfolding entries_ok_def by blast

lemma quiet_okD:
  "quiet_ok s \<Longrightarrow> unregistered s i \<Longrightarrow> queue (chans s i) = []"
  "quiet_ok s \<Longrightarrow> unregistered s i \<Longrightarrow> dm_get (arcs (gw s) r) k = Some cs \<Longrightarrow> sender cs \<noteq> i"
  unfolding quiet_ok_def by blast+

lemma owners_okD:
  "owners_ok s \<Longrightarrow> owner s x = Some (c, r) \<Longrightarrow> dm_get (data (gw s)) c = Some r"
  "owners_ok s \<Longrightarrow> owner s x = Some (c, r) \<Longrightarrow> owner s y = Some (c', r) \<Longrightarrow> x = y"
  unfolding owners_ok_def by blast+

lemma gateway_inv_new: "gateway_init s \<Longrightarrow> gateway_inv s"
  by (auto simp: gateway_init_def ws_gateway_new_def gateway_inv_def handlers_ok_def entries_ok_def
      quiet_ok_def owners_ok_def owner_def GatewayState_new_def no_channel_def gateway_wf_def split: sum.splits)

lemma put_handler_sel [simp]:
  "gw (put_handler i h s) = gw s"
  "handlers (put_handler i h s) = (handlers s)(i \<mapsto> h)"
  "pollers (put_handler i h s) = pollers s"
  "queue (chans (put_handler i h s) j) = queue (chans s j)"
  by (simp_all add: put_handler_def)

lemma put_spawned_sel [simp]:
  "gw (put_spawned sp s) = gw s"
  "handlers (put_spawned sp s) = handlers s"
  "chans (put_spawned sp s) = chans s"
  "pollers (put_spawned sp s) = pollers s @ (case sp of None \<Rightarrow> [] | Some t \<Rightarrow> [t])"
  by (simp_all add: put_spawned_def split: option.splits)

section \<open>Every step keeps the invariant\<close>

lemma serves_pc:
  "serves h c k \<Longrightarrow> same_session (client_session h) s \<Longrightarrow>
     handler_pc h' = HandlerUpdate \<or> (\<exists>r. handler_pc h' = HandlerStartPoller r) \<Longrightarrow>
     client_session h' = s \<Longrightarrow> serves h' c k"
  by (auto simp: serves_def same_session_def)

text \<open>
  A handler that changes without touching the gateway state: its sender stays with it or is dropped,
  it owns no more than before, and if it stops serving its client, that client has no entry.
\<close>

lemma inv_handler_only:
  assumes inv: "gateway_inv s" and wf: "handler_wf i h'"
    and g: "gw t = gw s" and hs: "handlers t = (handlers s)(i \<mapsto> h')" and ps: "pollers t = pollers s"
    and quiet: "\<And>j. unregistered t j \<Longrightarrow> unregistered s j \<and> (queue (chans s j) = [] \<longrightarrow> queue (chans t j) = [])"
    and own: "\<And>p. owner t (Inr i) = Some p \<Longrightarrow> owner s (Inr i) = Some p"
    and serve: "\<And>c k r cs h. handlers s i = Some h \<Longrightarrow> serves h c k \<Longrightarrow>
        dm_get (data (gw s)) c = Some r \<Longrightarrow> dm_get (arcs (gw s) r) k = Some cs \<Longrightarrow> sender cs = i \<Longrightarrow>
        serves h' c k"
  shows "gateway_inv t"
proof -
  note inv' = inv [unfolded gateway_inv_def]
  have "handlers_ok t" using inv' wf hs by (simp add: handlers_ok_def)
  moreover have "entries_ok t"
    unfolding entries_ok_def
  proof (intro allI impI)
    fix c r k cs
    assume "dm_get (data (gw t)) c = Some r" "dm_get (arcs (gw t) r) k = Some cs"
    then have e: "dm_get (data (gw s)) c = Some r" "dm_get (arcs (gw s) r) k = Some cs" by (simp_all add: g)
    with inv' entries_okD obtain h where h: "handlers s (sender cs) = Some h" "serves h c k"
      by blast
    show "\<exists>h. handlers t (sender cs) = Some h \<and> serves h c k"
      using h serve [OF _ h(2) e] by (auto simp: hs)
  qed
  moreover have "quiet_ok t" using inv' quiet g by (simp add: quiet_ok_def)
  moreover have "owners_ok t"
  proof -
    have o: "owner t x = Some p \<Longrightarrow> owner s x = Some p" for x p
      using own by (cases x) (auto simp: ps hs split: if_splits)
    with inv' show ?thesis unfolding owners_ok_def g by blast
  qed
  ultimately show ?thesis using inv' g by (simp add: gateway_inv_def)
qed

text \<open>A handler registers its client, with the sender it held until then.\<close>

lemma inv_insert:
  assumes inv: "gateway_inv s" and wf: "handler_wf i h'" and h: "handlers s i = Some h"
    and tx: "client_channel_tx h = Some i" and pend: "pending_poller (handler_pc h) = None"
    and pc: "handler_pc h' = HandlerRelayOpen c k m
               (fst (insert_client_channel_and_get_new_poller_state c k i (gw s)))"
    and g: "gw t = snd (insert_client_channel_and_get_new_poller_state c k i (gw s))"
    and hs: "handlers t = (handlers s)(i \<mapsto> h')" and ps: "pollers t = pollers s"
    and quiet: "\<And>j. queue (chans s j) = [] \<Longrightarrow> queue (chans t j) = []"
  shows "gateway_inv t"
proof -
  note inv' = inv [unfolded gateway_inv_def]
  note wfg = inv' [THEN conjunct1]
  from wf pc have h': "canister_id (client_session h') = Some c" "client_key (client_session h') = Some k"
      "client_channel_tx h' = None" by (simp_all add: handler_wf_def)
  have un: "unregistered s i" using h tx by (simp add: unregistered_def)
  have un': "unregistered s j \<and> j \<noteq> i" if "unregistered t j" for j
    using that h'(3) by (auto simp: unregistered_def hs split: if_splits)
  have fresh: "dm_get (data (gw s)) c' \<noteq> Some (next_arc (gw s))" for c'
    using gateway_wf_less [OF wfg] by blast
  have "gateway_wf (gw t)" using wfg by (simp add: g gateway_wf_ops)
  moreover have "handlers_ok t" using inv' wf hs by (simp add: handlers_ok_def)
  moreover have "entries_ok t"
    unfolding entries_ok_def
  proof (intro allI impI)
    fix c' r k' cs
    assume e: "dm_get (data (gw t)) c' = Some r" "dm_get (arcs (gw t) r) k' = Some cs"
    have "sender cs = i \<and> c' = c \<and> k' = k \<or>
        dm_get (data (gw s)) c' = Some r \<and> dm_get (arcs (gw s) r) k' = Some cs"
      using e fresh gateway_wf_inj [OF wfg] unfolding g insert_effect
      by (auto split: option.splits if_splits)
    then show "\<exists>h. handlers t (sender cs) = Some h \<and> serves h c' k'"
    proof
      assume "sender cs = i \<and> c' = c \<and> k' = k"
      then show ?thesis using h' pc by (simp add: hs serves_def)
    next
      assume old: "dm_get (data (gw s)) c' = Some r \<and> dm_get (arcs (gw s) r) k' = Some cs"
      moreover from this un inv' quiet_okD(2) have "sender cs \<noteq> i" by blast
      ultimately show ?thesis using inv' entries_okD [of s c' r k' cs] by (simp add: hs)
    qed
  qed
  moreover have "quiet_ok t"
    unfolding quiet_ok_def
  proof (intro allI impI conjI)
    fix j assume "unregistered t j"
    from un' [OF this] have j: "unregistered s j" "j \<noteq> i" by simp_all
    with inv' quiet show "queue (chans t j) = []" by (simp add: quiet_ok_def)
    fix r k' cs assume "dm_get (arcs (gw t) r) k' = Some cs"
    then have "sender cs = i \<or> (\<exists>r k'. dm_get (arcs (gw s) r) k' = Some cs)"
      unfolding g insert_effect by (auto split: option.splits if_splits)
    with j inv' show "sender cs \<noteq> j" unfolding quiet_ok_def by blast
  qed
  moreover have "owners_ok t"
  proof -
    have o: "owner s x = Some p \<or> x = Inr i \<and> p = (c, next_arc (gw s)) \<and> dm_get (data (gw s)) c = None"
      if "owner t x = Some p" for x p
      using that h' pc unfolding insert_effect
      by (cases x) (auto simp: ps hs split: if_splits option.splits)
    have os: "owner s x = Some (c', r) \<Longrightarrow> dm_get (data (gw s)) c' = Some r" for x c' r
      using inv' by (simp add: owners_ok_def)
    have grow: "dm_get (data (gw s)) c' = Some r \<Longrightarrow> dm_get (data (gw t)) c' = Some r" for c' r
      unfolding g insert_effect by auto
    have new: "dm_get (data (gw s)) c = None \<Longrightarrow> dm_get (data (gw t)) c = Some (next_arc (gw s))"
      unfolding g insert_effect by auto
    show ?thesis
      unfolding owners_ok_def
    proof (intro conjI allI impI)
      show "dm_get (data (gw t)) c' = Some r" if "owner t x = Some (c', r)" for x c' r
        using o [OF that] os grow new by auto
      show "x = y" if "owner t x = Some (c1, r)" "owner t y = Some (c2, r)" for x y c1 c2 r
        using o [OF that(1)] o [OF that(2)] os fresh inv' unfolding owners_ok_def by blast
    qed
  qed
  ultimately show ?thesis by (simp add: gateway_inv_def)
qed

text \<open>A handler leaves: its client is removed and it does not serve it any more.\<close>

lemma inv_remove:
  assumes inv: "gateway_inv s" and wf: "handler_wf i h'" and h: "handlers s i = Some h"
    and known: "canister_id (client_session h) = Some c" "client_key (client_session h) = Some k"
    and pend: "pending_poller (handler_pc h') = None" and tx: "client_channel_tx h' = None"
    and g: "gw t = snd (remove_client_if_exists c k (gw s))"
    and hs: "handlers t = (handlers s)(i \<mapsto> h')" and ps: "pollers t = pollers s"
    and quiet: "\<And>j. queue (chans s j) = [] \<Longrightarrow> queue (chans t j) = []"
  shows "gateway_inv t"
proof -
  note inv' = inv [unfolded gateway_inv_def]
  have "gateway_wf (gw t)" using inv' by (simp add: g gateway_wf_ops)
  moreover have "handlers_ok t" using inv' wf hs by (simp add: handlers_ok_def)
  moreover have old: "dm_get (arcs (gw s) r) k' = Some cs" if "dm_get (arcs (gw t) r) k' = Some cs" for r k' cs
    using that by (auto simp: g remove_effect split: option.splits if_splits)
  have "entries_ok t"
    unfolding entries_ok_def
  proof (intro allI impI)
    fix c' r k' cs
    assume e: "dm_get (data (gw t)) c' = Some r" "dm_get (arcs (gw t) r) k' = Some cs"
    have r: "dm_get (data (gw s)) c' = Some r" using e(1) by (simp add: g remove_effect)
    from entries_okD [OF _ this old [OF e(2)]] inv' obtain h2
      where h2: "handlers s (sender cs) = Some h2" "serves h2 c' k'" by blast
    have "(c', k') \<noteq> (c, k)" using e(2) r by (auto simp: g remove_effect)
    with h h2 known have "sender cs \<noteq> i" by (auto simp: serves_def)
    with h2 show "\<exists>h. handlers t (sender cs) = Some h \<and> serves h c' k'" by (simp add: hs)
  qed
  moreover have "quiet_ok t"
    unfolding quiet_ok_def
  proof (intro allI impI conjI)
    fix j assume "unregistered t j"
    with tx have j: "unregistered s j" by (auto simp: unregistered_def hs split: if_splits)
    with inv' quiet show "queue (chans t j) = []" by (blast dest: quiet_okD(1))
    show "sender cs \<noteq> j" if "dm_get (arcs (gw t) r) k' = Some cs" for r k' cs
      using quiet_okD(2) [OF _ j old [OF that]] inv' by blast
  qed
  moreover have "owners_ok t"
  proof -
    have o: "owner t x = Some p \<Longrightarrow> owner s x = Some p" for x p
      using pend by (cases x) (auto simp: ps hs split: if_splits option.splits)
    with inv' show ?thesis unfolding owners_ok_def g remove_effect by blast
  qed
  ultimately show ?thesis by (simp add: gateway_inv_def)
qed

text \<open>A handler starts a poller: the poller state passes from the handler to the poller.\<close>

lemma inv_spawn:
  assumes inv: "gateway_inv s" and wf: "handler_wf i h'" and h: "handlers s i = Some h"
    and pc: "handler_pc h = HandlerStartPoller r" and c: "canister_id (client_session h) = Some c"
    and h': "h' = h\<lparr>handler_pc := HandlerUpdate\<rparr>"
    and g: "gw t = gw s" and hs: "handlers t = (handlers s)(i \<mapsto> h')"
    and ps: "pollers t = pollers s @ [poller_task_new (CanisterPoller_new c r m)]"
    and quiet: "\<And>j. queue (chans s j) = [] \<Longrightarrow> queue (chans t j) = []"
  shows "gateway_inv t"
proof -
  note inv' = inv [unfolded gateway_inv_def]
  have "handlers_ok t" using inv' wf hs by (simp add: handlers_ok_def)
  moreover have "entries_ok t"
    unfolding entries_ok_def g
  proof (intro allI impI)
    fix c' r k' cs
    assume e: "dm_get (data (gw s)) c' = Some r" "dm_get (arcs (gw s) r) k' = Some cs"
    from entries_okD [OF _ this] inv' obtain h2
      where "handlers s (sender cs) = Some h2" "serves h2 c' k'" by blast
    then show "\<exists>h. handlers t (sender cs) = Some h \<and> serves h c' k'"
      using h by (cases "sender cs = i") (auto simp: hs h' serves_def)
  qed
  moreover have "quiet_ok t"
    using inv' quiet h unfolding quiet_ok_def unregistered_def
    by (auto simp: g hs h' split: option.splits if_splits)
  moreover have "owners_ok t"
  proof -
    define n where "n = length (pollers s)"
    have o: "owner s x = Some p \<and> x \<noteq> Inr i \<or> x = Inl n \<and> p = (c, r)" if "owner t x = Some p" for x p
      using that h
      by (cases x) (auto simp: ps hs h' n_def nth_append poller_task_new_def CanisterPoller_new_def
          split: if_splits option.splits)
    have i: "owner s (Inr i) = Some (c, r)" using h pc c by simp
    have n: "owner s (Inl n) = None" by (simp add: n_def)
    show ?thesis
      unfolding owners_ok_def g
    proof (intro conjI allI impI)
      show "dm_get (data (gw s)) c' = Some r'" if "owner t x = Some (c', r')" for x c' r'
        using o [OF that] i owners_okD(1) inv' by blast
      show "x = y" if "owner t x = Some (c1, q)" "owner t y = Some (c2, q)" for x y c1 c2 q
        using o [OF that(1)] o [OF that(2)] i owners_okD(2) inv' by blast
    qed
  qed
  ultimately show ?thesis using inv' g by (simp add: gateway_inv_def)
qed

text \<open>A poller goes on, or ends and takes its canister with it.\<close>

lemma gateway_wf_set_gauge:
  "gateway_wf g \<Longrightarrow> dm_get (data g) c = Some r \<Longrightarrow> gateway_wf (set_clients_gauge c (dm_len (arcs g r)) g)"
  by (auto simp: gateway_wf_def set_clients_gauge_def)

lemma inv_poller:
  assumes inv: "gateway_inv s" and a: "a < length (pollers s)"
    and go: "poller_step env (pollers s ! a) (gw s) (chans s) = Some (p', g', chs')"
    and t: "t = s\<lparr>pollers := (pollers s)[a := p'], gw := g', chans := chs'\<rparr>"
  shows "gateway_inv t"
proof -
  note inv' = inv [unfolded gateway_inv_def]
  let ?p = "pollers s ! a"
  have run: "\<not> poller_ended (pc ?p)"
    using go by (auto simp: poller_step_def elim!: poller_ended.elims(2))
  then have own: "owner s (Inl a) = Some (poller_canister_id (poller ?p), poller_state (poller ?p))"
    using a by simp
  then have r: "dm_get (data (gw s)) (poller_canister_id (poller ?p)) = Some (poller_state (poller ?p))"
    using inv' owners_okD(1) by blast
  have hs: "handlers t = handlers s" by (simp add: t)
  have un: "unregistered t j = unregistered s j" for j by (simp add: unregistered_def hs)
  from go r show ?thesis
  proof (cases rule: poller_step_cases)
    case runs
    have eq: "data g' = data (gw s)" "arcs g' = arcs (gw s)" using runs(2) by auto
    have q: "queue (chs' j) = queue (chans s j)" if "unregistered s j" for j
      using runs(5) [of j] quiet_okD(2) [OF _ that] inv' by blast
    have o: "owner t x = owner s x" for x
      using run runs(1,3,4) a by (cases x) (auto simp: t nth_list_update)
    have "gateway_wf (gw t)" using runs(2) inv' gateway_wf_set_gauge [OF _ r] by (auto simp: t)
    moreover have "handlers_ok t" "entries_ok t" "owners_ok t"
      using inv' by (simp_all add: handlers_ok_def entries_ok_def owners_ok_def o hs) (simp_all add: t eq)
    moreover have "quiet_ok t" using inv' q by (simp add: quiet_ok_def un) (simp add: t eq)
    ultimately show ?thesis by (simp add: gateway_inv_def)
  next
    case (ends e)
    let ?c = "poller_canister_id (poller ?p)"
    have d: "dm_get (data (gw t)) c = (if c = ?c then None else dm_get (data (gw s)) c)"
      and ar: "arcs (gw t) = arcs (gw s)" and ch: "chans t = chans s" for c
      using ends by (simp_all add: t)
    have o: "owner t x = Some p \<Longrightarrow> owner s x = Some p \<and> x \<noteq> Inl a" for x p
      using run ends(6) a by (cases x) (auto simp: t nth_list_update split: if_splits)
    have "gateway_wf (gw t)" using inv' ends(2) by (simp add: t gateway_wf_drop)
    moreover have "handlers_ok t" "quiet_ok t"
      using inv' by (simp_all add: handlers_ok_def quiet_ok_def un hs ar ch)
    moreover have "entries_ok t"
      using inv' by (auto simp: entries_ok_def hs d ar split: if_splits)
    moreover have "owners_ok t"
      unfolding owners_ok_def
    proof (intro conjI allI impI)
      show "dm_get (data (gw t)) c = Some r" if "owner t x = Some (c, r)" for x c r
      proof -
        from o [OF that] inv' owners_okD(1) have x: "owner s x = Some (c, r)" "x \<noteq> Inl a"
          "dm_get (data (gw s)) c = Some r" by blast+
        have "c \<noteq> ?c"
        proof
          assume "c = ?c"
          with x(1,3) r own have "owner s (Inl a) = Some (?c, r)" by simp
          with x(1,2) inv' owners_okD(2) show False by blast
        qed
        with x(3) show ?thesis by (simp add: d)
      qed
      show "x = y" if "owner t x = Some (c1, q)" "owner t y = Some (c2, q)" for x y c1 c2 q
        using o [OF that(1)] o [OF that(2)] owners_okD(2) inv' by blast
    qed
    ultimately show ?thesis by (simp add: gateway_inv_def)
  qed
qed

lemma gateway_inv_handler: "gateway_inv s \<Longrightarrow> handlers s i = Some h \<Longrightarrow> handler_wf i h"
  by (simp add: gateway_inv_def handlers_ok_def)

lemma owner_none [simp]:
  "handlers s i = Some h \<Longrightarrow> pending_poller (handler_pc h) = None \<Longrightarrow> owner s (Inr i) = None"
  by (simp add: owner_def split: option.split)

text \<open>
  The handler of one event: its sender is alive while the session is in Init, so an event of its
  channel only reaches it after it was set up.
\<close>

lemma holds_sender:
  assumes "gateway_inv s" "handlers s i = Some h" "handler_pc h = HandlerUpdate"
    and "session_state (client_session h) = Init"
  shows "client_channel_tx h = Some i"
  using gateway_inv_handler [OF assms(1,2)] assms(3,4) by (simp add: handler_wf_def)

lemma no_channel_event_in_Init:
  assumes inv: "gateway_inv s" and h: "handlers s i = Some h" "handler_pc h = HandlerUpdate"
    and recv: "channel_recv (sender_alive s i) (chans s i) = Some (v, ch')"
  shows "session_state (client_session h) \<noteq> Init"
proof
  assume "session_state (client_session h) = Init"
  from holds_sender [OF inv h this] have tx: "client_channel_tx h = Some i" .
  then have "unregistered s i" using h by (simp add: unregistered_def)
  with inv have "queue (chans s i) = []" by (simp add: gateway_inv_def quiet_ok_def)
  moreover have "sender_alive s i" using h tx unfolding sender_alive_def by blast
  ultimately show False using recv by (simp add: channel_recv_def)
qed

lemma inv_update:
  assumes inv: "gateway_inv s" and h: "handlers s i = Some h" "handler_pc h = HandlerUpdate"
    and up: "handler_update env ev h (gw s) = (h', g')"
    and dead: "ev = CanisterUpdate None \<Longrightarrow> \<not> sender_alive s i"
    and ch: "\<And>j. queue (chs j) \<noteq> [] \<Longrightarrow> queue (chans s j) \<noteq> []"
    and t: "t = put_handler i h' (s\<lparr>gw := g', chans := chs\<rparr>)"
  shows "gateway_inv t"
proof -
  have wf: "handler_wf i h" using inv h by (simp add: gateway_inv_def handlers_ok_def)
  have q: "queue (chans s j) = [] \<Longrightarrow> queue (chans t j) = []" for j using ch [of j] by (auto simp: t)
  have sel: "gw t = g'" "handlers t = (handlers s)(i \<mapsto> h')" "pollers t = pollers s" by (simp_all add: t)
  from wf h(2) up show ?thesis
  proof (cases rule: handler_update_cases)
    case (stay x)
    then show ?thesis
      using h sel q
      by (intro inv_handler_only [OF inv stay(3)])
         (auto simp: unregistered_def serves_def split: if_splits)
  next
    case (register x c k m new)
    then show ?thesis
      using h sel q by (intro inv_insert [OF inv register(5) h(1)]) (simp_all)
  next
    case (leave x c k p)
    then show ?thesis
      using h sel q by (intro inv_remove [OF inv leave(7) h(1) leave(1,2)]) auto
  next
    case (poller_failed x e)
    have none: "sender cs \<noteq> i" if "dm_get (data (gw s)) c = Some r" "dm_get (arcs (gw s) r) k = Some cs"
      for c r k cs
      using dead [OF poller_failed(1)] that unfolding sender_alive_def live_arc_def by blast
    show ?thesis
      using poller_failed sel q none
      by (intro inv_handler_only [OF inv poller_failed(4)])
         (auto simp: unregistered_def split: if_splits option.splits)
  next
    case (early x m)
    from holds_sender [OF inv h early(1)] have "unregistered s i" using h by (simp add: unregistered_def)
    then have none: "sender cs \<noteq> i" if "dm_get (arcs (gw s) r) k = Some cs" for r k cs
      using inv that quiet_okD(2) unfolding gateway_inv_def by blast
    show ?thesis
      using early sel q none
      by (intro inv_handler_only [OF inv early(4)])
         (auto simp: unregistered_def split: if_splits option.splits)
  qed
qed

lemma inv_continue:
  assumes inv: "gateway_inv s" and h: "handlers s i = Some h"
    and go: "handler_continue env h (gw s) = Some (h', g', spawned)"
    and t: "t = put_spawned spawned (put_handler i h' (s\<lparr>gw := g'\<rparr>))"
  shows "gateway_inv t"
proof -
  have wf: "handler_wf i h" using inv h by (simp add: gateway_inv_def handlers_ok_def)
  have q: "queue (chans t j) = queue (chans s j)" for j by (simp add: t)
  have sel: "gw t = g'" "handlers t = (handlers s)(i \<mapsto> h')" by (simp_all add: t)
  from wf go show ?thesis
  proof (cases rule: handler_continue_cases)
    case (relayed x c k m new)
    have "client_channel_tx h = None" using wf relayed(1) by (simp add: handler_wf_def)
    with relayed h sel q show ?thesis
      by (intro inv_handler_only [OF inv relayed(8)])
         (auto simp: t unregistered_def serves_def same_session_def split: if_splits option.splits)
  next
    case (relay_failed x c k m new r)
    have "client_channel_tx h = None" "canister_id (client_session h) = Some c"
      "client_key (client_session h) = Some k"
      using wf relay_failed(1) by (simp_all add: handler_wf_def)
    with relay_failed sel q show ?thesis
      by (intro inv_remove [OF inv relay_failed(8) h]) (auto simp: t)
  next
    case (started r c)
    then show ?thesis
      using sel q by (intro inv_spawn [OF inv started(6) h started(1,2,5)]) (simp_all add: t)
  next
    case (ws_closed c k r)
    with h sel q show ?thesis
      by (intro inv_handler_only [OF inv ws_closed(5)])
         (auto simp: t unregistered_def serves_def split: if_splits option.splits)
  qed
qed

lemma inv_connect:
  assumes inv: "gateway_inv s" and i: "handlers s i = None"
    and h: "h = start_session env accepted p (ClientSessionHandler_new i n)"
    and t: "t = put_handler i h (s\<lparr>chans := (chans s)(i := new_channel)\<rparr>)"
  shows "gateway_inv t"
proof -
  have id: "handler_id (ClientSessionHandler_new i n) = i" by (simp add: ClientSessionHandler_new_def)
  have q: "queue (chans s j) = [] \<Longrightarrow> queue (chans t j) = []" for j by (simp add: t new_channel_def)
  from h show ?thesis
  proof (cases rule: start_session_cases)
    case running
    with i q show ?thesis
      by (intro inv_handler_only [OF inv running(6) [unfolded id]])
         (auto simp: t unregistered_def split: if_splits option.splits)
  next
    case (ended r)
    with i q show ?thesis
      by (intro inv_handler_only [OF inv ended(5) [unfolded id]])
         (auto simp: t unregistered_def split: if_splits option.splits)
  qed
qed

lemma gateway_inv_step: "gateway_step E s t \<Longrightarrow> gateway_inv s \<Longrightarrow> gateway_inv t"
proof (induction rule: gateway_step.induct)
  case (client_event s i h env u h' g' t)
  show ?case
    by (rule inv_update [where chs = "chans s", OF client_event.prems client_event(1,2,4)])
       (simp_all add: client_event(5))
next
  case (canister_event s i h env v ch' h' g' t)
  show ?case
    by (rule inv_update [where chs = "(chans s)(i := ch')", OF canister_event.prems canister_event(1,2,5)])
       (use canister_event(4,6) in \<open>auto simp: channel_recv_Some_iff split: if_splits\<close>)
qed (auto intro: inv_connect inv_continue inv_poller)

interpretation gateway_invariant: inductive_invariant gateway_init "gateway_step E" gateway_inv for E
  by unfold_locales (auto intro: gateway_inv_new gateway_inv_step)

end
