(* ===== verification/Gateway_Runs.thy ===== *)
theory Gateway_Runs
  imports Gateway_System_Props
begin

text \<open>
  Schedules: an executable reading of the steps of the whole gateway, which takes the actions of the
  environment and of the scheduler one by one. Every state a schedule reaches is reachable, so a
  concrete run of the gateway is evaluated by simplification.
\<close>

section \<open>Actions\<close>

datatype 'e action =
    Connects u64 "'e session_env"
  | ClientSends u64 "'e session_env" "string + Message"
  | ReadsChannel u64 "'e session_env"
  | GoesOn u64 "'e session_env"
  | PollerGoesOn nat poller_env

fun action_env :: "'e action \<Rightarrow> 'e session_env option" where
  "action_env (Connects _ env) = Some env"
| "action_env (ClientSends _ env _) = Some env"
| "action_env (ReadsChannel _ env) = Some env"
| "action_env (GoesOn _ env) = Some env"
| "action_env (PollerGoesOn _ _) = None"

text \<open>An action that is not enabled does nothing.\<close>

fun act :: "'e action \<Rightarrow> ws_gateway \<Rightarrow> ws_gateway" where
  "act (Connects i env) s =
     (case handlers s i of
        Some _ \<Rightarrow> s
      | None \<Rightarrow>
          put_handler i
            (start_session env (Inr ()) (gw_principal s) (ClientSessionHandler_new i (gw_interval_ms s)))
            (s\<lparr>chans := (chans s)(i := new_channel)\<rparr>))"
| "act (ClientSends i env u) s =
     (case handlers s i of
        None \<Rightarrow> s
      | Some h \<Rightarrow>
          if handler_pc h = HandlerUpdate
          then (let (h', g') = handler_update env (ClientUpdate u) h (gw s)
                in put_handler i h' (s\<lparr>gw := g'\<rparr>))
          else s)"
| "act (ReadsChannel i env) s =
     (case handlers s i of
        None \<Rightarrow> s
      | Some h \<Rightarrow>
          (case queue (chans s i) of
             [] \<Rightarrow> s
           | m # ms \<Rightarrow>
               if handler_pc h = HandlerUpdate
               then (let (h', g') = handler_update env (CanisterUpdate (Some m)) h (gw s)
                     in put_handler i h'
                          (s\<lparr>gw := g', chans := (chans s)(i := (chans s i)\<lparr>queue := ms\<rparr>)\<rparr>))
               else s))"
| "act (GoesOn i env) s =
     (case handlers s i of
        None \<Rightarrow> s
      | Some h \<Rightarrow>
          (case handler_continue env h (gw s) of
             None \<Rightarrow> s
           | Some (h', g', spawned) \<Rightarrow> put_spawned spawned (put_handler i h' (s\<lparr>gw := g'\<rparr>))))"
| "act (PollerGoesOn a env) s =
     (if a < length (pollers s)
      then (case poller_step env (pollers s ! a) (gw s) (chans s) of
              None \<Rightarrow> s
            | Some (p', g', chans') \<Rightarrow> s\<lparr>pollers := (pollers s)[a := p'], gw := g', chans := chans'\<rparr>)
      else s)"

lemma act_step:
  assumes "\<And>env. action_env x = Some env \<Longrightarrow> E env"
  shows "act x s = s \<or> gateway_step E s (act x s)"
proof (cases x)
  case (Connects i env)
  show ?thesis
  proof (cases "handlers s i")
    case None
    have "E env" by (simp add: assms Connects)
    then have "gateway_step E s (put_handler i
        (start_session env (Inr ()) (gw_principal s) (ClientSessionHandler_new i (gw_interval_ms s)))
        (s\<lparr>chans := (chans s)(i := new_channel)\<rparr>))"
      by (rule connect [OF None _ refl refl])
    then show ?thesis by (simp add: Connects None)
  qed (simp add: Connects)
next
  case (ClientSends i env u)
  show ?thesis
  proof (cases "\<exists>h. handlers s i = Some h \<and> handler_pc h = HandlerUpdate")
    case True
    then obtain h where h: "handlers s i = Some h" "handler_pc h = HandlerUpdate" by blast
    obtain h' g' where up: "handler_update env (ClientUpdate u) h (gw s) = (h', g')" by fastforce
    have "gateway_step E s (put_handler i h' (s\<lparr>gw := g'\<rparr>))"
      by (rule client_event [OF h _ up refl]) (simp add: assms ClientSends)
    then show ?thesis by (simp add: ClientSends h up)
  qed (auto simp: ClientSends split: option.split)
next
  case (ReadsChannel i env)
  show ?thesis
  proof (cases "\<exists>h m ms. handlers s i = Some h \<and> handler_pc h = HandlerUpdate \<and> queue (chans s i) = m # ms")
    case True
    then obtain h m ms where h: "handlers s i = Some h" "handler_pc h = HandlerUpdate"
      and q: "queue (chans s i) = m # ms" by blast
    obtain h' g' where up: "handler_update env (CanisterUpdate (Some m)) h (gw s) = (h', g')" by fastforce
    from q have recv: "channel_recv (sender_alive s i) (chans s i) = Some (Some m, (chans s i)\<lparr>queue := ms\<rparr>)"
      by (simp add: channel_recv_def)
    have "gateway_step E s
        (put_handler i h' (s\<lparr>gw := g', chans := (chans s)(i := (chans s i)\<lparr>queue := ms\<rparr>)\<rparr>))"
      by (rule canister_event [OF h _ recv up refl]) (simp add: assms ReadsChannel)
    then show ?thesis by (simp add: ReadsChannel h up q)
  qed (auto simp: ReadsChannel split: option.split list.split)
next
  case (GoesOn i env)
  show ?thesis
  proof (cases "handlers s i")
    case (Some h)
    show ?thesis
    proof (cases "handler_continue env h (gw s)")
      case go: (Some r)
      then show ?thesis
        using assms GoesOn Some
        by (cases r) (auto intro: handler_goes_on [OF Some _ _ refl])
    qed (simp add: GoesOn Some)
  qed (simp add: GoesOn)
next
  case (PollerGoesOn a env)
  then show ?thesis
    by (auto intro: poller_goes_on split: option.split)
qed

definition schedule :: "'e action list \<Rightarrow> ws_gateway \<Rightarrow> ws_gateway" where
  "schedule xs s = fold act xs s"

lemma schedule_simps [simp]:
  "schedule [] s = s"
  "schedule (x # xs) s = schedule xs (act x s)"
  by (simp_all add: schedule_def)

lemma schedule_run:
  "(\<And>x env. x \<in> set xs \<Longrightarrow> action_env x = Some env \<Longrightarrow> E env) \<Longrightarrow> (gateway_step E)\<^sup>*\<^sup>* s (schedule xs s)"
proof (induction xs arbitrary: s)
  case (Cons x xs)
  have "(gateway_step E)\<^sup>*\<^sup>* s (act x s)" using act_step [of x E s] Cons.prems by fastforce
  also have "(gateway_step E)\<^sup>*\<^sup>* (act x s) (schedule xs (act x s))"
    by (rule Cons.IH) (rule Cons.prems, simp_all)
  finally show ?case by simp
qed simp

lemma schedule_reachable:
  assumes "reachable E s" and "\<And>x env. x \<in> set xs \<Longrightarrow> action_env x = Some env \<Longrightarrow> E env"
  shows "reachable E (schedule xs s)"
  using reach_rtranclp [OF schedule_run assms(1)] assms(2) by blast

section \<open>A run in which a client opens a session\<close>

text \<open>
  The gateway with the principal and the interval of the examples; the actions by which client 7
  connects, sends the message that opens its session, has it relayed, and starts the poller of its
  canister.
\<close>

definition demo_gateway :: ws_gateway where
  "demo_gateway = ws_gateway_new (Inr (Principal [2])) 100"

definition opens :: "u64 \<Rightarrow> bytes session_env \<Rightarrow> bytes action list" where
  "opens i env =
     [Connects i env, ClientSends i env (Inr (Binary [5])), GoesOn i env, GoesOn i env]"

lemma demo_reachable: "reachable E demo_gateway"
  by (rule reach_init) (auto simp: demo_gateway_def gateway_init_def)

lemma mock_codecs [simp]:
  "from_slice mock_session_env = Some"
  "content_of mock_session_env = Call (Principal [4])"
  "sender_of mock_session_env b = Principal [1]"
  "decode_open_args mock_session_env b = Inr \<lparr>open_client_nonce = 9, open_gateway_principal = Principal [2]\<rparr>"
  "serialize (self_describe mock_session_env) (cbor_envelope mock_session_env b) = Inr ([217, 217, 247] @ b)"
  "serialize (self_describe mock_session_env) (cbor_handshake mock_session_env m) = Inr [217, 217, 247, 0]"
  "to_vec mock_session_env cm = Inr (msg_content cm)"
  "sink_send mock_session_env ws = Inr ()"
  "sink_close mock_session_env = Inr ()"
  by (simp_all add: mock_session_env_def serialize_def)

lemma handler_new_sel [simp]:
  "handler_id (ClientSessionHandler_new i n) = i"
  "handler_polling_interval_ms (ClientSessionHandler_new i n) = n"
  by (simp_all add: ClientSessionHandler_new_def)

lemma self_describe_mock: "self_describe mock_session_env = Inr [217, 217, 247]"
  by (simp add: mock_session_env_def)

lemma mock_connect:
  "start_session mock_session_env (Inr ()) (Inr p) (ClientSessionHandler_new i n) =
     \<lparr>handler = ClientSessionHandler_new i n, handler_pc = HandlerUpdate,
      client_session =
        \<lparr>client_id = i, client_key = None, canister_id = None, session_state = Init,
         ws_write = [Sent (Binary [217, 217, 247, 0])], started_calls = []\<rparr>,
      client_channel_tx = Some i\<rparr>"
  by (simp add: start_session_def ClientSession_init_def send_ws_message_to_client_def
      ClientSessionHandler_new_def Let_def)

lemma mock_inspect:
  "inspect_ic_ws_open_message mock_session_env (Binary b) =
     Inr (ClientKey_new (Principal [1]) 9, Principal [4])"
  by (simp add: inspect_ic_ws_open_message_def get_client_request_def)

lemmas session_run_simps =
  try_update_state_eq client_update_Init handle_setup_transition_def relay_client_message_def
  relay_ws_message_to_ic_def relay_envelope_to_canister_def get_client_request_def

lemmas handler_run_simps =
  handler_update_eq handle_update_def register_client_def expect_def handler_continue_def
  relay_open_message_def start_poller_def handle_closed_def

lemmas gateway_run_simps =
  insert_client_channel_and_get_new_poller_state_def remove_client_def remove_failed_canister_def
  GatewayState_new_def

lemmas run_simps =
  demo_gateway_def ws_gateway_new_def opens_def mock_connect mock_inspect put_handler_def put_spawned_def
  poller_task_new_def Let_def session_run_simps handler_run_simps gateway_run_simps

text \<open>After the run, one poller is running, for the canister and on the poller state of the client.\<close>

definition demo_open :: ws_gateway where
  "demo_open = schedule (opens 7 mock_session_env) demo_gateway"

lemma demo_open_reachable: "reachable (\<lambda>env. env = mock_session_env) demo_open"
  unfolding demo_open_def
  by (rule schedule_reachable [OF demo_reachable]) (auto simp: opens_def)

lemma demo_open_pollers:
  "pollers demo_open = [poller_task_new (CanisterPoller_new (Principal [4]) 0 100)]"
  by (simp add: demo_open_def run_simps)

lemma demo_open_gw:
  "dm_get (data (gw demo_open)) (Principal [4]) = Some 0"
  "arcs (gw demo_open) 0 = dm_insert (ClientKey_new (Principal [1]) 9) \<lparr>sender = 7\<rparr> dm_new"
  by (simp_all add: demo_open_def run_simps)

lemma demo_open_handler:
  "\<exists>h. handlers demo_open 7 = Some h \<and> handler_pc h = HandlerUpdate \<and>
     session_state (client_session h) = Setup (Binary [5]) \<and>
     canister_id (client_session h) = Some (Principal [4]) \<and>
     client_key (client_session h) = Some (ClientKey_new (Principal [1]) 9) \<and>
     started_calls (client_session h) = [SpawnUpdateSigned (Principal [4]) [217, 217, 247, 5]]"
  by (simp add: demo_open_def run_simps)

end
