(* ===== verification/Gateway_Safety.thy ===== *)
theory Gateway_Safety
  imports Gateway_Runs
begin

text \<open>
  The properties of the whole gateway: one poller per canister, no entry without a running session,
  which panics can happen and which cannot, when a polled canister has a poller, and what goes wrong
  when the first message of a session cannot be relayed.
\<close>

lemma reachable_inv: "reachable E s \<Longrightarrow> gateway_inv s"
  by (rule gateway_invariant.inv_reach)

lemma running_owner:
  "a < length (pollers s) \<Longrightarrow> \<not> poller_ended (pc (pollers s ! a)) \<Longrightarrow>
     owner s (Inl a) = Some (poller_canister_id (poller (pollers s ! a)), poller_state (poller (pollers s ! a)))"
  by simp

section \<open>One poller per canister\<close>

text \<open>
  C1: in every reachable state of the gateway, whatever the order in which clients connect, leave and
  fail, at most one poller runs for a canister, and the poller state it relays from is the very one to
  which the gateway state adds new clients of the canister.
\<close>

theorem one_poller_per_canister:
  assumes "reachable E s"
    and "a < length (pollers s)" "\<not> poller_ended (pc (pollers s ! a))"
    and "b < length (pollers s)" "\<not> poller_ended (pc (pollers s ! b))"
    and "poller_canister_id (poller (pollers s ! a)) = poller_canister_id (poller (pollers s ! b))"
  shows "a = b \<and> dm_get (data (gw s)) (poller_canister_id (poller (pollers s ! a))) =
                   Some (poller_state (poller (pollers s ! a)))"
proof -
  from reachable_inv [OF assms(1)] have own: "owners_ok s" by (simp add: gateway_inv_def)
  note oa = running_owner [OF assms(2,3)] and ob = running_owner [OF assms(4,5)]
  note da = owners_okD(1) [OF own oa] and db = owners_okD(1) [OF own ob]
  from da db assms(6) have "poller_state (poller (pollers s ! a)) = poller_state (poller (pollers s ! b))"
    by simp
  with owners_okD(2) [OF own oa, of "Inl b"] ob have "Inl a = (Inl b :: nat + u64)" by simp
  with da show ?thesis by simp
qed

theorem one_poller_per_canister_witness:
  "dm_get (data (gw demo_open)) (Principal [4]) = Some 0"
  using one_poller_per_canister [OF demo_open_reachable, of 0 0]
  by (simp add: demo_open_pollers poller_task_new_def CanisterPoller_new_def)

section \<open>Entries and sessions\<close>

text \<open>
  C4: in every reachable state, each entry of a polled canister belongs to a session handler that is
  still running and serves exactly that client on exactly that canister. So when a handler has ended,
  by an error or a panic as well, or has begun to tell the canister that its client is gone, its
  sender is in no poller state of the gateway.
\<close>

theorem entries_belong_to_running_sessions:
  assumes "reachable E s"
    and "dm_get (data (gw s)) c = Some r" and "dm_get (arcs (gw s) r) k = Some cs"
  shows "\<exists>h. handlers s (sender cs) = Some h \<and> canister_id (client_session h) = Some c \<and>
           client_key (client_session h) = Some k \<and> \<not> handler_ended (handler_pc h) \<and>
           (\<forall>c' k' res. handler_pc h \<noteq> HandlerWsClose c' k' res)"
proof -
  from reachable_inv [OF assms(1)] have "entries_ok s" by (simp add: gateway_inv_def)
  from entries_okD [OF this assms(2,3)] obtain h
    where "handlers s (sender cs) = Some h" "serves h c k" by blast
  then show ?thesis by (cases "handler_pc h") (auto simp: serves_def)
qed

theorem entries_belong_to_running_sessions_witness:
  "\<exists>h. handlers demo_open 7 = Some h \<and> canister_id (client_session h) = Some (Principal [4])"
  using entries_belong_to_running_sessions [OF demo_open_reachable, of "Principal [4]" 0
      "ClientKey_new (Principal [1]) 9" "\<lparr>sender = 7\<rparr>"]
  by (auto simp: demo_open_gw)

section \<open>Panics\<close>

text \<open>
  The invariant behind the classification of panics: no poller panicked, and, once the gateway can
  greet its clients, a handler only panicked because its session ended before its client was known, or
  because its client was not in the poller state it was to be removed from.
\<close>

definition greets :: "('e session_env \<Rightarrow> bool) \<Rightarrow> ws_gateway \<Rightarrow> bool" where
  "greets E s \<longleftrightarrow>
     (\<exists>p. gw_principal s = Inr p) \<and>
     (\<forall>env m. E env \<longrightarrow> (\<exists>b. serialize (self_describe env) (cbor_handshake env m) = Inr b))"

definition handler_panics_ok :: "handler_task \<Rightarrow> bool" where
  "handler_panics_ok h \<longleftrightarrow>
     (case handler_pc h of
        HandlerDone (Panic m) \<Rightarrow>
          m = ''must be set during Setup'' \<and> canister_id (client_session h) = None \<or>
          m = ''Client key not found in poller state'' \<and> canister_id (client_session h) \<noteq> None
      | HandlerWsClose _ _ (Panic _) \<Rightarrow> False
      | _ \<Rightarrow> True)"

definition panics_ok :: "('e session_env \<Rightarrow> bool) \<Rightarrow> ws_gateway \<Rightarrow> bool" where
  "panics_ok E s \<longleftrightarrow>
     gateway_inv s \<and>
     (\<forall>t \<in> set (pollers s). \<forall>m. pc t \<noteq> PollerDone (Panic m)) \<and>
     (greets E s \<longrightarrow> (\<forall>i h. handlers s i = Some h \<longrightarrow> handler_panics_ok h))"

lemma gw_principal_step: "gateway_step E s t \<Longrightarrow> gw_principal t = gw_principal s"
  by (induction rule: gateway_step.induct) (auto simp: put_handler_def put_spawned_def split: option.split)

lemma handlers_step:
  assumes "gateway_step E s t" and "handlers t j = Some h'"
  shows "handlers s j = Some h' \<or>
     (handlers s j = None \<and> (\<exists>env accepted. E env \<and>
        h' = start_session env accepted (gw_principal s) (ClientSessionHandler_new j (gw_interval_ms s)))) \<or>
     (\<exists>h env ev g'. E env \<and> handlers s j = Some h \<and> handler_pc h = HandlerUpdate \<and>
        handler_update env ev h (gw s) = (h', g') \<and>
        (\<forall>v. ev = CanisterUpdate v \<longrightarrow> (\<exists>ch'. channel_recv (sender_alive s j) (chans s j) = Some (v, ch')))) \<or>
     (\<exists>h env g' sp. E env \<and> handlers s j = Some h \<and> handler_continue env h (gw s) = Some (h', g', sp))"
  using assms by (cases rule: gateway_step.cases) (auto split: if_splits)

lemma start_session_panics:
  assumes "serialize (self_describe env) (cbor_handshake env \<lparr>gateway_principal = p\<rparr>) = Inr b"
    and "h = start_session env accepted (Inr p) sh"
  shows "handler_panics_ok h"
proof -
  have send: "send_ws_message_to_client env ws x \<noteq> (Panic m, y)" for ws x m y
    using no_panic_send [of env ws x m] by auto
  have "fst (ClientSession_init env i p) \<noteq> Panic m" for i m
    using assms(1) by (auto simp: ClientSession_init_def Let_def send split: prod.splits outcome.splits)
  then show ?thesis
    using assms(2)
    by (auto simp: start_session_def Let_def handler_panics_ok_def split: sum.splits prod.splits outcome.splits)
      (metis fst_conv)+
qed

lemma handler_panics_step:
  assumes inv: "gateway_inv s" and gr: "greets E s" and go: "gateway_step E s t"
    and old: "\<And>i h. handlers s i = Some h \<Longrightarrow> handler_panics_ok h" and h': "handlers t j = Some h'"
  shows "handler_panics_ok h'"
  using handlers_step [OF go h']
proof (elim disjE conjE exE)
  show ?thesis if "handlers s j = Some h'" using old [OF that] .
  show ?thesis if "E env" and h': "h' = start_session env accepted (gw_principal s)
      (ClientSessionHandler_new j (gw_interval_ms s))" for env accepted
  proof -
    from gr \<open>E env\<close> obtain p b where "gw_principal s = Inr p"
      "serialize (self_describe env) (cbor_handshake env \<lparr>gateway_principal = p\<rparr>) = Inr b"
      unfolding greets_def by blast
    with h' start_session_panics show ?thesis by metis
  qed
  show ?thesis
    if h: "handlers s j = Some h" "handler_pc h = HandlerUpdate"
      and up: "handler_update env ev h (gw s) = (h', g')"
      and recv: "\<forall>v. ev = CanisterUpdate v \<longrightarrow> (\<exists>ch'. channel_recv (sender_alive s j) (chans s j) = Some (v, ch'))"
    for h env ev g'
    using gateway_inv_handler [OF inv h(1)] h(2) up
  proof (cases rule: handler_update_cases)
    case (early x m)
    from early(5) have "m = ''must be set during Setup''"
      using recv no_channel_event_in_Init [OF inv h] early(1) by blast
    with early show ?thesis by (simp add: handler_panics_ok_def)
  next
    case (leave x c k p)
    then show ?thesis by (auto simp: handler_panics_ok_def split: outcome.splits)
  qed (auto simp: handler_panics_ok_def h)
  show ?thesis
    if h: "handlers s j = Some h" and go: "handler_continue env h (gw s) = Some (h', g', sp)"
    for h env g' sp
    using gateway_inv_handler [OF inv h] go
  proof (cases rule: handler_continue_cases)
    case (relay_failed x c k m new r)
    with gateway_inv_handler [OF inv h] show ?thesis
      by (auto simp: handler_panics_ok_def handler_wf_def same_session_def)
  next
    case (ws_closed c k r)
    with old [OF h] show ?thesis by (cases r) (auto simp: handler_panics_ok_def)
  qed (auto simp: handler_panics_ok_def split: option.splits)
qed

lemma pollers_panics_step:
  assumes inv: "gateway_inv s" and go: "gateway_step E s t"
    and old: "\<And>p m. p \<in> set (pollers s) \<Longrightarrow> pc p \<noteq> PollerDone (Panic m)" and p: "p \<in> set (pollers t)"
  shows "pc p \<noteq> PollerDone (Panic m)"
  using go
proof cases
  case (handler_goes_on i h env h' g' spawned)
  have "spawned = None \<or> (\<exists>q. spawned = Some (poller_task_new q))"
    using gateway_inv_handler [OF inv handler_goes_on(1)] handler_goes_on(3)
    by (cases rule: handler_continue_cases) auto
  with p old handler_goes_on(4) show ?thesis by (auto simp: poller_task_new_def)
next
  case (poller_goes_on a env p' g' chs')
  let ?q = "pollers s ! a"
  have run: "\<not> poller_ended (pc ?q)"
    using poller_goes_on(2) by (auto simp: poller_step_def elim!: poller_ended.elims(2))
  from owners_okD(1) [OF _ running_owner [OF poller_goes_on(1) run]] inv
  have r: "dm_get (data (gw s)) (poller_canister_id (poller ?q)) = Some (poller_state (poller ?q))"
    by (simp add: gateway_inv_def)
  from poller_goes_on(2) r have "pc p' \<noteq> PollerDone (Panic m)"
    by (cases rule: poller_step_cases) auto
  moreover have "p = p' \<or> p \<in> set (pollers s)"
    using p set_update_subset_insert [of "pollers s" a p'] by (auto simp: poller_goes_on(3))
  ultimately show ?thesis using old by blast
qed (use old p in auto)

lemma greets_step: "gateway_step E s t \<Longrightarrow> greets E t \<longleftrightarrow> greets E s"
  by (simp add: greets_def gw_principal_step)

interpretation panics: inductive_invariant gateway_init "gateway_step E" "panics_ok E" for E
proof unfold_locales
  show "panics_ok E s" if "gateway_init s" for s
    using that gateway_inv_new [OF that] by (auto simp: panics_ok_def gateway_init_def ws_gateway_new_def)
  show "panics_ok E t" if "panics_ok E s" "gateway_step E s t" for s t
    using that gateway_inv_step [OF that(2)] handler_panics_step [OF _ _ that(2)]
      pollers_panics_step [OF _ that(2)] greets_step [OF that(2)]
    unfolding panics_ok_def by metis
qed

text \<open>
  C24: no poller ever panics. In particular the canister a failed poller removes from the gateway state
  is always still there, so \<open>remove_failed_canister\<close> finds it, and the time to sleep is never negative.
\<close>

theorem pollers_never_panic:
  assumes "reachable E s" and "t \<in> set (pollers s)"
  shows "pc t \<noteq> PollerDone (Panic m)"
  using panics.inv_reach [OF assms(1)] assms(2) by (simp add: panics_ok_def)

text \<open>
  C14: a session handler panics in two ways only, once the agent has a principal and the handshake can
  be written: its session ended before its client was known, and then the client key was looked for
  although it is only set during Setup; or its client was known, and the poller state it was to be
  removed from did not have it. No canister message reaches a session in Init, no sender is taken
  twice, and no session returns to Init.
\<close>

theorem handler_panics_classified:
  assumes "reachable E s" and "gw_principal s = Inr p"
    and "\<And>env m. E env \<Longrightarrow> \<exists>b. serialize (self_describe env) (cbor_handshake env m) = Inr b"
    and "handlers s i = Some h" and "handler_pc h = HandlerDone (Panic m)"
  shows "m = ''must be set during Setup'' \<and> canister_id (client_session h) = None \<or>
         m = ''Client key not found in poller state'' \<and> canister_id (client_session h) \<noteq> None"
proof -
  have "greets E s" using assms(2,3) by (auto simp: greets_def)
  with panics.inv_reach [OF assms(1)] assms(4) have "handler_panics_ok h" by (simp add: panics_ok_def)
  with assms(5) show ?thesis by (simp add: handler_panics_ok_def)
qed

text \<open>The run in which a client sends a close message first: its handler panics.\<close>

definition demo_early_close :: ws_gateway where
  "demo_early_close =
     schedule [Connects 7 mock_session_env, ClientSends 7 mock_session_env (Inr (Close None))] demo_gateway"

lemma demo_early_close_reachable: "reachable (\<lambda>env. env = mock_session_env) demo_early_close"
  unfolding demo_early_close_def by (rule schedule_reachable [OF demo_reachable]) auto

lemma demo_early_close_handler:
  "\<exists>h. handlers demo_early_close 7 = Some h \<and>
     handler_pc h = HandlerDone (Panic ''must be set during Setup'')"
  by (simp add: demo_early_close_def run_simps client_update_close get_canister_id_def expect_def)

theorem handler_panics_classified_witness:
  "\<exists>h. handlers demo_early_close 7 = Some h \<and> canister_id (client_session h) = None"
proof -
  obtain h where h: "handlers demo_early_close 7 = Some h"
    "handler_pc h = HandlerDone (Panic ''must be set during Setup'')"
    using demo_early_close_handler by blast
  have "gw_principal demo_early_close = Inr (Principal [2])"
    by (simp add: demo_early_close_def run_simps)
  from handler_panics_classified [OF demo_early_close_reachable this _ h] h(1) show ?thesis by auto
qed

theorem pollers_never_panic_witness:
  "pc (poller_task_new (CanisterPoller_new (Principal [4]) 0 100)) \<noteq> PollerDone (Panic ''x'')"
  using pollers_never_panic [OF demo_open_reachable] by (simp add: demo_open_pollers)

section \<open>Orphaned canisters\<close>

text \<open>Registered, but neither polled by a running poller nor about to be.\<close>

definition orphaned :: "ws_gateway \<Rightarrow> CanisterPrincipal \<Rightarrow> bool" where
  "orphaned s c \<longleftrightarrow>
     dm_get (data (gw s)) c \<noteq> None \<and> (\<forall>x r. owner s x \<noteq> Some (c, r))"

text \<open>A poller state changes hands or is new; a canister is removed by its own poller only.\<close>

lemma owner_other:
  "handlers t = (handlers s)(i \<mapsto> h') \<Longrightarrow> pollers t = pollers s \<Longrightarrow>
     (\<And>c r. canister_id (client_session h') = Some c \<Longrightarrow> pending_poller (handler_pc h') = Some r \<Longrightarrow>
        P (Inr i) c r) \<Longrightarrow>
     (\<And>x. owner s x = Some (c, r) \<Longrightarrow> P x c r) \<Longrightarrow> owner t x = Some (c, r) \<Longrightarrow> P x c r"
  by (cases x) (auto split: if_splits option.splits)

lemma owner_update:
  assumes inv: "gateway_inv s" and h: "handlers s i = Some h" "handler_pc h = HandlerUpdate"
    and up: "handler_update env ev h (gw s) = (h', g')"
    and hs: "handlers t = (handlers s)(i \<mapsto> h')" and ps: "pollers t = pollers s" and g: "gw t = g'"
  shows "owner t x = Some (c, r) \<Longrightarrow> dm_get (data (gw s)) c = None \<or> (\<exists>y. owner s y = Some (c, r))"
    and "dm_get (data (gw s)) c = Some r \<Longrightarrow> dm_get (data (gw t)) c = Some r"
proof -
  from gateway_inv_handler [OF inv h(1)] h(2) up
  have "(\<forall>c r. canister_id (client_session h') = Some c \<longrightarrow> pending_poller (handler_pc h') = Some r \<longrightarrow>
          dm_get (data (gw s)) c = None) \<and>
        (\<forall>c r. dm_get (data (gw s)) c = Some r \<longrightarrow> dm_get (data g') c = Some r)"
  proof (cases rule: handler_update_cases)
    case (register x c k m new)
    then have "canister_id (client_session h') = Some c" by (simp add: handler_wf_def)
    with register show ?thesis by (auto simp: insert_effect split: option.splits)
  qed (auto simp: h remove_effect)
  then show "dm_get (data (gw s)) c = Some r \<Longrightarrow> dm_get (data (gw t)) c = Some r"
    and "owner t x = Some (c, r) \<Longrightarrow> dm_get (data (gw s)) c = None \<or> (\<exists>y. owner s y = Some (c, r))"
    using owner_other [OF hs ps, of "\<lambda>x c r. dm_get (data (gw s)) c = None \<or> (\<exists>y. owner s y = Some (c, r))"]
    unfolding g by blast+
qed

lemma owner_continue:
  assumes inv: "gateway_inv s" and h: "handlers s i = Some h"
    and go: "handler_continue env h (gw s) = Some (h', g', sp)"
    and t: "t = put_spawned sp (put_handler i h' (s\<lparr>gw := g'\<rparr>))"
  shows "owner t x = Some (c, r) \<Longrightarrow> \<exists>y. owner s y = Some (c, r)"
    and "data (gw t) = data (gw s)"
proof -
  have hs: "handlers t = (handlers s)(i \<mapsto> h')" by (simp add: t)
  note wf = gateway_inv_handler [OF inv h]
  from wf go have "(owner t x = Some (c, r) \<longrightarrow> (\<exists>y. owner s y = Some (c, r))) \<and> data (gw t) = data (gw s)"
  proof (cases rule: handler_continue_cases)
    case (relayed z c1 k m new)
    have ps: "pollers t = pollers s" using relayed by (simp add: t)
    have "owner s (Inr i) = Some (c', r')"
      if "canister_id (client_session h') = Some c'" "pending_poller (handler_pc h') = Some r'" for c' r'
    proof -
      have "canister_id (client_session h) = Some c'"
        using that(1) relayed(6,7) by (simp add: same_session_def)
      moreover have "new = Some r'" using that(2) relayed(7) by (cases new) simp_all
      ultimately show ?thesis using relayed(1) h by simp
    qed
    then have "owner t x = Some (c, r) \<Longrightarrow> \<exists>y. owner s y = Some (c, r)"
      using owner_other [OF hs ps, of "\<lambda>x c r. \<exists>y. owner s y = Some (c, r)" c r x] by blast
    moreover have "data (gw t) = data (gw s)" using relayed by (simp add: t)
    ultimately show ?thesis by blast
  next
    case (relay_failed z c1 k m new r1)
    have ps: "pollers t = pollers s" using relay_failed by (simp add: t)
    have "pending_poller (handler_pc h') = None" using relay_failed by simp
    then have "owner t x = Some (c, r) \<Longrightarrow> \<exists>y. owner s y = Some (c, r)"
      using owner_other [OF hs ps, of "\<lambda>x c r. \<exists>y. owner s y = Some (c, r)" c r x] by fastforce
    moreover have "data (gw t) = data (gw s)" using relay_failed by (simp add: t remove_effect)
    ultimately show ?thesis by blast
  next
    case (started r1 c1)
    have "owner s (Inr i) = Some (c1, r1)" using started h by simp
    moreover have "owner t x = Some (c, r) \<Longrightarrow> owner s x = Some (c, r) \<or> (c, r) = (c1, r1)"
      using started h
      by (cases x) (auto simp: t nth_append poller_task_new_def CanisterPoller_new_def
          split: if_splits option.splits)
    ultimately show ?thesis using started by (auto simp: t simp del: owner_simps)
  next
    case (ws_closed c1 k r1)
    have ps: "pollers t = pollers s" using ws_closed by (simp add: t)
    have "pending_poller (handler_pc h') = None" using ws_closed by simp
    then have "owner t x = Some (c, r) \<Longrightarrow> \<exists>y. owner s y = Some (c, r)"
      using owner_other [OF hs ps, of "\<lambda>x c r. \<exists>y. owner s y = Some (c, r)" c r x] by fastforce
    moreover have "data (gw t) = data (gw s)" using ws_closed by (simp add: t)
    ultimately show ?thesis by blast
  qed
  then show "owner t x = Some (c, r) \<Longrightarrow> \<exists>y. owner s y = Some (c, r)" and "data (gw t) = data (gw s)" by blast+
qed

lemma owner_poller:
  assumes inv: "gateway_inv s" and a: "a < length (pollers s)"
    and go: "poller_step env (pollers s ! a) (gw s) (chans s) = Some (p', g', chs')"
    and t: "t = s\<lparr>pollers := (pollers s)[a := p'], gw := g', chans := chs'\<rparr>"
  shows "owner t x = Some (c, r) \<Longrightarrow> owner s x = Some (c, r)"
    and "dm_get (data (gw s)) c = Some r \<Longrightarrow> (\<forall>x. owner s x \<noteq> Some (c, r)) \<Longrightarrow>
           dm_get (data (gw t)) c = Some r"
    and "owner s x = Some (c, r) \<Longrightarrow> dm_get (data (gw t)) c = Some r \<Longrightarrow> owner t x = Some (c, r)"
proof -
  let ?p = "pollers s ! a"
  have run: "\<not> poller_ended (pc ?p)"
    using go by (auto simp: poller_step_def elim!: poller_ended.elims(2))
  note own = running_owner [OF a run]
  from owners_okD(1) [OF _ own] inv
  have r: "dm_get (data (gw s)) (poller_canister_id (poller ?p)) = Some (poller_state (poller ?p))"
    by (simp add: gateway_inv_def)
  from go r have "(owner t x = Some (c, r) \<longrightarrow> owner s x = Some (c, r)) \<and>
      (dm_get (data (gw s)) c = Some r \<longrightarrow> (\<forall>x. owner s x \<noteq> Some (c, r)) \<longrightarrow> dm_get (data (gw t)) c = Some r) \<and>
      (owner s x = Some (c, r) \<longrightarrow> dm_get (data (gw t)) c = Some r \<longrightarrow> owner t x = Some (c, r))" for c r x
  proof (cases rule: poller_step_cases)
    case runs
    have "owner t x = owner s x" using run runs(1,3,4) a by (cases x) (auto simp: t nth_list_update)
    then show ?thesis using runs(2) by (auto simp: t simp del: owner_simps)
  next
    case (ends e)
    have "owner t x = (if x = Inl a then None else owner s x)"
      using run ends(6) a by (cases x) (auto simp: t nth_list_update)
    moreover have "dm_get (data (gw s)) c = Some r \<longrightarrow> (\<forall>x. owner s x \<noteq> Some (c, r)) \<longrightarrow>
        c \<noteq> poller_canister_id (poller ?p)"
    proof (intro impI notI)
      assume "dm_get (data (gw s)) c = Some r" "c = poller_canister_id (poller ?p)"
        "\<forall>x. owner s x \<noteq> Some (c, r)"
      with own r show False by (simp del: owner_simps)
    qed
    ultimately show ?thesis using own ends(2) by (auto simp: t simp del: owner_simps)
  qed
  then show "owner t x = Some (c, r) \<Longrightarrow> owner s x = Some (c, r)"
    and "dm_get (data (gw s)) c = Some r \<Longrightarrow> (\<forall>x. owner s x \<noteq> Some (c, r)) \<Longrightarrow>
           dm_get (data (gw t)) c = Some r"
    and "owner s x = Some (c, r) \<Longrightarrow> dm_get (data (gw t)) c = Some r \<Longrightarrow> owner t x = Some (c, r)"
    by blast+
qed

lemma orphaned_step:
  assumes inv: "gateway_inv s" and orph: "orphaned s c" and go: "gateway_step E s t"
  shows "orphaned t c"
proof -
  from orph obtain r where r: "dm_get (data (gw s)) c = Some r" and no: "\<And>x r. owner s x \<noteq> Some (c, r)"
    unfolding orphaned_def by blast
  have "dm_get (data (gw t)) c = Some r \<and> (\<forall>x r. owner t x \<noteq> Some (c, r))"
    using go
  proof cases
    case (connect i env h accepted)
    have hs: "handlers t = (handlers s)(i \<mapsto> h)" and ps: "pollers t = pollers s" and g: "gw t = gw s"
      by (simp_all add: connect)
    have "canister_id (client_session h) = None" using connect(3) by (cases rule: start_session_cases) auto
    then have "owner t x \<noteq> Some (c, r)" for x r
      using owner_other [OF hs ps, of "\<lambda>x c r. \<exists>y. owner s y = Some (c, r)" c r x] no by fastforce
    with r g show ?thesis by simp
  next
    case (client_event i h env u h' g')
    have t: "handlers t = (handlers s)(i \<mapsto> h')" "pollers t = pollers s" "gw t = g'"
      by (simp_all add: client_event(5))
    note o = owner_update [OF inv client_event(1,2,4) t]
    have "owner t x \<noteq> Some (c, r')" for x r' using o(1) [of x c r'] no r by auto
    with o(2) [OF r] show ?thesis by blast
  next
    case (canister_event i h env v ch' h' g')
    have t: "handlers t = (handlers s)(i \<mapsto> h')" "pollers t = pollers s" "gw t = g'"
      by (simp_all add: canister_event(6))
    note o = owner_update [OF inv canister_event(1,2,5) t]
    have "owner t x \<noteq> Some (c, r')" for x r' using o(1) [of x c r'] no r by auto
    with o(2) [OF r] show ?thesis by blast
  next
    case (handler_goes_on i h env h' g' spawned)
    note o = owner_continue [OF inv handler_goes_on(1,3,4)]
    show ?thesis using o(1) o(2) no r by metis
  next
    case (poller_goes_on a env p' g' chs')
    note o = owner_poller [OF inv poller_goes_on]
    show ?thesis using o(1) o(2) [OF r] no by metis
  qed
  then show ?thesis unfolding orphaned_def by blast
qed

lemma orphaned_run:
  "(gateway_step E)\<^sup>*\<^sup>* s t \<Longrightarrow> gateway_inv s \<Longrightarrow> orphaned s c \<Longrightarrow> orphaned t c"
proof (induction rule: rtranclp_induct)
  case (step t u)
  then show ?case by (blast intro: orphaned_step gateway_invariant.inv_run)
qed

text \<open>
  C27: a canister that is registered without a poller stays so for the rest of the run. No poller is
  ever started for it, since the gateway state takes it for polled, and none removes it: every client
  that opens a session on it later is registered and its message relayed, but no answer of the
  canister reaches it.
\<close>

theorem orphaned_canister_stays_unpolled:
  assumes "reachable E s" and "orphaned s c" and "(gateway_step E)\<^sup>*\<^sup>* s t"
  shows "dm_get (data (gw t)) c \<noteq> None \<and>
         (\<forall>p \<in> set (pollers t). poller_canister_id (poller p) = c \<longrightarrow> poller_ended (pc p)) \<and>
         fst (insert_client_channel_and_get_new_poller_state c k tx (gw t)) = None"
proof -
  from orphaned_run [OF assms(3) reachable_inv [OF assms(1)] assms(2)]
  have o: "dm_get (data (gw t)) c \<noteq> None" "\<And>x r. owner t x \<noteq> Some (c, r)"
    by (auto simp: orphaned_def simp del: owner_simps)
  have "poller_ended (pc p)" if "p \<in> set (pollers t)" "poller_canister_id (poller p) = c" for p
  proof -
    from that(1) obtain a where a: "a < length (pollers t)" "p = pollers t ! a"
      by (auto simp: in_set_conv_nth)
    show ?thesis using running_owner [OF a(1)] o(2) [of "Inl a"] a(2) that(2) by (metis (full_types))
  qed
  with o(1) show ?thesis by (auto simp: insert_effect split: option.split)
qed

text \<open>
  The run that orphans a canister: the first client of the canister is registered, its message cannot
  be written out again, and it is removed; the canister stays, and the poller state that was handed
  out is dropped with the handler.
\<close>

definition demo_orphan :: ws_gateway where
  "demo_orphan =
     schedule
       [Connects 7 mock_session_env, ClientSends 7 mock_session_env (Inr (Binary [5])),
        GoesOn 7 (mock_session_env\<lparr>cbor_envelope := (\<lambda>_. Inl ''io'')\<rparr>)] demo_gateway"

lemma broken_codec [simp]:
  "from_slice (env\<lparr>cbor_envelope := f\<rparr>) = from_slice env"
  "content_of (env\<lparr>cbor_envelope := f\<rparr>) = content_of env"
  "self_describe (env\<lparr>cbor_envelope := f\<rparr>) = self_describe env"
  by simp_all

lemma demo_orphan_reachable: "reachable (\<lambda>_ :: bytes session_env. True) demo_orphan"
  unfolding demo_orphan_def by (rule schedule_reachable [OF demo_reachable]) auto

lemma demo_orphan_orphaned: "orphaned demo_orphan (Principal [4])"
proof -
  have ps: "pollers demo_orphan = []" and r: "dm_get (data (gw demo_orphan)) (Principal [4]) = Some 0"
    and h7: "\<exists>h. handlers demo_orphan 7 = Some h \<and> pending_poller (handler_pc h) = None"
    and other: "\<And>i. i \<noteq> 7 \<Longrightarrow> handlers demo_orphan i = None"
    by (simp_all add: demo_orphan_def run_simps serialize_def self_describe_mock)
  have "owner demo_orphan x = None" for x
  proof (cases x)
    case (Inr i)
    with h7 other [of i] show ?thesis by (cases "i = 7") (auto simp: owner_def split: option.split)
  qed (simp add: ps)
  with r show ?thesis by (simp add: orphaned_def del: owner_simps)
qed

theorem orphaned_canister_stays_unpolled_witness:
  "\<exists>s. reachable (\<lambda>_ :: bytes session_env. True) s \<and>
     fst (insert_client_channel_and_get_new_poller_state (Principal [4]) (ClientKey_new (Principal [1]) 3) 8
       (gw s)) = None"
  using orphaned_canister_stays_unpolled [OF demo_orphan_reachable demo_orphan_orphaned rtranclp.rtrancl_refl]
    demo_orphan_reachable by blast

section \<open>Every polled canister has a poller\<close>

text \<open>
  Environments that read messages as a base one does and can write out every envelope they read: with
  them, a message that opened a session is always relayed.
\<close>

definition steady :: "'e session_env \<Rightarrow> 'e session_env \<Rightarrow> bool" where
  "steady base env \<longleftrightarrow>
     from_slice env = from_slice base \<and> content_of env = content_of base \<and>
     sender_of env = sender_of base \<and> decode_open_args env = decode_open_args base \<and>
     (\<forall>en. \<exists>b. serialize (self_describe env) (cbor_envelope env en) = Inr b)"

lemma steady_inspect:
  assumes "steady base env"
  shows "inspect_ic_ws_open_message env m = inspect_ic_ws_open_message base m"
proof -
  from assms have eqs: "from_slice env = from_slice base" "content_of env = content_of base"
    "sender_of env = sender_of base" "decode_open_args env = decode_open_args base"
    by (simp_all add: steady_def)
  show ?thesis unfolding inspect_ic_ws_open_message_def get_client_request_def eqs by (rule refl)
qed

lemma steady_relays:
  assumes "steady base env" and "inspect_ic_ws_open_message base m = Inr p" and "canister_id s = Some c"
  shows "fst (relay_client_message env m s) = Ok ()"
proof -
  obtain k c' where p: "p = (k, c')" by (cases p)
  then have "inspect_ic_ws_open_message env m = Inr (k, c')"
    using assms(2) steady_inspect [OF assms(1), of m] by metis
  then obtain en a where en: "get_client_request env m = Inr en" "content_of env en = Call c' a"
    by (auto simp: inspect_Inr_iff)
  from assms(1) obtain b where "serialize (self_describe env) (cbor_envelope env en) = Inr b"
    unfolding steady_def by blast
  with en assms(3) have "relay_client_message env m s =
      (Ok (), s\<lparr>started_calls := started_calls s @ [SpawnUpdateSigned c b]\<rparr>)"
    by (simp add: relay_client_message_Ok_iff)
  then show ?thesis by simp
qed

definition covered :: "'e session_env \<Rightarrow> ws_gateway \<Rightarrow> bool" where
  "covered base s \<longleftrightarrow>
     gateway_inv s \<and>
     (\<forall>c r. dm_get (data (gw s)) c = Some r \<longrightarrow> (\<exists>x. owner s x = Some (c, r))) \<and>
     (\<forall>i h c k m new. handlers s i = Some h \<longrightarrow> handler_pc h = HandlerRelayOpen c k m new \<longrightarrow>
        (\<exists>p. inspect_ic_ws_open_message base m = Inr p))"

text \<open>An owner other than the handler that changes stays an owner.\<close>

lemma owner_keeps:
  "handlers t = (handlers s)(i \<mapsto> h') \<Longrightarrow> pollers t = pollers s @ ps \<Longrightarrow> x \<noteq> Inr i \<Longrightarrow>
     owner s x = Some p \<Longrightarrow> owner t x = Some p"
  by (cases x) (auto simp: nth_append split: if_splits)

lemma covered_update:
  assumes cov: "covered base s" and E: "steady base env"
    and h: "handlers s i = Some h" "handler_pc h = HandlerUpdate"
    and up: "handler_update env ev h (gw s) = (h', g')"
    and hs: "handlers t = (handlers s)(i \<mapsto> h')" and ps: "pollers t = pollers s" and g: "gw t = g'"
  shows "(\<forall>c r. dm_get (data (gw t)) c = Some r \<longrightarrow> (\<exists>x. owner t x = Some (c, r))) \<and>
         (\<forall>c k m new. handler_pc h' = HandlerRelayOpen c k m new \<longrightarrow>
            (\<exists>p. inspect_ic_ws_open_message base m = Inr p))"
proof -
  have inv: "gateway_inv s" using cov by (simp add: covered_def)
  have keep: "\<exists>x. owner t x = Some (c, r)" if "dm_get (data (gw s)) c = Some r" for c r
  proof -
    from cov that obtain x where x: "owner s x = Some (c, r)" unfolding covered_def by blast
    moreover have "owner s (Inr i) = None" using h by (simp del: owner_simps)
    ultimately have "x \<noteq> Inr i" by (auto simp del: owner_simps)
    with owner_keeps [OF hs, of "[]" x] x ps show ?thesis by auto
  qed
  from gateway_inv_handler [OF inv h(1)] h(2) up show ?thesis
  proof (cases rule: handler_update_cases)
    case (register x c k m new)
    have "canister_id (client_session h') = Some c" using register by (simp add: handler_wf_def)
    then have "new = Some r \<Longrightarrow> owner t (Inr i) = Some (c, r)" for r using register(4) hs by simp
    moreover have "dm_get (data (gw s)) c = None \<Longrightarrow> new = Some (next_arc (gw s))"
      using register(3) by (simp add: insert_effect)
    ultimately have "dm_get (data (gw t)) c' = Some r \<Longrightarrow> \<exists>x. owner t x = Some (c', r)" for c' r
      using keep [of c' r] register(2) unfolding g
      by (auto simp: insert_effect simp del: owner_simps split: option.splits if_splits)
    moreover have "\<exists>p. inspect_ic_ws_open_message base m = Inr p"
      using register(6) steady_inspect [OF E, of m] by metis
    ultimately show ?thesis using register(4) by simp
  qed (use keep g h in \<open>auto simp: remove_effect simp del: owner_simps\<close>)
qed

lemma covered_continue:
  assumes cov: "covered base s" and E: "steady base env" and h: "handlers s i = Some h"
    and go: "handler_continue env h (gw s) = Some (h', g', sp)"
    and t: "t = put_spawned sp (put_handler i h' (s\<lparr>gw := g'\<rparr>))"
  shows "(\<forall>c r. dm_get (data (gw t)) c = Some r \<longrightarrow> (\<exists>x. owner t x = Some (c, r))) \<and>
         (\<forall>c k m new. handler_pc h' \<noteq> HandlerRelayOpen c k m new)"
proof -
  have inv: "gateway_inv s" using cov by (simp add: covered_def)
  have hs: "handlers t = (handlers s)(i \<mapsto> h')"
    and ps: "pollers t = pollers s @ (case sp of None \<Rightarrow> [] | Some t \<Rightarrow> [t])" by (simp_all add: t)
  have gd: "data (gw t) = data (gw s)" by (rule owner_continue(2) [OF inv h go t])
  have own: "\<exists>x. owner t x = Some (c, r)"
    if "dm_get (data (gw t)) c = Some r" and mine: "owner s (Inr i) = Some (c, r) \<Longrightarrow> \<exists>x. owner t x = Some (c, r)"
    for c r
  proof -
    from cov that(1) obtain x where x: "owner s x = Some (c, r)" unfolding gd covered_def by blast
    show ?thesis using owner_keeps [OF hs ps _ x] mine x by (cases "x = Inr i") blast+
  qed
  note wf = gateway_inv_handler [OF inv h]
  from wf go show ?thesis
  proof (cases rule: handler_continue_cases)
    case (relayed z c k m new)
    have "owner t (Inr i) = owner s (Inr i)"
      using relayed h by (auto simp: hs same_session_def split: option.split)
    with own have "\<forall>c r. dm_get (data (gw t)) c = Some r \<longrightarrow> (\<exists>x. owner t x = Some (c, r))" by metis
    with relayed(7) show ?thesis by (simp del: owner_simps split: option.split)
  next
    case (relay_failed z c k m new r)
    have "canister_id (client_session h) = Some c" using wf relay_failed(1) by (simp add: handler_wf_def)
    moreover from cov h relay_failed(1) obtain p where "inspect_ic_ws_open_message base m = Inr p"
      unfolding covered_def by blast
    ultimately show ?thesis using steady_relays [OF E] relay_failed(3) by fastforce
  next
    case (started r c)
    have "owner s (Inr i) = Some (c, r)" using started h by simp
    moreover have "owner t (Inl (length (pollers s))) = Some (c, r)"
      using started by (simp add: ps poller_task_new_def CanisterPoller_new_def)
    ultimately have "\<forall>c r. dm_get (data (gw t)) c = Some r \<longrightarrow> (\<exists>x. owner t x = Some (c, r))"
      using own by (metis option.inject)
    with started(5) show ?thesis by (simp del: owner_simps)
  next
    case (ws_closed c k r)
    have "owner s (Inr i) = None" using ws_closed h by (simp del: owner_simps)
    with own have "\<forall>c r. dm_get (data (gw t)) c = Some r \<longrightarrow> (\<exists>x. owner t x = Some (c, r))"
      by (metis option.distinct(1))
    with ws_closed(4) show ?thesis by (simp del: owner_simps)
  qed
qed

lemma poller_step_data:
  "poller_step env p g chs = Some (p', g', chs') \<Longrightarrow>
     data g' = data g \<or> (\<exists>c. data g' = dm_erase c (data g))"
  by (auto simp: poller_step_def Let_def poller_should_terminate_def remove_canister_if_empty_def
      remove_failed_canister_def split: poller_pc.splits option.splits prod.splits list.splits
      outcome.splits CanisterRemovalResult.splits if_splits)

lemma covered_step:
  assumes cov: "covered base s" and go: "gateway_step (steady base) s t"
  shows "covered base t"
proof -
  have inv: "gateway_inv s" using cov by (simp add: covered_def)
  have owned: "\<exists>x. owner s x = Some (c, r)" if "dm_get (data (gw s)) c = Some r" for c r
    using cov that by (simp add: covered_def del: owner_simps)
  have relaying: "\<exists>p. inspect_ic_ws_open_message base m = Inr p"
    if "handlers s i = Some h" "handler_pc h = HandlerRelayOpen c k m new" for i h c k m new
    using cov that unfolding covered_def by blast
  have "(\<forall>c r. dm_get (data (gw t)) c = Some r \<longrightarrow> (\<exists>x. owner t x = Some (c, r))) \<and>
      (\<forall>i h c k m new. handlers t i = Some h \<longrightarrow> handler_pc h = HandlerRelayOpen c k m new \<longrightarrow>
        (\<exists>p. inspect_ic_ws_open_message base m = Inr p))"
    using go
  proof cases
    case (connect i env h accepted)
    have t: "handlers t = (handlers s)(i \<mapsto> h)" "pollers t = pollers s @ []" "gw t = gw s"
      by (simp_all add: connect)
    have "owner s (Inr i) = None" using connect(1) by simp
    then have "owner s x = Some p \<Longrightarrow> owner t x = Some p" for x p
      using owner_keeps [OF t(1,2), of x p] by (cases "x = Inr i") (simp_all del: owner_simps)
    moreover have "handler_pc h \<noteq> HandlerRelayOpen c k m new" for c k m new
      using connect(3) by (cases rule: start_session_cases) simp_all
    ultimately show ?thesis using owned relaying unfolding t by (metis fun_upd_apply option.inject)
  next
    case (client_event i h env u h' g')
    have t: "handlers t = (handlers s)(i \<mapsto> h')" "pollers t = pollers s" "gw t = g'"
      by (simp_all add: client_event(5))
    from covered_update [OF cov client_event(3,1,2,4) t] relaying show ?thesis
      unfolding t(1) by (metis fun_upd_apply option.inject)
  next
    case (canister_event i h env v ch' h' g')
    have t: "handlers t = (handlers s)(i \<mapsto> h')" "pollers t = pollers s" "gw t = g'"
      by (simp_all add: canister_event(6))
    from covered_update [OF cov canister_event(3,1,2,5) t] relaying show ?thesis
      unfolding t(1) by (metis fun_upd_apply option.inject)
  next
    case (handler_goes_on i h env h' g' spawned)
    have t: "handlers t = (handlers s)(i \<mapsto> h')" by (simp add: handler_goes_on(4))
    from covered_continue [OF cov handler_goes_on(2,1,3,4)] relaying show ?thesis
      unfolding t by (metis fun_upd_apply option.inject)
  next
    case (poller_goes_on a env p' g' chs')
    note o = owner_poller [OF inv poller_goes_on]
    have "\<exists>x. owner t x = Some (c, r)" if "dm_get (data (gw t)) c = Some r" for c r
    proof (cases "dm_get (data (gw s)) c = Some r")
      case True
      with owned o(3) that show ?thesis by blast
    next
      case False
      have "data (gw t) = data (gw s) \<or> (\<exists>c. data (gw t) = dm_erase c (data (gw s)))"
        using poller_step_data [OF poller_goes_on(2)] by (simp add: poller_goes_on(3))
      with that False show ?thesis by (auto split: if_splits)
    qed
    moreover have "handlers t = handlers s" by (simp add: poller_goes_on(3))
    ultimately show ?thesis using relaying by metis
  qed
  with gateway_inv_step [OF go inv] show ?thesis unfolding covered_def by blast
qed

interpretation coverage: inductive_invariant gateway_init "gateway_step (steady base)" "covered base"
  for base :: "'e session_env"
proof unfold_locales
  show "covered base s" if "gateway_init s" for s
    using that gateway_inv_new [OF that]
    by (auto simp: covered_def gateway_init_def ws_gateway_new_def GatewayState_new_def)
qed (rule covered_step)

text \<open>
  C8: as long as every envelope the gateway reads can be written out again, each polled canister has a
  running poller that relays from its poller state, or a session handler that is about to start one.
  So after a client opened a session on a canister, the canister is polled.
\<close>

theorem polled_canister_has_poller:
  assumes "reachable (steady base) s" and "dm_get (data (gw s)) c = Some r"
  shows "(\<exists>t \<in> set (pollers s). \<not> poller_ended (pc t) \<and> poller_canister_id (poller t) = c \<and>
            poller_state (poller t) = r) \<or>
         (\<exists>i h. handlers s i = Some h \<and> canister_id (client_session h) = Some c \<and>
            pending_poller (handler_pc h) = Some r)"
proof -
  from coverage.inv_reach [OF assms(1)] assms(2) obtain x where x: "owner s x = Some (c, r)"
    unfolding covered_def by blast
  show ?thesis
  proof (cases x)
    case (Inl a)
    with x show ?thesis by (auto split: if_splits intro!: disjI1 bexI [where x = "pollers s ! a"])
  next
    case (Inr i)
    with x show ?thesis by (auto split: option.splits)
  qed
qed

lemma steady_mock: "steady mock_session_env mock_session_env"
  by (simp add: steady_def)

theorem polled_canister_has_poller_witness:
  "\<exists>t \<in> set (pollers demo_open). poller_canister_id (poller t) = Principal [4] \<and> poller_state (poller t) = 0"
proof -
  have "reachable (steady mock_session_env) demo_open"
    unfolding demo_open_def
    by (rule schedule_reachable [OF demo_reachable]) (auto simp: opens_def steady_mock)
  from polled_canister_has_poller [OF this demo_open_gw(1)] show ?thesis
    by (auto simp: demo_open_pollers poller_task_new_def CanisterPoller_new_def)
qed

section \<open>Environments of the examples\<close>

text \<open>A canister whose answer cannot be decoded, and a client with another key.\<close>

definition failing_env :: poller_env where
  "failing_env =
     \<lparr>get_messages = (\<lambda>_ _. (0, Inl (Candid ''bad''))), agent_error_debug = (\<lambda>_. []), elapsed = 0\<rparr>"

definition other_session_env :: "bytes session_env" where
  "other_session_env = mock_session_env\<lparr>sender_of := (\<lambda>_. Principal [3])\<rparr>"

lemma other_codecs [simp]:
  "start_session other_session_env (Inr ()) (Inr p) (ClientSessionHandler_new i n) =
     start_session mock_session_env (Inr ()) (Inr p) (ClientSessionHandler_new i n)"
  "inspect_ic_ws_open_message other_session_env (Binary b) =
     Inr (ClientKey_new (Principal [3]) 9, Principal [4])"
proof -
  show "inspect_ic_ws_open_message other_session_env (Binary b) =
     Inr (ClientKey_new (Principal [3]) 9, Principal [4])"
    by (simp add: other_session_env_def inspect_ic_ws_open_message_def get_client_request_def)
  show "start_session other_session_env (Inr ()) (Inr p) (ClientSessionHandler_new i n) =
     start_session mock_session_env (Inr ()) (Inr p) (ClientSessionHandler_new i n)"
    unfolding mock_connect
    by (simp add: other_session_env_def mock_session_env_def start_session_def ClientSession_init_def
        serialize_def send_ws_message_to_client_def Let_def)
qed

lemma failing_poll:
  "poller_step failing_env \<lparr>poller = p, pc = PollerLoop\<rparr> g chs =
     Some (\<lparr>poller = p, pc = PollerFailed ''Unrecoverable candid error: bad''\<rparr>,
           set_clients_gauge (poller_canister_id p) (dm_len (arcs g (poller_state p))) g, chs)"
  "poller_step failing_env \<lparr>poller = p, pc = PollerFailed e\<rparr> g chs =
     (case remove_failed_canister (poller_canister_id p) g of
        (Panic m, g') \<Rightarrow> Some (\<lparr>poller = p, pc = PollerDone (Panic m)\<rparr>, g', chs)
      | (_, g') \<Rightarrow> Some (\<lparr>poller = p, pc = PollerDone (Err e)\<rparr>, g', chs))"
  by (simp_all add: poller_step_def poll_and_relay_start_def poll_canister_def failing_env_def
      timeout_def Let_def split: prod.split outcome.split)

end
