(* ===== verification/Gateway_Sessions.thy ===== *)
theory Gateway_Sessions
  imports Gateway_Safety
begin

text \<open>
  What holds of every session over its whole life inside the gateway: the shape of its task, what it
  tells the canister when it ends, and that it ends when its poller does.
\<close>

section \<open>The shape of a handler's task\<close>

lemma update_client_id: "client_id (snd (try_update_state env ev s)) = client_id s"
proof (cases rule: handle_event_cases [of s env ev])
  case (opened m cm)
  with relay_canister_frame(1) [of s env cm] show ?thesis by (simp add: same_session_def)
qed (simp_all add: same_session_def)

lemma handler_update_frame:
  assumes "handler_update env ev h g = (h', g')"
  shows "handler h' = handler h"
    and "client_session h' = snd (try_update_state env ev (client_session h))"
proof -
  obtain r t where rt: "try_update_state env ev (client_session h) = (r, t)" by fastforce
  with assms show "handler h' = handler h"
    and "client_session h' = snd (try_update_state env ev (client_session h))"
    by (auto simp: handler_update_eq Let_def goto_def split: outcome.splits)
qed

text \<open>The identifier of a handler is that of its session, and the name of its channel.\<close>

definition handler_typed :: "u64 \<Rightarrow> handler_task \<Rightarrow> bool" where
  "handler_typed i h \<longleftrightarrow>
     handler_wf i h \<and> handler_id (handler h) = i \<and> client_id (client_session h) = i"

lemma start_session_id:
  assumes "h = start_session env accepted p sh"
  shows "handler h = sh" and "client_id (client_session h) = handler_id sh"
    and "started_calls (client_session h) = []"
proof -
  have "client_id (snd (ClientSession_init env i q)) = i" for i q
    using session_init_frame [of i env q] by (simp add: same_session_def)
  moreover have "started_calls (snd (ClientSession_init env i q)) = []" for i q
    by (auto simp: ClientSession_init_def send_ws_message_to_client_def Let_def split: sum.splits)
  ultimately show "handler h = sh" and "client_id (client_session h) = handler_id sh"
    and "started_calls (client_session h) = []"
    using assms
    by (auto simp: start_session_def Let_def split: sum.splits prod.splits outcome.splits)
      (metis snd_conv)+
qed

section \<open>What a session tells the canister\<close>

fun is_ws_close :: "agent_call \<Rightarrow> bool" where
  "is_ws_close (WsClose _ _) = True"
| "is_ws_close (SpawnUpdateSigned _ _) = False"

text \<open>The handler has not called \<open>ws_close\<close>, or it did so last, for its client, and has ended.\<close>

definition closes_last :: "handler_task \<Rightarrow> bool" where
  "closes_last h \<longleftrightarrow>
     (let s = client_session h in
      filter is_ws_close (started_calls s) = [] \<or>
      (\<exists>calls c k. started_calls s = calls @ [WsClose c k] \<and> filter is_ws_close calls = [] \<and>
         canister_id s = Some c \<and> client_key s = Some k \<and> handler_ended (handler_pc h)))"

lemma closes_last_calls:
  "closes_last h \<Longrightarrow> \<not> handler_ended (handler_pc h) \<Longrightarrow>
     filter is_ws_close (started_calls (client_session h)) = []"
  by (auto simp: closes_last_def)

lemma closes_lastI:
  "filter is_ws_close (started_calls (client_session h)) = [] \<Longrightarrow> closes_last h"
  by (simp add: closes_last_def)

lemma update_no_ws_close:
  "filter is_ws_close (started_calls (snd (try_update_state env ev s))) =
     filter is_ws_close (started_calls s)"
  using update_calls [of env ev s] by auto

lemma relay_no_ws_close:
  "filter is_ws_close (started_calls (snd (relay_client_message env m s))) =
     filter is_ws_close (started_calls s)"
  using relay_client_cases [of env m s] by auto

lemma update_closes_last:
  assumes "closes_last h" "handler_pc h = HandlerUpdate" "handler_update env ev h g = (h', g')"
  shows "closes_last h'"
  using closes_last_calls [OF assms(1)] assms(2) handler_update_frame(2) [OF assms(3)]
    update_no_ws_close [of env ev "client_session h"]
  by (intro closes_lastI) simp

lemma continue_session:
  assumes "handler_continue env h g = Some (h', g', sp)"
  obtains "client_session h' = client_session h"
  | m where "client_session h' = snd (relay_client_message env m (client_session h))"
  | c k r where "handler_pc h = HandlerWsClose c k r" "handler_pc h' = HandlerDone r"
      "client_session h' = call_ws_close c k (client_session h)"
proof (cases "handler_pc h")
  case (HandlerRelayOpen c k m new)
  with assms show ?thesis
    by (intro that(2) [of m])
       (auto simp: handler_continue_def relay_open_message_def goto_def end_task_def
          split: outcome.splits prod.splits)
qed (use assms in \<open>auto simp: handler_continue_def end_task_def split: outcome.splits intro: that\<close>)

lemma no_ws_close_set: "filter is_ws_close calls = [] \<Longrightarrow> WsClose c k \<notin> set calls"
  by (auto simp: filter_empty_conv)

lemma continue_closes_last:
  assumes wf: "handler_wf i h" and ok: "closes_last h"
    and go: "handler_continue env h g = Some (h', g', sp)"
  shows "closes_last h'"
proof -
  have "\<not> handler_ended (handler_pc h)"
    using go by (auto simp: handler_continue_def Let_def elim!: handler_ended.elims(2))
  note none = closes_last_calls [OF ok this]
  from go show ?thesis
  proof (cases rule: continue_session)
    case (2 m)
    with none relay_no_ws_close [of env m "client_session h"] show ?thesis by (simp add: closes_lastI)
  next
    case (3 c k r)
    with wf none show ?thesis by (auto simp: closes_last_def handler_wf_def call_ws_close_def Let_def)
  qed (use none in \<open>simp add: closes_lastI\<close>)
qed

section \<open>Both hold in every reachable state\<close>

definition sessions_ok :: "ws_gateway \<Rightarrow> bool" where
  "sessions_ok s \<longleftrightarrow>
     gateway_inv s \<and> (\<forall>i h. handlers s i = Some h \<longrightarrow> handler_typed i h \<and> closes_last h)"

lemma continue_ids:
  assumes wf: "handler_wf i h" and go: "handler_continue env h g = Some (h', g', sp)"
  shows "handler h' = handler h" and "client_id (client_session h') = client_id (client_session h)"
proof -
  from wf go have "handler h' = handler h \<and> client_id (client_session h') = client_id (client_session h)"
    by (cases rule: handler_continue_cases) (simp_all add: same_session_def call_ws_close_def)
  then show "handler h' = handler h" and "client_id (client_session h') = client_id (client_session h)"
    by simp_all
qed

lemma sessions_step:
  assumes inv: "sessions_ok s" and go: "gateway_step E s t" and h': "handlers t j = Some h'"
  shows "handler_typed j h' \<and> closes_last h'"
proof -
  have inv': "gateway_inv s" "gateway_inv t"
    using inv gateway_inv_step [OF go] by (simp_all add: sessions_ok_def)
  note wf = gateway_inv_handler [OF inv'(2) h']
  have old: "handler_typed j h \<and> closes_last h" if "handlers s j = Some h" for h
    using that inv by (simp add: sessions_ok_def)
  from handlers_step [OF go h'] show ?thesis
  proof (elim disjE conjE exE)
    assume "handlers s j = Some h'"
    with old show ?thesis by blast
  next
    fix env accepted
    assume "h' = start_session env accepted (gw_principal s) (ClientSessionHandler_new j (gw_interval_ms s))"
    from start_session_id [OF this] wf show ?thesis
      by (simp add: handler_typed_def closes_lastI)
  next
    fix h env ev g'
    assume h: "handlers s j = Some h" "handler_pc h = HandlerUpdate"
      and up: "handler_update env ev h (gw s) = (h', g')"
    from old [OF h(1)] wf handler_update_frame [OF up] update_closes_last [OF _ h(2) up]
    show ?thesis by (simp add: handler_typed_def update_client_id del: snd_try_update_state)
  next
    fix h env g' sp
    assume h: "handlers s j = Some h" and go': "handler_continue env h (gw s) = Some (h', g', sp)"
    note wf_old = gateway_inv_handler [OF inv'(1) h]
    from old [OF h] wf continue_ids [OF wf_old go'] continue_closes_last [OF wf_old _ go']
    show ?thesis by (simp add: handler_typed_def)
  qed
qed

interpretation sessions: inductive_invariant gateway_init "gateway_step E" sessions_ok for E
proof unfold_locales
  show "sessions_ok s" if "gateway_init s" for s
    using that gateway_inv_new [OF that] by (auto simp: sessions_ok_def gateway_init_def ws_gateway_new_def)
  show "sessions_ok t" if "sessions_ok s" "gateway_step E s t" for s t
    using that gateway_inv_step [OF that(2)] sessions_step [OF that]
    unfolding sessions_ok_def by blast
qed

text \<open>
  C6: in every reachable state the task of each session handler has the shape its code relies on: its
  identifier is that of its session and of its channel; it holds the sender of the channel exactly
  while the session is in Init; the client's key and canister are known from Setup on; and a handler
  that is inside an arm carries the data of its own client.
\<close>

theorem handlers_well_typed:
  assumes "reachable E s" and "handlers s i = Some h"
  shows "handler_typed i h"
  using sessions.inv_reach [OF assms(1)] assms(2) by (simp add: sessions_ok_def)

theorem handlers_well_typed_witness:
  "\<exists>h. handlers demo_open 7 = Some h \<and> handler_typed 7 h"
  using demo_open_handler handlers_well_typed [OF demo_open_reachable] by blast

text \<open>
  C5: a handler calls \<open>ws_close\<close> at most once, with the very canister and client it registered. It is the
  last thing it starts: a handler that has made that call has ended, so it spawns no relay afterwards.
  (The relays it spawned before are tasks of their own, which may still make their calls later;
  \<open>Gateway_Relays\<close> shows in which orders.)
\<close>

theorem ws_close_at_most_once:
  assumes "reachable E s" and "handlers s i = Some h"
  shows "length (filter is_ws_close (started_calls (client_session h))) \<le> 1 \<and>
         (\<forall>c k. WsClose c k \<in> set (started_calls (client_session h)) \<longrightarrow>
            last (started_calls (client_session h)) = WsClose c k \<and> handler_ended (handler_pc h) \<and>
            canister_id (client_session h) = Some c \<and> client_key (client_session h) = Some k)"
proof -
  from sessions.inv_reach [OF assms(1)] assms(2) have "closes_last h" by (simp add: sessions_ok_def)
  then show ?thesis by (auto simp: closes_last_def Let_def dest: no_ws_close_set)
qed

text \<open>The run in which the client opens its session and then sends a close message.\<close>

definition demo_left :: ws_gateway where
  "demo_left =
     schedule [ClientSends 7 mock_session_env (Inr (Close None)), GoesOn 7 mock_session_env] demo_open"

lemma demo_left_reachable: "reachable (\<lambda>env. env = mock_session_env) demo_left"
  unfolding demo_left_def by (rule schedule_reachable [OF demo_open_reachable]) auto

lemma demo_left_handler:
  "\<exists>h. handlers demo_left 7 = Some h \<and>
     started_calls (client_session h) =
       [SpawnUpdateSigned (Principal [4]) [217, 217, 247, 5], WsClose (Principal [4]) (ClientKey_new (Principal [1]) 9)]"
  by (simp add: demo_left_def demo_open_def run_simps client_update_close get_canister_id_def
      get_client_key_def call_ws_close_def)

theorem ws_close_at_most_once_witness:
  "\<exists>h. handlers demo_left 7 = Some h \<and> handler_ended (handler_pc h) \<and>
     last (started_calls (client_session h)) = WsClose (Principal [4]) (ClientKey_new (Principal [1]) 9)"
proof -
  obtain h where h: "handlers demo_left 7 = Some h" "started_calls (client_session h) =
      [SpawnUpdateSigned (Principal [4]) [217, 217, 247, 5], WsClose (Principal [4]) (ClientKey_new (Principal [1]) 9)]"
    using demo_left_handler by blast
  with ws_close_at_most_once [OF demo_left_reachable h(1)] show ?thesis by auto
qed

end
