(* ===== verification/Gateway_Liveness.thy ===== *)
theory Gateway_Liveness
  imports Gateway_Sessions
begin

text \<open>
  When a poller ends, the sessions whose senders its poller state held end too: the poller state is
  never used again, each sender is in one poller state only, so the channel of such a session is never
  written again and, once it is drained, tells the session that the poller is gone.
\<close>

section \<open>What a step does to poller states and pollers\<close>

definition live_data :: "ws_gateway \<Rightarrow> poller_ref \<Rightarrow> bool" where
  "live_data s r \<longleftrightarrow> (\<exists>c. dm_get (data (gw s)) c = Some r)"

text \<open>A poller of the new state was there before, or it runs on a poller state of the gateway.\<close>

definition pollers_from :: "ws_gateway \<Rightarrow> ws_gateway \<Rightarrow> bool" where
  "pollers_from s t \<longleftrightarrow>
     (\<forall>p \<in> set (pollers t). p \<in> set (pollers s) \<or>
        (\<not> poller_ended (pc p) \<and> live_data s (poller_state (poller p)))) \<and>
     (\<forall>p \<in> set (pollers s). poller_ended (pc p) \<longrightarrow> p \<in> set (pollers t))"

lemma pollers_from_same [simp]: "pollers t = pollers s \<Longrightarrow> pollers_from s t"
  by (simp add: pollers_from_def)

text \<open>The entries of the poller states only shrink, and only in those the gateway state has.\<close>

definition entries_shrink :: "ws_gateway \<Rightarrow> ws_gateway \<Rightarrow> bool" where
  "entries_shrink s t \<longleftrightarrow>
     next_arc (gw t) = next_arc (gw s) \<and>
     (\<forall>r k cs. dm_get (arcs (gw t) r) k = Some cs \<longrightarrow> dm_get (arcs (gw s) r) k = Some cs) \<and>
     (\<forall>r. \<not> live_data s r \<longrightarrow> arcs (gw t) r = arcs (gw s) r)"

lemma entries_shrink_same [simp]: "gw t = gw s \<Longrightarrow> entries_shrink s t"
  by (simp add: entries_shrink_def)

lemma remove_next_arc [simp]: "next_arc (snd (remove_client_if_exists c k g)) = next_arc g"
  by (auto simp: remove_client_if_exists_def split: option.split)

lemma entries_shrink_remove:
  "gw t = snd (remove_client_if_exists c k (gw s)) \<Longrightarrow> entries_shrink s t"
  by (auto simp: entries_shrink_def live_data_def remove_effect split: option.splits if_splits)

lemma update_effect:
  assumes inv: "gateway_inv s" and h: "handlers s i = Some h" "handler_pc h = HandlerUpdate"
    and up: "handler_update env ev h (gw s) = (h', g')" and g: "gw t = g'"
  obtains (shrinks) "data (gw t) = data (gw s)" "entries_shrink s t"
  | (inserts) c k where "client_channel_tx h = Some i"
      "gw t = snd (insert_client_channel_and_get_new_poller_state c k i (gw s))"
  using gateway_inv_handler [OF inv h(1)] h(2) up
proof (cases rule: handler_update_cases)
  case (leave x c k p)
  with g show ?thesis by (intro shrinks) (simp_all add: remove_effect entries_shrink_remove)
qed (use g in \<open>auto intro: shrinks inserts\<close>)

text \<open>The effect of every step of the gateway on the shared state.\<close>

lemma gateway_step_effect:
  assumes inv: "gateway_inv s" and go: "gateway_step E s t"
  obtains (shrinks) "data (gw t) = data (gw s)" "entries_shrink s t" "pollers_from s t"
  | (inserts) c k i where "unregistered s i" "pollers t = pollers s"
      "gw t = snd (insert_client_channel_and_get_new_poller_state c k i (gw s))"
  | (ends) p p' where "p \<in> set (pollers s)" "\<not> poller_ended (pc p)"
      "dm_get (data (gw s)) (poller_canister_id (poller p)) = Some (poller_state (poller p))"
      "data (gw t) = dm_erase (poller_canister_id (poller p)) (data (gw s))"
      "poller p' = poller p" "poller_ended (pc p')" "entries_shrink s t"
      "set (pollers t) \<subseteq> insert p' (set (pollers s))"
      "\<forall>q \<in> set (pollers s). poller_ended (pc q) \<longrightarrow> q \<in> set (pollers t)"
  using go
proof cases
  case (connect i env h accepted)
  then show ?thesis by (intro shrinks) simp_all
next
  case (client_event i h env u h' g')
  have g: "gw t = g'" and ps: "pollers t = pollers s" by (simp_all add: client_event)
  from inv client_event(1,2,4) g show ?thesis
  proof (cases rule: update_effect)
    case (inserts c k)
    with client_event(1) ps show ?thesis by (intro that(2)) (simp_all add: unregistered_def)
  qed (use ps in \<open>auto intro: that(1)\<close>)
next
  case (canister_event i h env v ch' h' g')
  have g: "gw t = g'" and ps: "pollers t = pollers s" by (simp_all add: canister_event)
  from inv canister_event(1,2,5) g show ?thesis
  proof (cases rule: update_effect)
    case (inserts c k)
    with canister_event(1) ps show ?thesis by (intro that(2)) (simp_all add: unregistered_def)
  qed (use ps in \<open>auto intro: that(1)\<close>)
next
  case (handler_goes_on i h env h' g' spawned)
  from gateway_inv_handler [OF inv handler_goes_on(1)] handler_goes_on(3) show ?thesis
  proof (cases rule: handler_continue_cases)
    case (relay_failed x c k m new r)
    then show ?thesis
      by (intro shrinks) (simp_all add: handler_goes_on(4) remove_effect entries_shrink_remove)
  next
    case (started r c)
    have "owner s (Inr i) = Some (c, r)" using started(1,2) handler_goes_on(1) by simp
    with inv have "dm_get (data (gw s)) c = Some r" by (simp only: gateway_inv_def owners_okD(1))
    with started show ?thesis
      by (intro shrinks)
        (auto simp: handler_goes_on(4) pollers_from_def live_data_def poller_task_new_def CanisterPoller_new_def)
  qed (auto intro: shrinks simp: handler_goes_on(4))
next
  case (poller_goes_on a env p' g' chs')
  let ?p = "pollers s ! a"
  have run: "\<not> poller_ended (pc ?p)"
    using poller_goes_on(2) by (auto simp: poller_step_def elim!: poller_ended.elims(2))
  from owners_okD(1) [OF _ running_owner [OF poller_goes_on(1) run]] inv
  have r: "dm_get (data (gw s)) (poller_canister_id (poller ?p)) = Some (poller_state (poller ?p))"
    by (simp add: gateway_inv_def)
  have p: "?p \<in> set (pollers s)" using poller_goes_on(1) by simp
  have kept: "q \<in> set (pollers t)" if q: "q \<in> set (pollers s)" "poller_ended (pc q)" for q
  proof -
    from q(1) obtain b where "b < length (pollers s)" "pollers s ! b = q" by (auto simp: in_set_conv_nth)
    with q(2) run have "b < length (pollers t)" "pollers t ! b = q"
      by (cases "a = b"; auto simp: poller_goes_on(3))+
    then show ?thesis by (auto simp: in_set_conv_nth)
  qed
  have new: "set (pollers t) \<subseteq> insert p' (set (pollers s))"
    by (simp add: poller_goes_on(3) set_update_subset_insert)
  from poller_goes_on(2) r show ?thesis
  proof (cases rule: poller_step_cases)
    case runs
    have "entries_shrink s t" using runs(2) by (auto simp: poller_goes_on(3) entries_shrink_def)
    moreover have "pollers_from s t"
      unfolding pollers_from_def
    proof (intro conjI ballI impI)
      have "live_data s (poller_state (poller p'))" using runs(4) r unfolding live_data_def by auto
      then show "p \<in> set (pollers s) \<or> \<not> poller_ended (pc p) \<and> live_data s (poller_state (poller p))"
        if "p \<in> set (pollers t)" for p
        using that new runs(1) by blast
    qed (rule kept)
    ultimately show ?thesis using runs(2) by (intro shrinks) (auto simp: poller_goes_on(3))
  next
    case (ends e)
    have "entries_shrink s t" using ends(2) by (simp add: poller_goes_on(3) entries_shrink_def)
    with ends p run r new kept show ?thesis by (intro that(3) [of ?p p']) (simp_all add: poller_goes_on(3))
  qed
qed

section \<open>Senders and poller states are used once\<close>

definition entry :: "ws_gateway \<Rightarrow> poller_ref \<Rightarrow> ClientKey \<Rightarrow> u64 \<Rightarrow> bool" where
  "entry s r k i \<longleftrightarrow> (\<exists>cs. dm_get (arcs (gw s) r) k = Some cs \<and> sender cs = i)"

definition senders_once :: "ws_gateway \<Rightarrow> bool" where
  "senders_once s \<longleftrightarrow> (\<forall>i r k r' k'. entry s r k i \<longrightarrow> entry s r' k' i \<longrightarrow> r' = r \<and> k' = k)"

definition pollers_once :: "ws_gateway \<Rightarrow> bool" where
  "pollers_once s \<longleftrightarrow>
     (\<forall>p \<in> set (pollers s). poller_state (poller p) < next_arc (gw s) \<and>
        (poller_ended (pc p) \<longrightarrow> \<not> live_data s (poller_state (poller p))))"

definition links_ok :: "ws_gateway \<Rightarrow> bool" where
  "links_ok s \<longleftrightarrow> gateway_inv s \<and> senders_once s \<and> pollers_once s"

lemma entry_shrink: "entries_shrink s t \<Longrightarrow> entry t r k i \<Longrightarrow> entry s r k i"
  unfolding entries_shrink_def entry_def by blast

lemma live_data_less: "gateway_inv s \<Longrightarrow> live_data s r \<Longrightarrow> r < next_arc (gw s)"
  unfolding live_data_def gateway_inv_def by (blast dest: gateway_wf_less)

lemma unregistered_no_entry: "gateway_inv s \<Longrightarrow> unregistered s i \<Longrightarrow> \<not> entry s r k i"
  unfolding entry_def gateway_inv_def by (blast dest: quiet_okD(2))

lemma insert_next_arc:
  "next_arc g \<le> next_arc (snd (insert_client_channel_and_get_new_poller_state c k i g))"
  by (simp add: insert_client_channel_and_get_new_poller_state_def Let_def split: option.split)

lemma insert_entry:
  assumes "gw t = snd (insert_client_channel_and_get_new_poller_state c k i (gw s))" "entry t r k' j"
  shows "entry s r k' j \<or> j = i \<and> k' = k \<and>
           r = (case dm_get (data (gw s)) c of Some r \<Rightarrow> r | None \<Rightarrow> next_arc (gw s))"
  using assms(2) unfolding entry_def assms(1) insert_effect
  by (auto split: option.splits if_splits)

lemma insert_live:
  assumes "gw t = snd (insert_client_channel_and_get_new_poller_state c k i (gw s))" "live_data t r"
  shows "live_data s r \<or> r = next_arc (gw s)"
  using assms(2) unfolding live_data_def assms(1) insert_effect
  by (auto split: option.splits if_splits)

lemma links_step:
  assumes ok: "links_ok s" and go: "gateway_step E s t"
  shows "links_ok t"
proof -
  have inv: "gateway_inv s" and once: "senders_once s" and ps: "pollers_once s"
    using ok by (simp_all add: links_ok_def)
  from inv go have "senders_once t \<and> pollers_once t"
  proof (cases rule: gateway_step_effect)
    case shrinks
    have "senders_once t" using once entry_shrink [OF shrinks(2)] unfolding senders_once_def by blast
    moreover have "pollers_once t"
      using ps shrinks live_data_less [OF inv]
      unfolding pollers_once_def pollers_from_def entries_shrink_def live_data_def by fastforce
    ultimately show ?thesis ..
  next
    case (inserts c k i)
    note no = unregistered_no_entry [OF inv inserts(1)]
    have "senders_once t"
      using once no insert_entry [OF inserts(3)] unfolding senders_once_def by blast
    moreover have "pollers_once t"
      unfolding pollers_once_def inserts(2)
    proof (intro ballI conjI impI)
      fix p assume p: "p \<in> set (pollers s)"
      with ps have lt: "poller_state (poller p) < next_arc (gw s)" by (simp add: pollers_once_def)
      then show "poller_state (poller p) < next_arc (gw t)"
        using insert_next_arc [of "gw s" c k i] by (simp add: inserts(3))
      show "\<not> live_data t (poller_state (poller p))" if "poller_ended (pc p)"
        using that p ps lt insert_live [OF inserts(3)] by (fastforce simp: pollers_once_def)
    qed
    ultimately show ?thesis ..
  next
    case (ends p p')
    have "senders_once t" using once entry_shrink [OF ends(7)] unfolding senders_once_def by blast
    moreover have gone: "\<not> live_data t (poller_state (poller p))"
      using ends(3,4) inv gateway_wf_inj unfolding live_data_def gateway_inv_def
      by (fastforce split: if_splits)
    have less: "live_data t r \<Longrightarrow> live_data s r" for r
      using ends(4) unfolding live_data_def by (auto split: if_splits)
    have "pollers_once t"
      using ps ends(1,5,7,8) gone less
      unfolding pollers_once_def entries_shrink_def by (metis insertE subset_iff)
    ultimately show ?thesis by blast
  qed
  with gateway_inv_step [OF go inv] show ?thesis by (simp add: links_ok_def)
qed

interpretation links: inductive_invariant gateway_init "gateway_step E" links_ok for E
proof unfold_locales
  show "links_ok s" if "gateway_init s" for s
    using that gateway_inv_new [OF that]
    by (auto simp: links_ok_def gateway_init_def ws_gateway_new_def senders_once_def pollers_once_def
        entry_def GatewayState_new_def)
  show "links_ok t" if "links_ok s" "gateway_step E s t" for s t
    using that by (rule links_step)
qed

section \<open>A session whose poller has ended\<close>

text \<open>The sender of handler \<open>i\<close> is in the poller state of a poller that has ended.\<close>

definition cut_off :: "ws_gateway \<Rightarrow> u64 \<Rightarrow> bool" where
  "cut_off s i \<longleftrightarrow>
     (\<exists>p \<in> set (pollers s). poller_ended (pc p) \<and> (\<exists>k. entry s (poller_state (poller p)) k i))"

lemma cut_off_step:
  assumes ok: "links_ok s" and go: "gateway_step E s t" and cut: "cut_off s i"
  shows "cut_off t i"
proof -
  from cut obtain p k where p: "p \<in> set (pollers s)" "poller_ended (pc p)"
    and e: "entry s (poller_state (poller p)) k i" unfolding cut_off_def by blast
  let ?r = "poller_state (poller p)"
  from ok p have dead: "\<not> live_data s ?r" and lt: "?r < next_arc (gw s)"
    by (simp_all add: links_ok_def pollers_once_def)
  have inv: "gateway_inv s" using ok by (simp add: links_ok_def)
  from inv go have "p \<in> set (pollers t) \<and> arcs (gw t) ?r = arcs (gw s) ?r"
  proof (cases rule: gateway_step_effect)
    case shrinks
    with p dead show ?thesis by (simp add: entries_shrink_def pollers_from_def)
  next
    case (inserts c k i)
    have "dm_get (data (gw s)) c \<noteq> Some ?r" using dead unfolding live_data_def by blast
    with p lt inserts show ?thesis by (auto simp: insert_effect split: option.splits)
  next
    case (ends q q')
    with p dead show ?thesis by (simp add: entries_shrink_def)
  qed
  with p e show ?thesis unfolding cut_off_def entry_def by metis
qed

text \<open>No task holds its sender.\<close>

lemma live_arc_data: "gateway_inv s \<Longrightarrow> live_arc s r \<Longrightarrow> live_data s r"
proof -
  assume inv: "gateway_inv s" and live: "live_arc s r"
  have own: "owner s x = Some (c, r) \<Longrightarrow> live_data s r" for x c
    using inv owners_okD(1) unfolding gateway_inv_def live_data_def by blast
  from live consider "live_data s r"
    | a where "a < length (pollers s)" "\<not> poller_ended (pc (pollers s ! a))"
        "poller_state (poller (pollers s ! a)) = r"
    | i h where "handlers s i = Some h" "pending_poller (handler_pc h) = Some r"
    unfolding live_arc_def live_data_def by (auto simp: in_set_conv_nth)
  then show ?thesis
  proof cases
    case (2 a)
    with own [of "Inl a"] running_owner [OF 2(1,2)] show ?thesis by simp
  next
    case (3 i h)
    with gateway_inv_handler [OF inv 3(1)] obtain c where "canister_id (client_session h) = Some c"
      by (cases "handler_pc h") (auto simp: handler_wf_def session_wf_def)
    with 3 own [of "Inr i" c] show ?thesis by simp
  qed
qed

lemma cut_off_registered: "links_ok s \<Longrightarrow> cut_off s i \<Longrightarrow> \<not> unregistered s i"
  using unregistered_no_entry unfolding cut_off_def links_ok_def by blast

lemma cut_off_entry:
  assumes ok: "links_ok s" and cut: "cut_off s i" and e: "entry s r k i"
  shows "\<not> live_data s r"
proof -
  from cut obtain p k' where p: "p \<in> set (pollers s)" "poller_ended (pc p)"
    and e': "entry s (poller_state (poller p)) k' i" unfolding cut_off_def by blast
  from ok e e' have "r = poller_state (poller p)" unfolding links_ok_def senders_once_def by blast
  with ok p show ?thesis by (simp add: links_ok_def pollers_once_def)
qed

lemma cut_off_dead:
  assumes ok: "links_ok s" and cut: "cut_off s i"
  shows "\<not> sender_alive s i"
proof
  have inv: "gateway_inv s" using ok by (simp add: links_ok_def)
  assume "sender_alive s i"
  then show False
    unfolding sender_alive_def
  proof (elim disjE exE conjE)
    fix j h assume h: "handlers s j = Some h" "client_channel_tx h = Some i"
    with gateway_inv_handler [OF inv h(1)] have "j = i"
      by (auto simp: handler_wf_def split: handler_pc.splits IcWsSessionState.splits)
    with h cut_off_registered [OF ok cut] show False by (simp add: unregistered_def)
  next
    fix r k cs assume "live_arc s r" "dm_get (arcs (gw s) r) k = Some cs" "sender cs = i"
    with cut_off_entry [OF ok cut, of r k] live_arc_data [OF inv] show False
      unfolding entry_def by blast
  qed
qed

section \<open>It ends\<close>

text \<open>Handler \<open>i\<close> goes on by itself: it looks into its channel, or it goes on inside an arm.\<close>

inductive handler_acts :: "('e session_env \<Rightarrow> bool) \<Rightarrow> u64 \<Rightarrow> ws_gateway \<Rightarrow> ws_gateway \<Rightarrow> bool"
  for E i where
  reads_channel:
    "handlers s i = Some h \<Longrightarrow> handler_pc h = HandlerUpdate \<Longrightarrow> E env \<Longrightarrow>
     channel_recv (sender_alive s i) (chans s i) = Some (v, ch') \<Longrightarrow>
     handler_update env (CanisterUpdate v) h (gw s) = (h', g') \<Longrightarrow>
     t = put_handler i h' (s\<lparr>gw := g', chans := (chans s)(i := ch')\<rparr>) \<Longrightarrow>
     handler_acts E i s t"
| goes_on:
    "handlers s i = Some h \<Longrightarrow> E env \<Longrightarrow>
     handler_continue env h (gw s) = Some (h', g', spawned) \<Longrightarrow>
     t = put_spawned spawned (put_handler i h' (s\<lparr>gw := g'\<rparr>)) \<Longrightarrow>
     handler_acts E i s t"

lemma handler_acts_step: "handler_acts E i s t \<Longrightarrow> gateway_step E s t"
  by (induction rule: handler_acts.induct) (auto intro: canister_event handler_goes_on)

text \<open>It can: a message or the end of its channel is there, or it is inside an arm.\<close>

definition handler_enabled :: "u64 \<Rightarrow> ws_gateway \<Rightarrow> bool" where
  "handler_enabled i s \<longleftrightarrow>
     (\<exists>h. handlers s i = Some h \<and> \<not> handler_ended (handler_pc h) \<and>
        (handler_pc h = HandlerUpdate \<longrightarrow> channel_recv (sender_alive s i) (chans s i) \<noteq> None))"

definition handler_running :: "u64 \<Rightarrow> ws_gateway \<Rightarrow> bool" where
  "handler_running i s \<longleftrightarrow> (\<exists>h. handlers s i = Some h \<and> \<not> handler_ended (handler_pc h))"

definition handler_over :: "u64 \<Rightarrow> ws_gateway \<Rightarrow> bool" where
  "handler_over i s \<longleftrightarrow> (\<exists>h. handlers s i = Some h \<and> handler_ended (handler_pc h))"

fun pc_rank :: "nat \<Rightarrow> handler_pc \<Rightarrow> nat" where
  "pc_rank q (HandlerRelayOpen _ _ _ _) = q + 4"
| "pc_rank q (HandlerStartPoller _) = q + 3"
| "pc_rank q HandlerUpdate = q + 2"
| "pc_rank q (HandlerWsClose _ _ _) = 1"
| "pc_rank q (HandlerDone _) = 0"

definition handler_rank :: "u64 \<Rightarrow> ws_gateway \<Rightarrow> nat" where
  "handler_rank i s =
     (case handlers s i of None \<Rightarrow> 0 | Some h \<Rightarrow> pc_rank (length (queue (chans s i))) (handler_pc h))"

lemma no_message_is_error:
  "\<exists>e s1. try_update_state env (CanisterUpdate None) s = (Err e, s1)"
  using no_panic_close [of env s]
  by (cases "close_ws_session env s"; cases "fst (close_ws_session env s)")
     (auto simp: try_update_state_eq canister_update_None)

lemma handle_error_leaves:
  "fst (handle_error e s g) \<noteq> Ok HandlerUpdate"
  by (auto simp: handle_error_def and_then_def get_canister_id_def get_client_key_def expect_def
      simp del: debug_ic_ws_error.simps split: IcWsError.splits option.splits prod.splits
      ClientRemovalResult.splits outcome.splits)

lemma no_message_leaves:
  assumes "handler_update env (CanisterUpdate None) h g = (h', g')"
  shows "handler_pc h' \<noteq> HandlerUpdate"
proof -
  obtain e s1 where err: "try_update_state env (CanisterUpdate None) (client_session h) = (Err e, s1)"
    using no_message_is_error by blast
  then have "h' = goto (fst (handle_error e s1 g)) (h\<lparr>client_session := s1\<rparr>)"
    using assms by (auto simp: handler_update_def handle_update_def Let_def split: prod.splits)
  with handle_error_leaves [of e s1 g] show ?thesis
    by (cases "fst (handle_error e s1 g)") simp_all
qed

lemma update_down:
  assumes "handler_wf i h" "handler_pc h = HandlerUpdate" "client_channel_tx h \<noteq> Some i"
    and up: "handler_update env ev h g = (h', g')"
  shows "handler_pc h' = HandlerUpdate \<and> ev \<noteq> CanisterUpdate None \<or>
         (\<exists>c k r. handler_pc h' = HandlerWsClose c k r) \<or> handler_ended (handler_pc h')"
  using assms(1,2) up
proof (cases rule: handler_update_cases)
  case (stay x)
  have "ev \<noteq> CanisterUpdate None" using no_message_leaves [of env h g] up stay(1) assms(2) by auto
  with stay assms(2) show ?thesis by simp
qed (use assms(3) in auto)

text \<open>The rank of a cut-off handler falls with each step of its own.\<close>

lemma cut_off_tx:
  "links_ok s \<Longrightarrow> cut_off s i \<Longrightarrow> handlers s i = Some h \<Longrightarrow> client_channel_tx h \<noteq> Some i"
  using cut_off_registered by (fastforce simp: unregistered_def)

lemma handler_acts_rank:
  assumes ok: "links_ok s" and cut: "cut_off s i" and go: "handler_acts E i s t"
  shows "(handler_over i t \<or> handler_running i t) \<and> handler_rank i t < handler_rank i s"
  using go
proof cases
  case (reads_channel h env v ch' h' g')
  have inv: "gateway_inv s" using ok by (simp add: links_ok_def)
  note down = update_down [OF gateway_inv_handler [OF inv reads_channel(1)] reads_channel(2)
      cut_off_tx [OF ok cut reads_channel(1)] reads_channel(5)]
  have "v = None \<or> length (queue ch') < length (queue (chans s i))"
    using reads_channel(4) by (auto simp: channel_recv_Some_iff)
  with down reads_channel(1,2) show ?thesis
    by (auto simp: handler_rank_def handler_over_def handler_running_def reads_channel(6)
        elim!: handler_ended.elims(2))
next
  case (goes_on h env h' g' spawned)
  have inv: "gateway_inv s" using ok by (simp add: links_ok_def)
  from gateway_inv_handler [OF inv goes_on(1)] goes_on(3) show ?thesis
    by (cases rule: handler_continue_cases)
      (auto simp: handler_rank_def handler_over_def handler_running_def goes_on(1,4) split: option.splits)
qed

text \<open>No step of another task raises it.\<close>

lemma cut_off_others:
  assumes ok: "links_ok s" and cut: "cut_off s i" and run: "handler_running i s"
    and go: "gateway_step E s t"
  shows "(handler_over i t \<or> handler_running i t) \<and> handler_rank i t \<le> handler_rank i s"
proof -
  have inv: "gateway_inv s" using ok by (simp add: links_ok_def)
  have same: ?thesis if "handlers t i = handlers s i" "queue (chans t i) = queue (chans s i)"
    using that run by (auto simp: handler_rank_def handler_over_def handler_running_def)
  have acts: ?thesis if "handler_acts E i s t"
    using handler_acts_rank [OF ok cut that] by simp
  from go show ?thesis
  proof cases
    case (connect j env h accepted)
    with run show ?thesis by (intro same) (auto simp: handler_running_def)
  next
    case (client_event j h env u h' g')
    show ?thesis
    proof (cases "j = i")
      case True
      note up = client_event(1,2,4) [unfolded True]
      from update_down [OF gateway_inv_handler [OF inv up(1)] up(2) cut_off_tx [OF ok cut up(1)] up(3)] up
      show ?thesis
        by (auto simp: handler_rank_def handler_over_def handler_running_def client_event(5) True
            elim!: handler_ended.elims(2))
    qed (intro same; simp add: client_event)
  next
    case (canister_event j h env v ch' h' g')
    show ?thesis
    proof (cases "j = i")
      case True
      with canister_event show ?thesis by (intro acts) (auto intro: reads_channel)
    qed (intro same; simp add: canister_event)
  next
    case (handler_goes_on j h env h' g' spawned)
    show ?thesis
    proof (cases "j = i")
      case True
      with handler_goes_on show ?thesis by (intro acts) (auto intro: goes_on)
    qed (intro same; simp add: handler_goes_on)
  next
    case (poller_goes_on a env p' g' chs')
    let ?p = "pollers s ! a"
    have "\<not> poller_ended (pc ?p)"
      using poller_goes_on(2) by (auto simp: poller_step_def elim!: poller_ended.elims(2))
    from owners_okD(1) [OF _ running_owner [OF poller_goes_on(1) this]] inv
    have r: "dm_get (data (gw s)) (poller_canister_id (poller ?p)) = Some (poller_state (poller ?p))"
      by (simp add: gateway_inv_def)
    then have "\<not> entry s (poller_state (poller ?p)) k i" for k
      using cut_off_entry [OF ok cut] unfolding live_data_def by blast
    moreover have "queue (chs' i) = queue (chans s i) \<or> (\<exists>k. entry s (poller_state (poller ?p)) k i)"
      using poller_goes_on(2) r by (cases rule: poller_step_cases) (auto simp: entry_def)
    ultimately show ?thesis using poller_goes_on by (intro same) auto
  qed
qed

definition cut_off_pending :: "u64 \<Rightarrow> ws_gateway \<Rightarrow> bool" where
  "cut_off_pending i s \<longleftrightarrow> links_ok s \<and> cut_off s i \<and> handler_running i s"

lemma cut_off_enabled:
  assumes "cut_off_pending i s"
  shows "handler_enabled i s"
  using assms cut_off_dead [of s i]
  by (auto simp: cut_off_pending_def handler_running_def handler_enabled_def channel_recv_def
      split: list.split)

interpretation cut_off_ends: ranked_progress "gateway_step E" "handler_acts E i" "handler_enabled i"
  "cut_off_pending i" "handler_over i" "handler_rank i" for E i
proof unfold_locales
  show "handler_enabled i s" if "cut_off_pending i s" for s using that by (rule cut_off_enabled)
  show "handler_over i t \<or> cut_off_pending i t \<and> handler_rank i t \<le> handler_rank i s"
    if "cut_off_pending i s" "gateway_step E s t" for s t
    using that cut_off_others links_step cut_off_step unfolding cut_off_pending_def by blast
  show "handler_over i t \<or> cut_off_pending i t \<and> handler_rank i t < handler_rank i s"
    if "cut_off_pending i s" "handler_acts E i s t" for s t
    using that handler_acts_rank links_step cut_off_step handler_acts_step
    unfolding cut_off_pending_def by blast
qed

section \<open>The property\<close>

text \<open>
  C12: when a poller ends, whether its last client left or it failed, every session whose sender its
  poller state still holds ends as well, provided only that the handler of that session is scheduled
  (a step that stays enabled is taken): no matter how many messages are queued for it, what its client
  sends, who connects and which pollers are started later, its task comes to its end.
\<close>

theorem ended_poller_ends_sessions:
  assumes "reachable E (run 0)"
    and "p \<in> set (pollers (run 0))" and "poller_ended (pc p)"
    and "dm_get (arcs (gw (run 0)) (poller_state (poller p))) k = Some cs" and "sender cs = i"
    and "handlers (run 0) i = Some h"
    and "run_of (gateway_step E) run" and "weakly_fair (handler_enabled i) (handler_acts E i) run"
  shows "\<exists>n h'. handlers (run n) i = Some h' \<and> handler_ended (handler_pc h')"
proof (cases "handler_ended (handler_pc h)")
  case False
  have "cut_off (run 0) i" using assms(2-5) unfolding cut_off_def entry_def by blast
  with links.inv_reach [OF assms(1)] assms(6) False have "cut_off_pending i (run 0)"
    by (simp add: cut_off_pending_def handler_running_def)
  from cut_off_ends.eventually_goal [OF assms(7,8) this] show ?thesis
    unfolding handler_over_def by blast
qed (use assms(6) in blast)

text \<open>The run in which the poller fails after its canister answered with a malformed reply.\<close>

definition demo_failed :: ws_gateway where
  "demo_failed =
     schedule ([PollerGoesOn 0 failing_env, PollerGoesOn 0 failing_env] :: bytes action list) demo_open"

lemma demo_failed_reachable: "reachable (\<lambda>env. env = mock_session_env) demo_failed"
  unfolding demo_failed_def by (rule schedule_reachable [OF demo_open_reachable]) auto

lemma demo_failed_state:
  "\<exists>p e. pollers demo_failed = [p] \<and> pc p = PollerDone (Err e) \<and> poller_state (poller p) = 0"
  "handlers demo_failed = handlers demo_open"
  "chans demo_failed = chans demo_open"
  "arcs (gw demo_failed) 0 = dm_insert (ClientKey_new (Principal [1]) 9) \<lparr>sender = 7\<rparr> dm_new"
  by (simp_all add: demo_failed_def demo_open_pollers demo_open_gw poller_task_new_def
      CanisterPoller_new_def failing_poll remove_failed_canister_def)

text \<open>Then the handler of the client finds its channel closed, and its task ends.\<close>

lemma demo_failed_ends:
  "\<exists>t. handler_acts (\<lambda>env. env = mock_session_env) 7 demo_failed t \<and> handler_over 7 t"
proof -
  obtain h where h: "handlers demo_failed 7 = Some h" "handler_pc h = HandlerUpdate"
    using demo_open_handler by (auto simp: demo_failed_state(2))
  obtain p e where p: "pollers demo_failed = [p]" "pc p = PollerDone (Err e)" "poller_state (poller p) = 0"
    using demo_failed_state(1) by blast
  then have cut: "cut_off demo_failed 7"
    by (simp add: cut_off_def entry_def demo_failed_state(4))
  note ok = links.inv_reach [OF demo_failed_reachable]
  have q: "queue (chans demo_failed 7) = []"
    by (simp add: demo_failed_state(3) demo_open_def run_simps new_channel_def)
  with cut_off_dead [OF ok cut]
  have recv: "channel_recv (sender_alive demo_failed 7) (chans demo_failed 7) = Some (None, chans demo_failed 7)"
    by (simp add: channel_recv_def)
  obtain h' g' where up: "handler_update mock_session_env (CanisterUpdate None) h (gw demo_failed) = (h', g')"
    by fastforce
  then have "handler_ended (handler_pc h')"
    by (auto simp: handler_update_eq try_update_state_eq canister_update_None close_ws_session_def
        handle_update_def Let_def)
  with reads_channel [OF h _ recv up refl, of "\<lambda>env. env = mock_session_env"] show ?thesis
    by (fastforce simp: handler_over_def)
qed

theorem ended_poller_ends_sessions_witness:
  "\<exists>run n h'. run_of (gateway_step (\<lambda>env. env = mock_session_env)) run \<and> run 0 = demo_failed \<and>
     handlers (run n) 7 = Some h' \<and> handler_ended (handler_pc h')"
proof -
  obtain t where t: "handler_acts (\<lambda>env. env = mock_session_env) 7 demo_failed t" "handler_over 7 t"
    using demo_failed_ends by blast
  define run where "run n = (case n of 0 \<Rightarrow> demo_failed | Suc _ \<Rightarrow> t)" for n :: nat
  have ends: "\<not> handler_enabled 7 (run (Suc n))" for n
    using t(2) by (auto simp: run_def handler_enabled_def handler_over_def)
  have r: "run_of (gateway_step (\<lambda>env. env = mock_session_env)) run"
    using handler_acts_step [OF t(1)] by (auto simp: run_of_def run_def split: nat.split)
  have f: "weakly_fair (handler_enabled 7) (handler_acts (\<lambda>env. env = mock_session_env) 7) run"
    unfolding weakly_fair_def using ends by (metis le_SucI le_refl)
  obtain p e where p: "p \<in> set (pollers (run 0))" "poller_ended (pc p)" "poller_state (poller p) = 0"
    using demo_failed_state(1) by (auto simp: run_def)
  obtain h where h: "handlers (run 0) 7 = Some h"
    using demo_open_handler by (auto simp: demo_failed_state(2) run_def)
  have e: "dm_get (arcs (gw (run 0)) (poller_state (poller p))) (ClientKey_new (Principal [1]) 9) =
      Some \<lparr>sender = 7\<rparr>"
    by (simp add: run_def p(3) demo_failed_state(4))
  have "reachable (\<lambda>env. env = mock_session_env) (run 0)"
    using demo_failed_reachable by (simp add: run_def)
  from ended_poller_ends_sessions [OF this p(1,2) e _ h r f] r show ?thesis
    by (intro exI [of _ run]) (simp add: run_def)
qed

end
