(* ===== verification/Gateway_Idle.thy ===== *)
theory Gateway_Idle
  imports Gateway_Liveness
begin

text \<open>
  A poller whose last client is gone comes to its end, in every run in which it is scheduled, unless a
  client joins it first.
\<close>

section \<open>A poller without clients, by itself\<close>

lemma idle_poller_enabled:
  assumes "dm_is_empty (arcs g (poller_state (poller t)))" and "\<not> poller_ended (pc t)"
  shows "poller_step env t g chs \<noteq> None"
proof -
  have none: "dm_get (arcs g (poller_state (poller t))) k = None" for k
    using assms(1) by (simp add: dm_is_empty_iff)
  show ?thesis
  proof (cases "pc t")
    case (PollerRelaying ms crt tr eoq)
    then show ?thesis by (cases ms) (simp_all add: poller_step_def relay_output_message_def none Let_def)
  qed (use assms(2) in \<open>auto simp: poller_step_def Let_def split: option.splits prod.splits bool.splits outcome.splits\<close>)
qed

text \<open>It leaves the top of its loop, and from there on comes closer to its end with every step.\<close>

lemma idle_poller_step:
  assumes empty: "dm_is_empty (arcs g (poller_state (poller t)))"
    and r: "dm_get (data g) (poller_canister_id (poller t)) = Some (poller_state (poller t))"
    and go: "poller_step env t g chs = Some (t', g', chs')"
  shows "pc t' \<noteq> PollerLoop"
    and "pc t \<noteq> PollerLoop \<Longrightarrow> steps_left (pc t') < steps_left (pc t)"
proof -
  have none: "dm_get (arcs g (poller_state (poller t))) k = None" for k
    using empty by (simp add: dm_is_empty_iff)
  have "pc t' \<noteq> PollerLoop \<and> (pc t \<noteq> PollerLoop \<longrightarrow> steps_left (pc t') < steps_left (pc t))"
  proof (cases "pc t")
    case PollerLoop
    have "pc (poll_and_relay_start env (poller t)) \<noteq> PollerLoop"
      by (auto simp: poll_and_relay_start_def Let_def
          split: sum.splits PollingStatus.splits prod.splits)
    with go PollerLoop show ?thesis by (auto simp: poller_step_def Let_def)
  next
    case (PollerRelaying ms crt tr eoq)
    with go show ?thesis
      by (cases ms) (auto simp: poller_step_def relay_output_message_def none Let_def split: if_splits)
  next
    case PollerPolled
    with go show ?thesis by (auto simp: poller_step_def Let_def split: option.splits)
  next
    case PollerChecking
    with go show ?thesis
      by (auto simp: poller_step_def poller_should_terminate_def remove_canister_if_empty_def r empty Let_def)
  next
    case (PollerFailed e)
    with go show ?thesis
      by (auto simp: poller_step_def Let_def split: outcome.splits prod.splits)
  qed (use go in \<open>auto simp: poller_step_def Let_def\<close>)
  then show "pc t' \<noteq> PollerLoop"
    and "pc t \<noteq> PollerLoop \<Longrightarrow> steps_left (pc t') < steps_left (pc t)" by blast+
qed

section \<open>The same poller inside the gateway\<close>

inductive poller_acts :: "nat \<Rightarrow> ws_gateway \<Rightarrow> ws_gateway \<Rightarrow> bool" for a where
  "a < length (pollers s) \<Longrightarrow>
     poller_step env (pollers s ! a) (gw s) (chans s) = Some (p', g', chans') \<Longrightarrow>
     t = s\<lparr>pollers := (pollers s)[a := p'], gw := g', chans := chans'\<rparr> \<Longrightarrow>
     poller_acts a s t"

definition poller_enabled :: "nat \<Rightarrow> ws_gateway \<Rightarrow> bool" where
  "poller_enabled a s \<longleftrightarrow>
     a < length (pollers s) \<and>
     (\<exists>env. poller_step env (pollers s ! a) (gw s) (chans s) \<noteq> None)"

lemma poller_acts_step: "poller_acts a s t \<Longrightarrow> gateway_step E s t"
  by (induction rule: poller_acts.induct) (rule poller_goes_on)

lemma gateway_step_poller:
  assumes "gateway_step E s t" and "a < length (pollers s)"
  shows "poller_acts a s t \<or> (pollers t ! a = pollers s ! a \<and> a < length (pollers t))"
  using assms(1)
proof cases
  case (poller_goes_on b env p' g' chs')
  then show ?thesis
    using assms(2) by (cases "b = a") (auto intro: poller_acts.intros)
qed (use assms(2) in \<open>auto simp: nth_append\<close>)

definition poller_arc :: "nat \<Rightarrow> ws_gateway \<Rightarrow> PollerState" where
  "poller_arc a s = arcs (gw s) (poller_state (poller (pollers s ! a)))"

definition idle :: "nat \<Rightarrow> ws_gateway \<Rightarrow> bool" where
  "idle a s \<longleftrightarrow> gateway_inv s \<and> a < length (pollers s) \<and>
     \<not> poller_ended (pc (pollers s ! a)) \<and> dm_is_empty (poller_arc a s)"

text \<open>It has ended, or it has a client again.\<close>

definition settled :: "nat \<Rightarrow> ws_gateway \<Rightarrow> bool" where
  "settled a s \<longleftrightarrow> a < length (pollers s) \<and>
     (poller_ended (pc (pollers s ! a)) \<or> \<not> dm_is_empty (poller_arc a s))"

lemma idle_data:
  "idle a s \<Longrightarrow>
     dm_get (data (gw s)) (poller_canister_id (poller (pollers s ! a))) =
       Some (poller_state (poller (pollers s ! a)))"
  using owners_okD(1) [OF _ running_owner] unfolding idle_def gateway_inv_def by blast

lemma idle_other:
  assumes "idle a s" and "gateway_step E s t" and "pollers t ! a = pollers s ! a" "a < length (pollers t)"
  shows "settled a t \<or> idle a t"
  using assms gateway_inv_step [OF assms(2)] by (auto simp: idle_def settled_def)

lemma idle_acts:
  assumes idle: "idle a s" and go: "poller_acts a s t"
  shows "settled a t \<or> idle a t" and "pc (pollers t ! a) \<noteq> PollerLoop"
    and "pc (pollers s ! a) \<noteq> PollerLoop \<Longrightarrow>
           steps_left (pc (pollers t ! a)) < steps_left (pc (pollers s ! a))"
proof -
  from go obtain env p' g' chs' where a: "a < length (pollers s)"
    and step: "poller_step env (pollers s ! a) (gw s) (chans s) = Some (p', g', chs')"
    and t: "t = s\<lparr>pollers := (pollers s)[a := p'], gw := g', chans := chs'\<rparr>"
    by (auto elim: poller_acts.cases)
  have "dm_is_empty (arcs (gw s) (poller_state (poller (pollers s ! a))))"
    using idle by (simp add: idle_def poller_arc_def)
  note down = idle_poller_step [OF this idle_data [OF idle] step]
  have inv: "gateway_inv t"
    using gateway_inv_step poller_acts_step [OF go] idle unfolding idle_def by blast
  then show "settled a t \<or> idle a t" using a by (auto simp: idle_def settled_def t)
  show "pc (pollers t ! a) \<noteq> PollerLoop"
    and "pc (pollers s ! a) \<noteq> PollerLoop \<Longrightarrow>
           steps_left (pc (pollers t ! a)) < steps_left (pc (pollers s ! a))"
    using down a by (simp_all add: t)
qed

lemma idle_enabled: "idle a s \<Longrightarrow> poller_enabled a s"
  using idle_poller_enabled unfolding idle_def poller_enabled_def poller_arc_def by blast

section \<open>It ends\<close>

definition idle_loop :: "nat \<Rightarrow> ws_gateway \<Rightarrow> bool" where
  "idle_loop a s \<longleftrightarrow> idle a s \<and> pc (pollers s ! a) = PollerLoop"

definition idle_inside :: "nat \<Rightarrow> ws_gateway \<Rightarrow> bool" where
  "idle_inside a s \<longleftrightarrow> idle a s \<and> pc (pollers s ! a) \<noteq> PollerLoop"

text \<open>First it starts an iteration, and then the iteration ends it.\<close>

interpretation idle_starts: ranked_progress "gateway_step E" "poller_acts a" "poller_enabled a"
  "idle_loop a" "\<lambda>s. settled a s \<or> idle_inside a s" "\<lambda>_. 0" for E a
proof unfold_locales
  show "poller_enabled a s" if "idle_loop a s" for s using that by (simp add: idle_loop_def idle_enabled)
  show "(settled a t \<or> idle_inside a t) \<or> idle_loop a t \<and> (0::nat) < 0"
    if "idle_loop a s" "poller_acts a s t" for s t
    using that idle_acts(1,2) unfolding idle_loop_def idle_inside_def by blast
  show "(settled a t \<or> idle_inside a t) \<or> idle_loop a t \<and> (0::nat) \<le> 0"
    if "idle_loop a s" "gateway_step E s t" for s t
  proof -
    from that(1) have "a < length (pollers s)" by (simp add: idle_loop_def idle_def)
    from gateway_step_poller [OF that(2) this] show ?thesis
      using that idle_acts(1,2) idle_other unfolding idle_loop_def idle_inside_def by blast
  qed
qed

interpretation idle_ends: ranked_progress "gateway_step E" "poller_acts a" "poller_enabled a"
  "idle_inside a" "settled a" "\<lambda>s. steps_left (pc (pollers s ! a))" for E a
proof unfold_locales
  show "poller_enabled a s" if "idle_inside a s" for s using that by (simp add: idle_inside_def idle_enabled)
  show down: "settled a t \<or> idle_inside a t \<and> steps_left (pc (pollers t ! a)) < steps_left (pc (pollers s ! a))"
    if "idle_inside a s" "poller_acts a s t" for s t
    using that idle_acts unfolding idle_inside_def by blast
  show "settled a t \<or> idle_inside a t \<and> steps_left (pc (pollers t ! a)) \<le> steps_left (pc (pollers s ! a))"
    if "idle_inside a s" "gateway_step E s t" for s t
  proof -
    from that(1) have a: "a < length (pollers s)" by (simp add: idle_inside_def idle_def)
    from gateway_step_poller [OF that(2) this] show ?thesis
    proof
      assume "poller_acts a s t"
      with down [OF that(1)] show ?thesis by (meson less_imp_le)
    next
      assume same: "pollers t ! a = pollers s ! a \<and> a < length (pollers t)"
      then show ?thesis
        using idle_other [OF _ that(2)] that(1) by (simp add: idle_inside_def)
    qed
  qed
qed

text \<open>
  C13: a poller does not outlive its clients. Once its poller state is empty, the poller of a canister
  comes to its end in every run in which it is scheduled, whatever its canister answers and the other
  tasks do, unless a client of the canister is registered with it before.
\<close>

theorem idle_poller_ends:
  assumes "reachable E (run 0)" and "a < length (pollers (run 0))"
    and "dm_is_empty (arcs (gw (run 0)) (poller_state (poller (pollers (run 0) ! a))))"
    and r: "run_of (gateway_step E) run" and f: "weakly_fair (poller_enabled a) (poller_acts a) run"
  shows "\<exists>n. a < length (pollers (run n)) \<and>
           (poller_ended (pc (pollers (run n) ! a)) \<or>
            \<not> dm_is_empty (arcs (gw (run n)) (poller_state (poller (pollers (run n) ! a)))))"
proof -
  have "\<exists>n. settled a (run n)"
  proof (cases "poller_ended (pc (pollers (run 0) ! a))")
    case False
    with assms(2,3) reachable_inv [OF assms(1)] have "idle a (run 0)"
      by (simp add: idle_def poller_arc_def)
    then have "\<exists>n. settled a (run n) \<or> idle_inside a (run n)"
      using idle_starts.eventually_goal [OF r f, of 0] unfolding idle_loop_def idle_inside_def by blast
    then show ?thesis using idle_ends.eventually_goal [OF r f] by blast
  qed (use assms(2) in \<open>auto simp: settled_def\<close>)
  then show ?thesis by (simp add: settled_def poller_arc_def)
qed

text \<open>The run: the only client of the canister has left, and its poller polls once more.\<close>

definition quiet_env :: poller_env where
  "quiet_env = mock_env (\<lambda>_. mock_output [])"

definition demo_idle_run :: "nat \<Rightarrow> ws_gateway" where
  "demo_idle_run n = schedule (replicate (min n 4) (PollerGoesOn 0 quiet_env :: bytes action)) demo_left"

lemma replicate_min_Suc:
  "replicate (min (Suc n) k) x = replicate (min n k) x @ (if n < k then [x] else [])"
  by (auto simp: min_def replicate_append_same)

lemma schedule_append: "schedule (xs @ ys) s = schedule ys (schedule xs s)"
  by (simp add: schedule_def)

lemma demo_idle_run: "run_of (gateway_step (\<lambda>env. env = mock_session_env)) demo_idle_run"
  unfolding run_of_def
proof
  fix n
  have "demo_idle_run (Suc n) = demo_idle_run n \<or>
        demo_idle_run (Suc n) = act (PollerGoesOn 0 quiet_env :: bytes action) (demo_idle_run n)"
    unfolding demo_idle_run_def replicate_min_Suc schedule_append
    by (cases "n < 4") (simp_all del: act.simps)
  then show "demo_idle_run (Suc n) = demo_idle_run n \<or>
      gateway_step (\<lambda>env. env = mock_session_env) (demo_idle_run n) (demo_idle_run (Suc n))"
    using act_step [of "PollerGoesOn 0 quiet_env :: bytes action" "\<lambda>env. env = mock_session_env"]
    by (metis action_env.simps(5) option.distinct(1))
qed

lemma demo_left_state:
  "pollers demo_left = [poller_task_new (CanisterPoller_new (Principal [4]) 0 100)]"
  "dm_get (data (gw demo_left)) (Principal [4]) = Some 0"
  "dm_is_empty (arcs (gw demo_left) 0)"
  by (simp_all add: demo_left_def demo_open_def run_simps client_update_close get_canister_id_def
      get_client_key_def dm_is_empty_iff)

lemma demo_idle_over: "poller_ended (pc (pollers (demo_idle_run (n + 4)) ! 0))"
  by (simp add: demo_idle_run_def numeral_eq_Suc demo_left_state poller_task_new_def CanisterPoller_new_def
      poller_step_def poll_and_relay_start_def poll_canister_def quiet_env_def mock_env_def timeout_def
      mock_output_def compute_effective_polling_interval_def duration_sub_def poller_should_terminate_def
      remove_canister_if_empty_def Let_def)

theorem idle_poller_ends_witness:
  "\<exists>n. poller_ended (pc (pollers (demo_idle_run n) ! 0)) \<or>
       \<not> dm_is_empty (arcs (gw (demo_idle_run n)) (poller_state (poller (pollers (demo_idle_run n) ! 0))))"
proof -
  have start: "demo_idle_run 0 = demo_left" by (simp add: demo_idle_run_def)
  have r: "reachable (\<lambda>env. env = mock_session_env) (demo_idle_run 0)"
    using demo_left_reachable by (simp add: start)
  have "\<exists>m \<ge> n. \<not> poller_enabled 0 (demo_idle_run m)" for n
    using demo_idle_over [of n]
    by (intro exI [of _ "n + 4"])
      (auto simp: poller_enabled_def poller_step_def Let_def elim!: poller_ended.elims(2))
  then have f: "weakly_fair (poller_enabled 0) (poller_acts 0) demo_idle_run"
    unfolding weakly_fair_def by blast
  have "0 < length (pollers (demo_idle_run 0))"
    "dm_is_empty (arcs (gw (demo_idle_run 0)) (poller_state (poller (pollers (demo_idle_run 0) ! 0))))"
    by (simp_all add: start demo_left_state poller_task_new_def CanisterPoller_new_def)
  from idle_poller_ends [OF r this demo_idle_run f] show ?thesis by blast
qed

end
