(* ===== verification/Gateway_Locks.thy ===== *)
theory Gateway_Locks
  imports Gateway_Sessions
begin

text \<open>
  The locks of the maps. A map of clients is split into shards; the poller looks a client up with
  \<open>get\<close>, whose guard holds the read lock of the client's shard while the message is sent
  (\<open>relay_messages\<close>), and a handler that inserts or removes its client needs the write lock of that
  shard. The steps are those of the system, split where a lock is waited for: what a session decides
  on a message of its client, and what its handler then does to the shared state; taking the guard, and
  sending under it. The assignment of clients to shards is that of \<open>dashmap\<close>, a parameter.
\<close>

section \<open>State\<close>

type_synonym session_decision = "(IcWsSessionState option, IcWsError) outcome \<times> ClientSession"

text \<open>
  Beside the gateway: the client key under whose guard each poller sends, and what each session has
  decided but its handler could not carry out yet.
\<close>

record locked_gateway =
  base :: ws_gateway
  guards :: "nat \<Rightarrow> ClientKey option"
  decided :: "u64 \<Rightarrow> session_decision option"

definition locked_gateway_new :: "string + Principal \<Rightarrow> u64 \<Rightarrow> locked_gateway" where
  "locked_gateway_new p interval_ms =
     \<lparr>base = ws_gateway_new p interval_ms, guards = (\<lambda>_. None), decided = (\<lambda>_. None)\<rparr>"

section \<open>Locks\<close>

text \<open>A shard of a poller state is read-locked while some poller holds a guard in it.\<close>

definition read_locked :: "(ClientKey \<Rightarrow> nat) \<Rightarrow> locked_gateway \<Rightarrow> poller_ref \<Rightarrow> ClientKey \<Rightarrow> bool" where
  "read_locked shard s r k \<longleftrightarrow>
     (\<exists>a < length (pollers (base s)).
        poller_state (poller (pollers (base s) ! a)) = r \<and>
        (case guards s a of Some k' \<Rightarrow> shard k' = shard k | None \<Rightarrow> False))"

text \<open>
  The operations of the gateway state write to the poller state of a canister if it has one; they hold
  the canister's entry meanwhile.
\<close>

definition entry_locked ::
  "(ClientKey \<Rightarrow> nat) \<Rightarrow> locked_gateway \<Rightarrow> CanisterPrincipal \<Rightarrow> ClientKey \<Rightarrow> bool" where
  "entry_locked shard s c k \<longleftrightarrow>
     (case dm_get (data (gw (base s))) c of Some r \<Rightarrow> read_locked shard s r k | None \<Rightarrow> False)"

text \<open>Which arms of the handler insert or remove a client.\<close>

definition writes_entry :: "(IcWsSessionState option, IcWsError) outcome \<Rightarrow> bool" where
  "writes_entry r =
     (case r of
        Ok (Some (Setup _)) \<Rightarrow> True
      | Ok (Some Closed) \<Rightarrow> True
      | Err (Poller _) \<Rightarrow> False
      | Err _ \<Rightarrow> True
      | _ \<Rightarrow> False)"

definition must_wait :: "(ClientKey \<Rightarrow> nat) \<Rightarrow> locked_gateway \<Rightarrow> session_decision \<Rightarrow> bool" where
  "must_wait shard s d \<longleftrightarrow>
     writes_entry (fst d) \<and>
     (case (canister_id (snd d), client_key (snd d)) of
        (Some c, Some k) \<Rightarrow> entry_locked shard s c k
      | _ \<Rightarrow> False)"

text \<open>The arm of Setup removes its client again when the message could not be relayed.\<close>

definition relay_must_wait ::
  "(ClientKey \<Rightarrow> nat) \<Rightarrow> locked_gateway \<Rightarrow> 'e session_env \<Rightarrow> handler_task \<Rightarrow> bool" where
  "relay_must_wait shard s env h \<longleftrightarrow>
     (case handler_pc h of
        HandlerRelayOpen c k m new \<Rightarrow>
          (case fst (relay_client_message env m (client_session h)) of
             Err e \<Rightarrow> entry_locked shard s c k
           | _ \<Rightarrow> False)
      | _ \<Rightarrow> False)"

text \<open>The second half of the handler's step on an event: the arm for what the session decided.\<close>

definition handler_commit :: "session_decision \<Rightarrow> handler_task \<Rightarrow> GatewayState \<Rightarrow> handler_task \<times> GatewayState" where
  "handler_commit d h g =
     (let (r, s1) = d; (next_pc, g1) = handle_update r s1 (client_channel_tx h) g
      in (goto next_pc
            (h\<lparr>client_session := s1,
               client_channel_tx := (if takes_sender r then None else client_channel_tx h)\<rparr>), g1))"

lemma handler_update_commit:
  "handler_update env ev h g = handler_commit (try_update_state env ev (client_session h)) h g"
  by (simp add: handler_update_def handler_commit_def)

section \<open>Steps\<close>

text \<open>The client of the message a poller is about to relay, if it is in the poller state.\<close>

definition relay_target :: "locked_gateway \<Rightarrow> nat \<Rightarrow> ClientKey option" where
  "relay_target s a =
     (let t = pollers (base s) ! a in
      case pc t of
        PollerRelaying (m # ms) _ _ _ \<Rightarrow>
          (case dm_get (arcs (gw (base s)) (poller_state (poller t))) (out_client_key m) of
             Some _ \<Rightarrow> Some (out_client_key m)
           | None \<Rightarrow> None)
      | _ \<Rightarrow> None)"

inductive locked_step ::
  "(ClientKey \<Rightarrow> nat) \<Rightarrow> ('e session_env \<Rightarrow> bool) \<Rightarrow> locked_gateway \<Rightarrow> locked_gateway \<Rightarrow> bool"
  for shard E where
  l_connect:
    "handlers (base s) i = None \<Longrightarrow> E env \<Longrightarrow>
     h = start_session env accepted (gw_principal (base s))
           (ClientSessionHandler_new i (gw_interval_ms (base s))) \<Longrightarrow>
     t = s\<lparr>base := put_handler i h ((base s)\<lparr>chans := (chans (base s))(i := new_channel)\<rparr>)\<rparr> \<Longrightarrow>
     locked_step shard E s t"
| l_decide:
    "handlers (base s) i = Some h \<Longrightarrow> handler_pc h = HandlerUpdate \<Longrightarrow> decided s i = None \<Longrightarrow> E env \<Longrightarrow>
     t = s\<lparr>decided := (decided s)(i \<mapsto> try_update_state env (ClientUpdate u) (client_session h))\<rparr> \<Longrightarrow>
     locked_step shard E s t"
| l_commit:
    "handlers (base s) i = Some h \<Longrightarrow> decided s i = Some d \<Longrightarrow> \<not> must_wait shard s d \<Longrightarrow>
     handler_commit d h (gw (base s)) = (h', g') \<Longrightarrow>
     t = s\<lparr>base := put_handler i h' ((base s)\<lparr>gw := g'\<rparr>), decided := (decided s)(i := None)\<rparr> \<Longrightarrow>
     locked_step shard E s t"
| l_canister_event:
    "handlers (base s) i = Some h \<Longrightarrow> handler_pc h = HandlerUpdate \<Longrightarrow> decided s i = None \<Longrightarrow> E env \<Longrightarrow>
     channel_recv (sender_alive (base s) i) (chans (base s) i) = Some (v, ch') \<Longrightarrow>
     d = try_update_state env (CanisterUpdate v) (client_session h) \<Longrightarrow> \<not> must_wait shard s d \<Longrightarrow>
     handler_commit d h (gw (base s)) = (h', g') \<Longrightarrow>
     t = s\<lparr>base := put_handler i h' ((base s)\<lparr>gw := g', chans := (chans (base s))(i := ch')\<rparr>)\<rparr> \<Longrightarrow>
     locked_step shard E s t"
| l_handler_goes_on:
    "handlers (base s) i = Some h \<Longrightarrow> E env \<Longrightarrow> \<not> relay_must_wait shard s env h \<Longrightarrow>
     handler_continue env h (gw (base s)) = Some (h', g', spawned) \<Longrightarrow>
     t = s\<lparr>base := put_spawned spawned (put_handler i h' ((base s)\<lparr>gw := g'\<rparr>))\<rparr> \<Longrightarrow>
     locked_step shard E s t"
| l_guard:
    "a < length (pollers (base s)) \<Longrightarrow> guards s a = None \<Longrightarrow> relay_target s a = Some k \<Longrightarrow>
     t = s\<lparr>guards := (guards s)(a \<mapsto> k)\<rparr> \<Longrightarrow>
     locked_step shard E s t"
| l_poller_goes_on:
    "a < length (pollers (base s)) \<Longrightarrow> guards s a = relay_target s a \<Longrightarrow>
     poller_step env (pollers (base s) ! a) (gw (base s)) (chans (base s)) = Some (p', g', chans') \<Longrightarrow>
     t = s\<lparr>base := (base s)\<lparr>pollers := (pollers (base s))[a := p'], gw := g', chans := chans'\<rparr>,
           guards := (guards s)(a := None)\<rparr> \<Longrightarrow>
     locked_step shard E s t"

definition locked_init :: "locked_gateway \<Rightarrow> bool" where
  "locked_init s \<longleftrightarrow> (\<exists>p interval_ms. s = locked_gateway_new p interval_ms)"

abbreviation locked_reachable ::
  "(ClientKey \<Rightarrow> nat) \<Rightarrow> ('e session_env \<Rightarrow> bool) \<Rightarrow> locked_gateway \<Rightarrow> bool" where
  "locked_reachable shard E \<equiv> reach locked_init (locked_step shard E)"

end
