(* ===== verification/Gateway_Locks_Props.thy ===== *)
theory Gateway_Locks_Props
  imports Gateway_Locks
begin

text \<open>
  Two facts about the locks of the maps: they allow no behaviour that the system without locks does not
  have, so its safety properties carry over; and they can stop the gateway, since the poller keeps the
  lock of a client's shard while it waits for room in that client's channel.
\<close>

section \<open>The steps with locks refine the steps without\<close>

text \<open>What is decided comes from a message of the client, on the session its handler still has.\<close>

definition decision_of :: "('e session_env \<Rightarrow> bool) \<Rightarrow> handler_task option \<Rightarrow> session_decision \<Rightarrow> bool" where
  "decision_of E h d \<longleftrightarrow>
     (\<exists>h0 env u. h = Some h0 \<and> handler_pc h0 = HandlerUpdate \<and> E env \<and>
        d = try_update_state env (ClientUpdate u) (client_session h0))"

definition decided_ok :: "('e session_env \<Rightarrow> bool) \<Rightarrow> locked_gateway \<Rightarrow> bool" where
  "decided_ok E s \<longleftrightarrow> (\<forall>i d. decided s i = Some d \<longrightarrow> decision_of E (handlers (base s) i) d)"

lemma decision_ofI:
  "handler_pc h = HandlerUpdate \<Longrightarrow> E env \<Longrightarrow>
     decision_of E (Some h) (try_update_state env (ClientUpdate u) (client_session h))"
  unfolding decision_of_def by blast

lemma decided_okD:
  "decided_ok E s \<Longrightarrow> decided s i = Some d \<Longrightarrow> handlers (base s) i = Some h \<Longrightarrow>
     handler_pc h = HandlerUpdate \<and> (\<exists>env u. E env \<and> d = try_update_state env (ClientUpdate u) (client_session h))"
  unfolding decided_ok_def decision_of_def by fastforce

lemma decision_of_None [simp]: "\<not> decision_of E None d"
  by (simp add: decision_of_def)

lemma decision_of_busy: "handler_pc h \<noteq> HandlerUpdate \<Longrightarrow> \<not> decision_of E (Some h) d"
  by (simp add: decision_of_def)

lemma continue_not_waiting:
  "handler_continue env h g = Some x \<Longrightarrow> handler_pc h \<noteq> HandlerUpdate"
  by (auto simp: handler_continue_def)

lemma decided_ok_step:
  assumes ok: "decided_ok E s" and go: "locked_step shard E s t"
  shows "decided_ok E t"
  using go
proof cases
  case (l_connect i env h accepted)
  with ok show ?thesis by (fastforce simp: decided_ok_def)
next
  case (l_decide i h env u)
  with ok decision_ofI [of h E env u] show ?thesis by (auto simp: decided_ok_def)
next
  case (l_handler_goes_on i h env h' g' spawned)
  then have "\<not> decision_of E (handlers (base s) i) d" for d
    using continue_not_waiting decision_of_busy by metis
  with ok have "decided s i = None" unfolding decided_ok_def by (metis option.exhaust)
  with ok l_handler_goes_on(5) show ?thesis by (auto simp: decided_ok_def)
qed (use ok in \<open>auto simp: decided_ok_def\<close>)

lemma locked_step_base:
  assumes ok: "decided_ok E s" and go: "locked_step shard E s t"
  shows "base t = base s \<or> gateway_step E (base s) (base t)"
  using go
proof cases
  case (l_commit i h d h' g')
  from decided_okD [OF ok l_commit(2,1)] obtain env u where "handler_pc h = HandlerUpdate" "E env"
    and d: "d = try_update_state env (ClientUpdate u) (client_session h)" by blast
  moreover have "handler_update env (ClientUpdate u) h (gw (base s)) = (h', g')"
    using l_commit(4) by (simp add: handler_update_commit d)
  ultimately show ?thesis using l_commit(1,5) by (auto intro: client_event)
next
  case (l_canister_event i h env v ch' d h' g')
  then have "handler_update env (CanisterUpdate v) h (gw (base s)) = (h', g')"
    by (simp add: handler_update_commit)
  with l_canister_event show ?thesis by (auto intro: canister_event)
qed (auto intro: connect handler_goes_on poller_goes_on)

lemma locked_init_base: "locked_init s \<Longrightarrow> gateway_init (base s) \<and> decided_ok E s \<and> guards s = (\<lambda>_. None)"
  by (fastforce simp: locked_init_def locked_gateway_new_def gateway_init_def decided_ok_def)

definition refines_base :: "('e session_env \<Rightarrow> bool) \<Rightarrow> locked_gateway \<Rightarrow> bool" where
  "refines_base E s \<longleftrightarrow> decided_ok E s \<and> reachable E (base s)"

lemma refines_base_step:
  assumes ok: "refines_base E s" and go: "locked_step shard E s t"
  shows "refines_base E t"
  using ok decided_ok_step [OF _ go] locked_step_base [OF _ go] reach_step [of gateway_init "gateway_step E"]
  unfolding refines_base_def by metis

interpretation locked: inductive_invariant locked_init "locked_step shard E" "refines_base E" for shard E
proof unfold_locales
  show "refines_base E s" if "locked_init s" for s
    using locked_init_base [OF that] by (auto simp: refines_base_def intro: reach_init)
  show "refines_base E t" if "refines_base E s" "locked_step shard E s t" for s t
    using that by (rule refines_base_step)
qed

text \<open>
  Taking the locks of the maps changes nothing the gateway can do. Every step of the system in
  which handlers and pollers wait for the shards of a poller state is a step of the system without
  locks or leaves it as it is, and every state it reaches is reachable without them; so what is proved
  of every reachable state holds with the locks too.
\<close>

theorem locked_runs_refine:
  assumes "locked_reachable shard E s" and "locked_step shard E s t"
  shows "reachable E (base s) \<and> (base t = base s \<or> gateway_step E (base s) (base t))"
  using locked.inv_reach [OF assms(1)] locked_step_base [OF _ assms(2)]
  unfolding refines_base_def by blast

section \<open>What a handler writes, and when it has to wait\<close>

lemma handler_commit_state:
  assumes "handler_commit d h g = (h', g')"
  shows "g' = g \<or>
         (\<exists>c k. writes_entry (fst d) \<and> canister_id (snd d) = Some c \<and> client_key (snd d) = Some k \<and>
            (g' = snd (remove_client_if_exists c k g) \<or>
             (\<exists>tx. g' = snd (insert_client_channel_and_get_new_poller_state c k tx g))))"
proof -
  obtain res s1 where d: "d = (res, s1)" by fastforce
  have g': "g' = snd (handle_update res s1 (client_channel_tx h) g)"
    using assms(1) by (auto simp: handler_commit_def d Let_def split: prod.splits)
  show ?thesis
  proof (cases "canister_id s1 = None \<or> client_key s1 = None")
    case True
    then have "g' = g"
      by (auto simp: g' handle_update_def register_client_def handle_closed_def handle_error_def and_then_def
          get_canister_id_def get_client_key_def expect_def simp del: debug_ic_ws_error.simps
          split: outcome.splits option.splits IcWsSessionState.splits IcWsError.splits)
    then show ?thesis ..
  next
    case False
    then obtain c k where known: "canister_id s1 = Some c" "client_key s1 = Some k" by auto
    have "g' = g \<or> writes_entry res \<and>
        (g' = snd (remove_client_if_exists c k g) \<or>
         (\<exists>x. g' = snd (insert_client_channel_and_get_new_poller_state c k x g)))"
      using remove_client_state [of c k g]
      by (auto simp: g' handle_update_def register_client_def handle_closed_def handle_error_def and_then_def
          known expect_def writes_entry_def Let_def simp del: debug_ic_ws_error.simps
          split: outcome.splits option.splits IcWsSessionState.splits IcWsError.splits prod.splits
            ClientRemovalResult.splits) (metis snd_conv)+
    with known show ?thesis by (auto simp: d)
  qed
qed

lemma handler_commit_arcs:
  assumes "handler_commit d h g = (h', g')" and "dm_get (arcs g' r) k \<noteq> dm_get (arcs g r) k"
    and "r \<noteq> next_arc g"
  shows "writes_entry (fst d) \<and> canister_id (snd d) \<noteq> None \<and> client_key (snd d) = Some k \<and>
         dm_get (data g) (the (canister_id (snd d))) = Some r"
proof -
  have "k1 = k \<and> dm_get (data g) c = Some r"
    if "dm_get (arcs (snd (insert_client_channel_and_get_new_poller_state c k1 x g)) r) k \<noteq> dm_get (arcs g r) k"
    for c k1 x
    using that assms(3) unfolding insert_effect by (auto split: option.splits if_splits)
  moreover have "k1 = k \<and> dm_get (data g) c = Some r"
    if "dm_get (arcs (snd (remove_client_if_exists c k1 g)) r) k \<noteq> dm_get (arcs g r) k" for c k1
    using that unfolding remove_effect by (auto split: option.splits if_splits)
  ultimately show ?thesis using handler_commit_state [OF assms(1)] assms(2) by fastforce
qed

section \<open>What a guard protects\<close>

text \<open>A poller holds the guard of the client it is about to send to, or is sending to.\<close>

definition guarded :: "locked_gateway \<Rightarrow> nat \<Rightarrow> ClientKey \<Rightarrow> bool" where
  "guarded s a k \<longleftrightarrow>
     a < length (pollers (base s)) \<and> guards s a = Some k \<and> relay_target s a = Some k"

abbreviation guarded_arc :: "locked_gateway \<Rightarrow> nat \<Rightarrow> poller_ref" where
  "guarded_arc s a \<equiv> poller_state (poller (pollers (base s) ! a))"

lemma guarded_pc:
  assumes "guarded s a k"
  obtains m ms crt tr eoq cs where "pc (pollers (base s) ! a) = PollerRelaying (m # ms) crt tr eoq"
    "out_client_key m = k" "dm_get (arcs (gw (base s)) (guarded_arc s a)) k = Some cs"
  using assms
  by (auto simp: guarded_def relay_target_def Let_def split: poller_pc.splits list.splits option.splits)

lemma guarded_locked: "guarded s a k \<Longrightarrow> shard k' = shard k \<Longrightarrow> read_locked shard s (guarded_arc s a) k'"
  unfolding guarded_def read_locked_def by (intro exI [of _ a]) simp

lemma guarded_running: "guarded s a k \<Longrightarrow> \<not> poller_ended (pc (pollers (base s) ! a))"
  by (erule guarded_pc) simp

text \<open>Handlers that are not waiting leave the entry under the guard alone.\<close>

lemma commit_keeps_entry:
  assumes "guarded s a k" and "handler_commit d h (gw (base s)) = (h', g')"
    and "\<not> must_wait shard s d" and "guarded_arc s a \<noteq> next_arc (gw (base s))"
  shows "dm_get (arcs g' (guarded_arc s a)) k = dm_get (arcs (gw (base s)) (guarded_arc s a)) k"
proof (rule ccontr)
  assume "dm_get (arcs g' (guarded_arc s a)) k \<noteq> dm_get (arcs (gw (base s)) (guarded_arc s a)) k"
  from handler_commit_arcs [OF assms(2) this assms(4)] guarded_locked [OF assms(1) refl, of shard]
  have "must_wait shard s d" by (auto simp: must_wait_def entry_locked_def)
  with assms(3) show False by simp
qed

lemma continue_keeps_entry:
  assumes guard: "guarded s a k" and wf: "handler_wf j h"
    and go: "handler_continue env h (gw (base s)) = Some (h', g', sp)"
    and free: "\<not> relay_must_wait shard s env h"
  shows "dm_get (arcs g' (guarded_arc s a)) k = dm_get (arcs (gw (base s)) (guarded_arc s a)) k"
  using wf go
proof (cases rule: handler_continue_cases)
  case (relay_failed x c k1 m new r)
  have "\<not> entry_locked shard s c k1" using free relay_failed(1,3) by (auto simp: relay_must_wait_def)
  with guarded_locked [OF guard refl, of shard] show ?thesis
    by (auto simp: relay_failed(4) remove_effect entry_locked_def split: option.splits)
qed simp_all

text \<open>
  As long as the guard is held, its poller does not move, its poller state stays the one of its
  canister, and the entry under the guard stays as it is.
\<close>

lemma guarded_step:
  assumes inv: "gateway_inv (base s)" and ok: "decided_ok E s" and guard: "guarded s a k"
    and go: "locked_step shard E s t" and kept: "guards t a = Some k"
  shows "length (pollers (base s)) \<le> length (pollers (base t)) \<and>
         pollers (base t) ! a = pollers (base s) ! a \<and>
         (\<forall>c. dm_get (data (gw (base s))) c = Some (guarded_arc s a) \<longrightarrow>
            dm_get (data (gw (base t))) c = dm_get (data (gw (base s))) c) \<and>
         dm_get (arcs (gw (base t)) (guarded_arc s a)) k = dm_get (arcs (gw (base s)) (guarded_arc s a)) k"
proof -
  let ?r = "guarded_arc s a"
  have a: "a < length (pollers (base s))" using guard by (simp add: guarded_def)
  have own: "owners_ok (base s)" using inv by (simp add: gateway_inv_def)
  note owner_a = running_owner [OF a guarded_running [OF guard]]
  have fresh: "?r \<noteq> next_arc (gw (base s))"
    using owners_okD(1) [OF own owner_a] inv gateway_wf_less unfolding gateway_inv_def by fastforce
  from go show ?thesis
  proof cases
    case (l_commit j h d' h' g')
    from decided_okD [OF ok l_commit(2,1)] obtain env u where pc: "handler_pc h = HandlerUpdate"
      and "E env" and d': "d' = try_update_state env (ClientUpdate u) (client_session h)" by blast
    have up: "handler_update env (ClientUpdate u) h (gw (base s)) = (h', g')"
      using l_commit(4) by (simp add: handler_update_commit d')
    from owner_update(2) [OF inv l_commit(1) pc up, of "base t"] l_commit(5)
      commit_keeps_entry [OF guard l_commit(4,3) fresh]
    show ?thesis by simp
  next
    case (l_canister_event j h env v ch' d' h' g')
    have up: "handler_update env (CanisterUpdate v) h (gw (base s)) = (h', g')"
      using l_canister_event(6,8) by (simp add: handler_update_commit)
    from owner_update(2) [OF inv l_canister_event(1,2) up, of "base t"] l_canister_event(9)
      commit_keeps_entry [OF guard l_canister_event(8,7) fresh]
    show ?thesis by simp
  next
    case (l_handler_goes_on j h env h' g' spawned)
    from owner_continue(2) [OF inv l_handler_goes_on(1,4) refl] l_handler_goes_on(5)
      continue_keeps_entry [OF guard gateway_inv_handler [OF inv l_handler_goes_on(1)] l_handler_goes_on(4,3)] a
    show ?thesis by (simp add: nth_append)
  next
    case (l_poller_goes_on b env p' g' chs')
    have ba: "b \<noteq> a" using l_poller_goes_on(4) kept by auto
    let ?p = "pollers (base s) ! b"
    have "\<not> poller_ended (pc ?p)"
      using l_poller_goes_on(3) by (auto simp: poller_step_def elim!: poller_ended.elims(2))
    note owner_b = running_owner [OF l_poller_goes_on(1) this]
    note r = owners_okD(1) [OF own owner_b]
    have "arcs g' = arcs (gw (base s)) \<and>
        (\<forall>c. dm_get (data (gw (base s))) c = Some ?r \<longrightarrow> dm_get (data g') c = Some ?r)"
      using l_poller_goes_on(3) r
    proof (cases rule: poller_step_cases)
      case (ends e)
      have "poller_state (poller ?p) \<noteq> ?r" using owners_okD(2) [OF own owner_a, of "Inl b"] owner_b ba by auto
      with ends r show ?thesis by auto
    qed auto
    with l_poller_goes_on ba show ?thesis by simp
  qed simp_all
qed

lemma relay_target_kept:
  assumes "guarded s a k" and "pollers (base t) ! a = pollers (base s) ! a"
    and "dm_get (arcs (gw (base t)) (guarded_arc s a)) k = dm_get (arcs (gw (base s)) (guarded_arc s a)) k"
  shows "relay_target t a = Some k"
proof -
  from assms(1) obtain m ms crt tr eoq cs
    where "pc (pollers (base s) ! a) = PollerRelaying (m # ms) crt tr eoq" "out_client_key m = k"
      "dm_get (arcs (gw (base s)) (guarded_arc s a)) k = Some cs" by (rule guarded_pc)
  with assms(2,3) show ?thesis by (simp add: relay_target_def)
qed

lemma relay_target_base: "relay_target (s\<lparr>guards := x\<rparr>) a = relay_target s a"
proof -
  have "base (s\<lparr>guards := x\<rparr>) = base s" by simp
  then show ?thesis by (simp only: relay_target_def)
qed

text \<open>Every guard of a reachable state is held for the message its poller is at.\<close>

definition guards_ok :: "locked_gateway \<Rightarrow> bool" where
  "guards_ok s \<longleftrightarrow> (\<forall>a k. guards s a = Some k \<longrightarrow> guarded s a k)"

lemma guards_ok_step:
  assumes inv: "gateway_inv (base s)" and ok: "decided_ok E s" "guards_ok s" and go: "locked_step shard E s t"
  shows "guards_ok t"
  unfolding guards_ok_def
proof (intro allI impI)
  fix a k assume kept: "guards t a = Some k"
  show "guarded t a k"
  proof (cases "guards s a = Some k")
    case True
    then have guard: "guarded s a k" using ok(2) by (simp add: guards_ok_def)
    from guarded_step [OF inv ok(1) guard go kept] relay_target_kept [OF guard, of t] kept guard
    show ?thesis by (simp add: guarded_def)
  next
    case False
    from go show ?thesis
    proof cases
      case (l_guard b k')
      then have "b = a" "k' = k" using False kept by (auto split: if_splits)
      with l_guard show ?thesis by (simp add: guarded_def relay_target_base)
    qed (use False kept in \<open>auto split: if_splits\<close>)
  qed
qed

interpretation guarding: inductive_invariant locked_init "locked_step shard E" "\<lambda>s. refines_base E s \<and> guards_ok s"
  for shard E
proof unfold_locales
  show "refines_base E s \<and> guards_ok s" if "locked_init s" for s
    using locked_init_base [OF that] by (auto simp: refines_base_def guards_ok_def intro: reach_init)
  show "refines_base E t \<and> guards_ok t" if "refines_base E s \<and> guards_ok s" "locked_step shard E s t" for s t
    using that guards_ok_step [OF _ _ _ that(2)] refines_base_step [OF _ that(2)] reachable_inv
    unfolding refines_base_def by blast
qed

section \<open>Waiting for each other\<close>

text \<open>A send into a full channel waits.\<close>

definition full :: "channel \<Rightarrow> bool" where
  "full ch \<longleftrightarrow> rx_open ch \<and> CHANNEL_CAPACITY \<le> length (queue ch)"

lemma send_waits_iff: "channel_send m ch = None \<longleftrightarrow> full ch"
  by (auto simp: channel_send_def full_def)

text \<open>A poller waits for room in the channel of handler \<open>i\<close>, under the guard of client \<open>k\<close>.\<close>

definition waits_for_room :: "locked_gateway \<Rightarrow> nat \<Rightarrow> ClientKey \<Rightarrow> u64 \<Rightarrow> bool" where
  "waits_for_room s a k i \<longleftrightarrow>
     guarded s a k \<and> dm_get (arcs (gw (base s)) (guarded_arc s a)) k = Some \<lparr>sender = i\<rparr> \<and>
     full (chans (base s) i)"

text \<open>
  Handler \<open>i\<close> has to remove a client of that poller's canister, and its key is in the shard under the
  guard; it drains its channel no more.
\<close>

definition waits_for_lock :: "(ClientKey \<Rightarrow> nat) \<Rightarrow> locked_gateway \<Rightarrow> nat \<Rightarrow> ClientKey \<Rightarrow> u64 \<Rightarrow> bool" where
  "waits_for_lock shard s a k i \<longleftrightarrow>
     (\<exists>d c k'. decided s i = Some d \<and> writes_entry (fst d) \<and> canister_id (snd d) = Some c \<and>
        client_key (snd d) = Some k' \<and> shard k' = shard k \<and>
        dm_get (data (gw (base s))) c = Some (guarded_arc s a))"

definition deadlocked :: "(ClientKey \<Rightarrow> nat) \<Rightarrow> nat \<Rightarrow> ClientKey \<Rightarrow> u64 \<Rightarrow> locked_gateway \<Rightarrow> bool" where
  "deadlocked shard a k i s \<longleftrightarrow> waits_for_room s a k i \<and> waits_for_lock shard s a k i"

text \<open>What the deadlock depends on.\<close>

definition same_wait :: "nat \<Rightarrow> u64 \<Rightarrow> locked_gateway \<Rightarrow> locked_gateway \<Rightarrow> bool" where
  "same_wait a i s t \<longleftrightarrow>
     handlers (base t) i = handlers (base s) i \<and> decided t i = decided s i \<and>
     pollers (base t) ! a = pollers (base s) ! a \<and> guards t a = guards s a"

lemma same_wait_trans: "same_wait a i s t \<Longrightarrow> same_wait a i t u \<Longrightarrow> same_wait a i s u"
  by (simp add: same_wait_def)

lemma send_full: "channel_send m ch = Some (b, ch') \<Longrightarrow> \<not> full ch"
  by (metis send_waits_iff option.distinct(1))

lemma relay_output_full:
  "relay_output_message clients crt tr m chs = Some chs' \<Longrightarrow> full (chs i) \<Longrightarrow> chs' i = chs i"
  by (auto simp: relay_output_message_def relay_message_def split: option.splits prod.splits dest: send_full)

lemma poller_step_full:
  assumes "poller_step env t g chs = Some (t', g', chs')" and "full (chs i)"
  shows "chs' i = chs i"
proof -
  have "chs' = chs \<or> (\<exists>clients crt tr m. relay_output_message clients crt tr m chs = Some chs')"
    using assms(1)
    by (auto simp: poller_step_def Let_def
        split: poller_pc.splits list.splits option.splits prod.splits bool.splits outcome.splits)
  with assms(2) relay_output_full show ?thesis by blast
qed

text \<open>Under its guard, a poller is stuck exactly if the channel it sends into is full.\<close>

lemma guarded_stuck_iff:
  assumes "guarded s a k" and "dm_get (arcs (gw (base s)) (guarded_arc s a)) k = Some cs"
  shows "poller_step env (pollers (base s) ! a) (gw (base s)) (chans (base s)) = None \<longleftrightarrow>
         full (chans (base s) (sender cs))"
  using assms(1)
proof (rule guarded_pc)
  fix m ms crt tr eoq cs'
  assume "pc (pollers (base s) ! a) = PollerRelaying (m # ms) crt tr eoq" "out_client_key m = k"
  with assms(2) show ?thesis
    by (auto simp: poller_step_def Let_def relay_output_message_def relay_message_def send_waits_iff
        split: option.splits dest: send_full)
qed

lemma waits_for_room_stuck:
  "waits_for_room s a k i \<Longrightarrow> poller_step env (pollers (base s) ! a) (gw (base s)) (chans (base s)) = None"
  using guarded_stuck_iff [of s a k "\<lparr>sender = i\<rparr>"] by (simp add: waits_for_room_def)

lemma waits_for_room_locked:
  "waits_for_room s a k i \<Longrightarrow> shard k' = shard k \<Longrightarrow> read_locked shard s (guarded_arc s a) k'"
  using guarded_locked by (auto simp: waits_for_room_def)

lemma put_handler_chans: "j \<noteq> i \<Longrightarrow> chans (put_handler j h s) i = chans s i"
  by (simp add: put_handler_def)

lemma deadlocked_step:
  assumes inv: "gateway_inv (base s)" and ok: "decided_ok E s" and dl: "deadlocked shard a k i s"
    and go: "locked_step shard E s t"
  shows "deadlocked shard a k i t \<and> same_wait a i s t"
proof -
  have room: "waits_for_room s a k i" and lock: "waits_for_lock shard s a k i"
    using dl by (simp_all add: deadlocked_def)
  have guard: "guarded s a k" using room by (simp add: waits_for_room_def)
  from lock obtain d where d: "decided s i = Some d" and wait_i: "must_wait shard s d"
    using waits_for_room_locked [OF room]
    by (force simp: waits_for_lock_def must_wait_def entry_locked_def)
  have pc_i: "handlers (base s) i = Some h \<Longrightarrow> handler_pc h = HandlerUpdate" for h
    using decided_okD [OF ok d] by blast
  have i: "handlers (base s) i \<noteq> None"
    using ok d decision_of_None unfolding decided_ok_def by metis
  have waits: "guards t a = Some k \<and> handlers (base t) i = handlers (base s) i \<and>
      decided t i = decided s i \<and> chans (base t) i = chans (base s) i"
    using go
  proof cases
    case (l_connect j env h accepted)
    with i have "j \<noteq> i" by auto
    with l_connect guard show ?thesis by (simp add: guarded_def put_handler_chans)
  next
    case (l_decide j h env u)
    with d have "j \<noteq> i" by auto
    with l_decide guard show ?thesis by (simp add: guarded_def)
  next
    case (l_commit j h d' h' g')
    with d wait_i have "j \<noteq> i" by auto
    with l_commit guard show ?thesis by (simp add: guarded_def put_handler_chans)
  next
    case (l_canister_event j h env v ch' d' h' g')
    with d have "j \<noteq> i" by auto
    with l_canister_event guard show ?thesis by (simp add: guarded_def put_handler_chans)
  next
    case (l_handler_goes_on j h env h' g' spawned)
    then have "j \<noteq> i" using pc_i continue_not_waiting by blast
    with l_handler_goes_on guard show ?thesis by (simp add: guarded_def put_handler_chans)
  next
    case (l_guard b k')
    with guard show ?thesis by (auto simp: guarded_def)
  next
    case (l_poller_goes_on b env p' g' chs')
    then have "b \<noteq> a" using waits_for_room_stuck [OF room] by auto
    moreover have "chs' i = chans (base s) i"
      using poller_step_full [OF l_poller_goes_on(3)] room by (simp add: waits_for_room_def)
    ultimately show ?thesis using l_poller_goes_on guard by (simp add: guarded_def)
  qed
  from guarded_step [OF inv ok guard go] waits
  have frame: "length (pollers (base s)) \<le> length (pollers (base t))"
    "pollers (base t) ! a = pollers (base s) ! a"
    "\<And>c. dm_get (data (gw (base s))) c = Some (guarded_arc s a) \<Longrightarrow>
       dm_get (data (gw (base t))) c = dm_get (data (gw (base s))) c"
    "dm_get (arcs (gw (base t)) (guarded_arc s a)) k = dm_get (arcs (gw (base s)) (guarded_arc s a)) k"
    by blast+
  have "guarded t a k"
    using waits frame guard relay_target_kept [OF guard frame(2,4)] by (simp add: guarded_def)
  then have "waits_for_room t a k i" using room waits frame by (simp add: waits_for_room_def)
  moreover have "waits_for_lock shard t a k i"
    using lock waits frame unfolding waits_for_lock_def by fastforce
  ultimately show ?thesis using waits frame guard by (simp add: deadlocked_def same_wait_def guarded_def)
qed

lemma deadlocked_run:
  assumes "locked_reachable shard E s" and "deadlocked shard a k i s"
  shows "(locked_step shard E)\<^sup>*\<^sup>* s t \<Longrightarrow>
           locked_reachable shard E t \<and> deadlocked shard a k i t \<and> same_wait a i s t"
proof (induction rule: rtranclp_induct)
  case base
  with assms show ?case by (simp add: same_wait_def)
next
  case (step t u)
  have "refines_base E t" using step.IH locked.inv_reach by blast
  then have "gateway_inv (base t)" "decided_ok E t"
    using reachable_inv by (auto simp: refines_base_def)
  with deadlocked_step [OF _ _ _ step.hyps(2)] step.IH step.hyps(2) same_wait_trans reach_step
  show ?case by metis
qed

text \<open>
  C9: the gateway can come to a deadlock. If a session decides to leave (its client sent a close
  message, or an error ended it) while its channel is full and the poller of its canister waits to put
  the next message in, then the handler waits for the write lock of its client's shard, which the
  poller holds for reading while it waits, and the poller waits for room that only this handler could
  make. Whatever else happens, both stay where they are for ever: the session is never cleaned up, the
  canister is never told, no client of that canister gets a message again, and none whose key falls
  into the same shard can be registered or removed.
\<close>

theorem leaving_client_deadlocks_poller:
  assumes "locked_reachable shard E s"
    and "waits_for_room s a k i"
    and "decided s i = Some d" and "writes_entry (fst d)"
    and "canister_id (snd d) = Some c" and "client_key (snd d) = Some k'" and "shard k' = shard k"
    and "dm_get (data (gw (base s))) c = Some (poller_state (poller (pollers (base s) ! a)))"
    and "(locked_step shard E)\<^sup>*\<^sup>* s t"
  shows "handlers (base t) i = handlers (base s) i \<and> decided t i = Some d \<and>
         pollers (base t) ! a = pollers (base s) ! a \<and> guards t a = Some k \<and>
         (\<forall>k2. shard k2 = shard k \<longrightarrow> entry_locked shard t c k2) \<and>
         (\<forall>env. poller_step env (pollers (base t) ! a) (gw (base t)) (chans (base t)) = None)"
proof -
  have "waits_for_lock shard s a k i" using assms(3-8) unfolding waits_for_lock_def by blast
  with assms(2) have dl: "deadlocked shard a k i s" by (simp add: deadlocked_def)
  from deadlocked_run [OF assms(1) dl assms(9)]
  have t: "deadlocked shard a k i t" and sw: "same_wait a i s t" by simp_all
  have room: "waits_for_room t a k i" using t by (simp add: deadlocked_def)
  have "decided t i = Some d" using sw assms(3) by (simp add: same_wait_def)
  with t assms(5-7) have "\<forall>k2. shard k2 = shard k \<longrightarrow> entry_locked shard t c k2"
    using waits_for_room_locked [OF room]
    by (auto simp: deadlocked_def waits_for_lock_def entry_locked_def)
  with sw assms(2,3) waits_for_room_stuck [OF room] show ?thesis
    by (simp add: same_wait_def waits_for_room_def guarded_def)
qed

section \<open>A run into the deadlock\<close>

text \<open>
  Every schedule of the system is one of the system with locks, in which each poller takes the guard
  right before it sends.
\<close>

definition unlocked :: "ws_gateway \<Rightarrow> locked_gateway" where
  "unlocked b = \<lparr>base = b, guards = (\<lambda>_. None), decided = (\<lambda>_. None)\<rparr>"

lemma unlocked_sel [simp]:
  "base (unlocked b) = b" "guards (unlocked b) a = None" "decided (unlocked b) i = None"
  by (simp_all add: unlocked_def)

lemma unlocked_not_locked [simp]:
  "\<not> must_wait shard (unlocked b) d" "\<not> relay_must_wait shard (unlocked b) env h"
  by (auto simp: must_wait_def relay_must_wait_def entry_locked_def read_locked_def
      split: option.splits handler_pc.splits outcome.splits)

lemma locked_event:
  assumes h: "handlers b i = Some h" "handler_pc h = HandlerUpdate" and "E env"
    and up: "handler_update env (ClientUpdate u) h (gw b) = (h', g')"
  shows "(locked_step shard E)\<^sup>*\<^sup>* (unlocked b) (unlocked (put_handler i h' (b\<lparr>gw := g'\<rparr>)))"
proof -
  let ?d = "try_update_state env (ClientUpdate u) (client_session h)"
  let ?s = "(unlocked b)\<lparr>decided := (decided (unlocked b))(i \<mapsto> ?d)\<rparr>"
  have "locked_step shard E (unlocked b) ?s"
    by (rule l_decide [where i = i and h = h and env = env and u = u]) (simp_all add: h assms(3))
  moreover have "\<not> must_wait shard ?s ?d"
    by (auto simp: must_wait_def entry_locked_def read_locked_def split: option.splits)
  then have "locked_step shard E ?s (unlocked (put_handler i h' (b\<lparr>gw := g'\<rparr>)))"
    by (rule l_commit [where h = h and i = i and d = ?d, rotated 2])
      (simp_all add: h up [unfolded handler_update_commit] unlocked_def fun_eq_iff)
  ultimately show ?thesis by (meson converse_rtranclp_into_rtranclp r_into_rtranclp)
qed

lemma locked_relay:
  assumes a: "a < length (pollers b)"
    and go: "poller_step env (pollers b ! a) (gw b) (chans b) = Some (p', g', chs')"
  shows "(locked_step shard E)\<^sup>*\<^sup>* (unlocked b)
           (unlocked (b\<lparr>pollers := (pollers b)[a := p'], gw := g', chans := chs'\<rparr>))"
proof (cases "relay_target (unlocked b) a")
  case None
  then have "locked_step shard E (unlocked b)
      (unlocked (b\<lparr>pollers := (pollers b)[a := p'], gw := g', chans := chs'\<rparr>))"
    using a go by (intro l_poller_goes_on [where a = a]) (simp_all add: unlocked_def fun_eq_iff)
  then show ?thesis by (rule r_into_rtranclp)
next
  case (Some k)
  let ?s = "(unlocked b)\<lparr>guards := (guards (unlocked b))(a \<mapsto> k)\<rparr>"
  have "locked_step shard E (unlocked b) ?s"
    using a Some by (intro l_guard [where a = a]) simp_all
  moreover have "relay_target ?s a = Some k" using Some by (simp add: relay_target_base)
  then have "locked_step shard E ?s
      (unlocked (b\<lparr>pollers := (pollers b)[a := p'], gw := g', chans := chs'\<rparr>))"
    using a go by (intro l_poller_goes_on [where a = a]) (simp_all add: unlocked_def fun_eq_iff)
  ultimately show ?thesis by (meson converse_rtranclp_into_rtranclp r_into_rtranclp)
qed

lemma locked_act:
  assumes E: "\<And>env. action_env x = Some env \<Longrightarrow> E env"
  shows "(locked_step shard E)\<^sup>*\<^sup>* (unlocked b) (unlocked (act x b))"
proof (cases x)
  case (Connects i env)
  show ?thesis
  proof (cases "handlers b i")
    case None
    then have "locked_step shard E (unlocked b) (unlocked (act x b))"
      unfolding Connects
      by (intro l_connect [where i = i and env = env and accepted = "Inr ()"])
        (simp_all add: E Connects unlocked_def)
    then show ?thesis by (rule r_into_rtranclp)
  qed (simp add: Connects)
next
  case (ClientSends i env u)
  show ?thesis
  proof (cases "\<exists>h. handlers b i = Some h \<and> handler_pc h = HandlerUpdate")
    case True
    then obtain h where h: "handlers b i = Some h" "handler_pc h = HandlerUpdate" by blast
    obtain h' g' where up: "handler_update env (ClientUpdate u) h (gw b) = (h', g')" by fastforce
    have "E env" by (simp add: E ClientSends)
    from locked_event [where E = E and env = env, OF h this up] show ?thesis by (simp add: ClientSends h up)
  qed (auto simp: ClientSends split: option.split)
next
  case (ReadsChannel i env)
  show ?thesis
  proof (cases "\<exists>h m ms. handlers b i = Some h \<and> handler_pc h = HandlerUpdate \<and> queue (chans b i) = m # ms")
    case True
    then obtain h m ms where h: "handlers b i = Some h" "handler_pc h = HandlerUpdate"
      and q: "queue (chans b i) = m # ms" by blast
    obtain h' g' where up: "handler_update env (CanisterUpdate (Some m)) h (gw b) = (h', g')" by fastforce
    let ?b = "put_handler i h' (b\<lparr>gw := g', chans := (chans b)(i := (chans b i)\<lparr>queue := ms\<rparr>)\<rparr>)"
    have "channel_recv (sender_alive b i) (chans b i) = Some (Some m, (chans b i)\<lparr>queue := ms\<rparr>)"
      by (simp add: channel_recv_def q)
    moreover have "E env" by (simp add: E ReadsChannel)
    ultimately have "locked_step shard E (unlocked b) (unlocked ?b)"
      using h up [unfolded handler_update_commit]
      by (intro l_canister_event [where i = i and h = h and env = env, OF _ h(2) _ _ _ refl])
        (simp_all, simp add: unlocked_def)
    moreover have "act x b = ?b" by (simp add: ReadsChannel h q up)
    ultimately have "locked_step shard E (unlocked b) (unlocked (act x b))" by simp
    then show ?thesis by (rule r_into_rtranclp)
  qed (auto simp: ReadsChannel split: option.split list.split)
next
  case (GoesOn i env)
  show ?thesis
  proof (cases "\<exists>h h' g' sp. handlers b i = Some h \<and> handler_continue env h (gw b) = Some (h', g', sp)")
    case True
    then obtain h h' g' sp where h: "handlers b i = Some h"
      and go: "handler_continue env h (gw b) = Some (h', g', sp)" by blast
    have "locked_step shard E (unlocked b) (unlocked (act x b))"
      unfolding GoesOn
      by (rule l_handler_goes_on [where i = i and h = h and env = env])
        (simp_all add: E GoesOn h go unlocked_not_locked [unfolded unlocked_def] unlocked_def)
    then show ?thesis by (rule r_into_rtranclp)
  qed (auto simp: GoesOn split: option.split)
next
  case (PollerGoesOn a env)
  then show ?thesis by (auto intro: locked_relay split: option.split)
qed

lemma locked_schedule:
  "(\<And>x env. x \<in> set xs \<Longrightarrow> action_env x = Some env \<Longrightarrow> E env) \<Longrightarrow>
     (locked_step shard E)\<^sup>*\<^sup>* (unlocked b) (unlocked (schedule xs b))"
proof (induction xs arbitrary: b)
  case (Cons x xs)
  have "(locked_step shard E)\<^sup>*\<^sup>* (unlocked b) (unlocked (act x b))"
    by (rule locked_act) (rule Cons.prems, simp_all)
  also have "(locked_step shard E)\<^sup>*\<^sup>* (unlocked (act x b)) (unlocked (schedule xs (act x b)))"
    by (rule Cons.IH) (rule Cons.prems, simp_all)
  finally show ?case by simp
qed simp

text \<open>
  The run: client 7 opens its session, the canister has 101 messages for it, the poller puts 100 of
  them into its channel and waits with the last one, and the client sends a close message.
\<close>

definition flood :: "CanisterOutputMessage list" where
  "flood = map (\<lambda>n. (mock_message n)\<lparr>out_client_key := ClientKey_new (Principal [1]) 9\<rparr>) (nonces_from 0 101)"

definition flood_env :: poller_env where
  "flood_env = mock_env (\<lambda>_. \<lparr>messages = flood, cert = [], tree = [], is_end_of_queue = Some True\<rparr>)"

lemma flood_length [simp]: "length flood = 101"
  by (simp add: flood_def)

lemma flood_key: "m \<in> set flood \<Longrightarrow> out_client_key m = ClientKey_new (Principal [1]) 9"
  by (auto simp: flood_def)

lemma flood_nonces: "fst (update_nonce_loop 0 flood) = Inr ()"
proof -
  have n: "has_nonces flood (nonces_from 0 101)"
    by (simp add: has_nonces_def flood_def list_all2_conv_all_nth)
  have "flood \<noteq> []" using flood_length by (metis list.size(3) zero_neq_numeral)
  moreover have "nonces_from 0 101 = 0 # nonces_from 1 100" using nonces_from.simps(2) [of 0 100] by simp
  ultimately show ?thesis
    using update_nonce_loop_first(1) [OF n, of mock_poller] by (simp add: first_nonce_def)
qed

lemma flood_poll:
  assumes "next_message_nonce p = 0"
  shows "\<exists>p'. poller_state p' = poller_state p \<and>
           poll_and_relay_start flood_env p = \<lparr>poller = p', pc = PollerRelaying flood [] [] True\<rparr>"
proof -
  obtain x n where "update_nonce_loop 0 flood = (x, n)" by fastforce
  moreover from this flood_nonces have "x = Inr ()" by simp
  ultimately show ?thesis
    using assms flood_length
    by (auto simp: poll_and_relay_start_def poll_canister_def flood_env_def timeout_def mock_env_def
        update_nonce_def Let_def simp del: flood_length split: prod.splits)
qed

text \<open>The poller puts messages into the channel while there is room.\<close>

lemma flood_relay:
  assumes "pollers s = [\<lparr>poller = p, pc = PollerRelaying (xs @ ys) crt tr eoq\<rparr>]"
    and "dm_get (arcs (gw s) (poller_state p)) k = Some \<lparr>sender = i\<rparr>"
    and "\<forall>x \<in> set xs. out_client_key x = k" and "rx_open (chans s i)"
    and "length (queue (chans s i)) + length xs \<le> CHANNEL_CAPACITY"
  shows "\<exists>chs. schedule (replicate (length xs) (PollerGoesOn 0 env :: bytes action)) s =
           s\<lparr>pollers := [\<lparr>poller = p, pc = PollerRelaying ys crt tr eoq\<rparr>], chans := chs\<rparr> \<and>
           rx_open (chs i) \<and> length (queue (chs i)) = length (queue (chans s i)) + length xs"
  using assms
proof (induction xs arbitrary: s)
  case Nil
  then show ?case by (intro exI [of _ "chans s"]) simp
next
  case (Cons x xs)
  let ?chs = "(chans s)(i := (chans s i)\<lparr>queue := queue (chans s i) @ [to_client_message crt tr x]\<rparr>)"
  let ?s = "s\<lparr>pollers := [\<lparr>poller = p, pc = PollerRelaying (xs @ ys) crt tr eoq\<rparr>], chans := ?chs\<rparr>"
  have "act (PollerGoesOn 0 env :: bytes action) s = ?s"
    using Cons.prems
    by (simp add: poller_step_def relay_output_message_def relay_message_def channel_send_def Let_def)
  moreover have "\<exists>chs. schedule (replicate (length xs) (PollerGoesOn 0 env :: bytes action)) ?s =
           ?s\<lparr>pollers := [\<lparr>poller = p, pc = PollerRelaying ys crt tr eoq\<rparr>], chans := chs\<rparr> \<and>
           rx_open (chs i) \<and> length (queue (chs i)) = length (queue (chans ?s i)) + length xs"
    by (rule Cons.IH) (use Cons.prems in simp_all)
  ultimately show ?case by (auto simp del: act.simps)
qed

definition demo_filled :: "nat \<Rightarrow> ws_gateway" where
  "demo_filled n =
     schedule (replicate n (PollerGoesOn 0 flood_env :: bytes action))
       (act (PollerGoesOn 0 flood_env :: bytes action) demo_open)"

abbreviation demo_flooded :: ws_gateway where
  "demo_flooded \<equiv> demo_filled 100"

lemma demo_open_chan: "chans demo_open 7 = new_channel"
  by (simp add: demo_open_def run_simps)

lemma demo_filled_state:
  assumes n: "n \<le> 100"
  shows "\<exists>p m ms. pollers (demo_filled n) = [\<lparr>poller = p, pc = PollerRelaying (m # ms) [] [] True\<rparr>] \<and>
     poller_state p = 0 \<and> out_client_key m = ClientKey_new (Principal [1]) 9 \<and>
     handlers (demo_filled n) = handlers demo_open \<and>
     rx_open (chans (demo_filled n) 7) \<and> length (queue (chans (demo_filled n) 7)) = n \<and>
     data (gw (demo_filled n)) = data (gw demo_open) \<and> arcs (gw (demo_filled n)) = arcs (gw demo_open)"
proof -
  obtain p where p: "poller_state p = 0" and start: "poll_and_relay_start flood_env
      (CanisterPoller_new (Principal [4]) 0 100) = \<lparr>poller = p, pc = PollerRelaying flood [] [] True\<rparr>"
    using flood_poll [of "CanisterPoller_new (Principal [4]) 0 100"] by (auto simp: CanisterPoller_new_def)
  let ?g = "set_clients_gauge (Principal [4]) (dm_len (arcs (gw demo_open) 0)) (gw demo_open)"
  let ?s = "demo_open\<lparr>pollers := [\<lparr>poller = p, pc = PollerRelaying flood [] [] True\<rparr>], gw := ?g\<rparr>"
  have first: "act (PollerGoesOn 0 flood_env :: bytes action) demo_open = ?s"
    by (simp add: demo_open_pollers poller_task_new_def poller_step_def start Let_def)
      (simp add: CanisterPoller_new_def)
  have "drop n flood \<noteq> []" using n by simp
  then obtain m ms where m: "drop n flood = m # ms" by (metis neq_Nil_conv)
  have "out_client_key m = ClientKey_new (Principal [1]) 9"
    using flood_key [of m] m in_set_dropD [of m n flood] by simp
  moreover have "\<exists>chs. schedule (replicate (length (take n flood)) (PollerGoesOn 0 flood_env :: bytes action)) ?s =
           ?s\<lparr>pollers := [\<lparr>poller = p, pc = PollerRelaying (drop n flood) [] [] True\<rparr>], chans := chs\<rparr> \<and>
           rx_open (chs 7) \<and> length (queue (chs 7)) = length (queue (chans ?s 7)) + length (take n flood)"
  proof (rule flood_relay)
    show "\<forall>x \<in> set (take n flood). out_client_key x = ClientKey_new (Principal [1]) 9"
      using flood_key by (blast dest: in_set_takeD)
  qed (use n in \<open>simp_all add: p demo_open_gw demo_open_chan new_channel_def CHANNEL_CAPACITY_def\<close>)
  then obtain chs where filled: "demo_filled n =
      ?s\<lparr>pollers := [\<lparr>poller = p, pc = PollerRelaying (m # ms) [] [] True\<rparr>], chans := chs\<rparr>"
    and chs: "rx_open (chs 7)" "length (queue (chs 7)) = n"
    using n by (auto simp: demo_filled_def first m demo_open_chan new_channel_def min_def simp del: act.simps)
  ultimately show ?thesis
    unfolding filled using p chs by (intro exI [of _ p] exI [of _ m] exI [of _ ms]) simp
qed

lemma demo_filled_reachable:
  "locked_reachable shard (\<lambda>env. env = mock_session_env) (unlocked (demo_filled n))"
proof -
  have "locked_reachable shard (\<lambda>env. env = mock_session_env) (unlocked demo_gateway)"
    by (rule reach_init)
      (auto simp: locked_init_def locked_gateway_new_def unlocked_def demo_gateway_def)
  moreover have "(locked_step shard (\<lambda>env. env = mock_session_env))\<^sup>*\<^sup>* (unlocked demo_gateway) (unlocked demo_open)"
    unfolding demo_open_def by (rule locked_schedule) (auto simp: opens_def)
  moreover have "(locked_step shard (\<lambda>env. env = mock_session_env))\<^sup>*\<^sup>* (unlocked demo_open) (unlocked (demo_filled n))"
    unfolding demo_filled_def schedule_simps(2) [symmetric]
    by (rule locked_schedule) auto
  ultimately show ?thesis by (meson reach_rtranclp)
qed

text \<open>The poller takes the guard for its next message, and the client's close message is read.\<close>

definition demo_leaving :: "nat \<Rightarrow> locked_gateway" where
  "demo_leaving n =
     (unlocked (demo_filled n))
       \<lparr>guards := (\<lambda>_. None)(0 \<mapsto> ClientKey_new (Principal [1]) 9),
        decided := (\<lambda>_. None)(7 \<mapsto> try_update_state mock_session_env (ClientUpdate (Inr (Close None)))
          (client_session (the (handlers demo_open 7))))\<rparr>"

abbreviation demo_deadlock :: locked_gateway where
  "demo_deadlock \<equiv> demo_leaving 100"

lemma demo_leaving_base [simp]: "base (demo_leaving n) = demo_filled n"
  by (simp add: demo_leaving_def)

lemma demo_leaving_guards: "guards (demo_leaving n) = (\<lambda>_. None)(0 \<mapsto> ClientKey_new (Principal [1]) 9)"
  by (simp add: demo_leaving_def)

lemma demo_leaving_reachable:
  assumes "n \<le> 100"
  shows "locked_reachable shard (\<lambda>env. env = mock_session_env) (demo_leaving n)"
proof -
  obtain p m ms where s: "pollers (demo_filled n) = [\<lparr>poller = p, pc = PollerRelaying (m # ms) [] [] True\<rparr>]"
    "poller_state p = 0" "out_client_key m = ClientKey_new (Principal [1]) 9"
    "handlers (demo_filled n) = handlers demo_open" "arcs (gw (demo_filled n)) = arcs (gw demo_open)"
    using demo_filled_state [OF assms] by blast
  obtain h where h: "handlers demo_open 7 = Some h" "handler_pc h = HandlerUpdate"
    using demo_open_handler by blast
  let ?s = "(unlocked (demo_filled n))\<lparr>guards :=
      (guards (unlocked (demo_filled n)))(0 \<mapsto> ClientKey_new (Principal [1]) 9)\<rparr>"
  have "locked_step shard (\<lambda>env. env = mock_session_env) (unlocked (demo_filled n)) ?s"
    by (rule l_guard [where a = 0]) (simp_all add: relay_target_def s demo_open_gw)
  with demo_filled_reachable have "locked_reachable shard (\<lambda>env. env = mock_session_env) ?s"
    by (rule reach_step)
  moreover have "locked_step shard (\<lambda>env. env = mock_session_env) ?s (demo_leaving n)"
    by (rule l_decide [where i = 7 and h = h and env = mock_session_env and u = "Inr (Close None)"])
      (simp_all add: s h demo_leaving_def unlocked_def)
  ultimately show ?thesis by (rule reach_step)
qed

lemma demo_leaving_guarded:
  assumes "n \<le> 100"
  shows "guarded (demo_leaving n) 0 (ClientKey_new (Principal [1]) 9)"
    and "dm_get (arcs (gw (demo_filled n)) (poller_state (poller (pollers (demo_filled n) ! 0))))
           (ClientKey_new (Principal [1]) 9) = Some \<lparr>sender = 7\<rparr>"
    and "dm_get (data (gw (demo_filled n))) (Principal [4]) =
           Some (poller_state (poller (pollers (demo_filled n) ! 0)))"
    and "full (chans (demo_filled n) 7) \<longleftrightarrow> n = 100"
proof -
  obtain p m ms where s: "pollers (demo_filled n) = [\<lparr>poller = p, pc = PollerRelaying (m # ms) [] [] True\<rparr>]"
    "poller_state p = 0" "out_client_key m = ClientKey_new (Principal [1]) 9"
    "rx_open (chans (demo_filled n) 7)" "length (queue (chans (demo_filled n) 7)) = n"
    "data (gw (demo_filled n)) = data (gw demo_open)" "arcs (gw (demo_filled n)) = arcs (gw demo_open)"
    using demo_filled_state [OF assms] by blast
  then show "guarded (demo_leaving n) 0 (ClientKey_new (Principal [1]) 9)"
    and "dm_get (arcs (gw (demo_filled n)) (poller_state (poller (pollers (demo_filled n) ! 0))))
           (ClientKey_new (Principal [1]) 9) = Some \<lparr>sender = 7\<rparr>"
    and "dm_get (data (gw (demo_filled n))) (Principal [4]) =
           Some (poller_state (poller (pollers (demo_filled n) ! 0)))"
    and "full (chans (demo_filled n) 7) \<longleftrightarrow> n = 100"
    using assms
    by (auto simp: guarded_def relay_target_def demo_leaving_guards demo_open_gw full_def CHANNEL_CAPACITY_def)
qed

lemma demo_deadlock_room: "waits_for_room demo_deadlock 0 (ClientKey_new (Principal [1]) 9) 7"
  using demo_leaving_guarded [of 100] by (simp add: waits_for_room_def)

lemma demo_leaving_decided:
  "\<exists>s1. decided (demo_leaving n) 7 = Some (Ok (Some Closed), s1) \<and> canister_id s1 = Some (Principal [4]) \<and>
     client_key s1 = Some (ClientKey_new (Principal [1]) 9)"
proof -
  obtain h where h: "handlers demo_open 7 = Some h" "session_state (client_session h) = Setup (Binary [5])"
    "canister_id (client_session h) = Some (Principal [4])"
    "client_key (client_session h) = Some (ClientKey_new (Principal [1]) 9)"
    using demo_open_handler by blast
  then show ?thesis by (simp add: demo_leaving_def try_update_state_eq)
qed

theorem locked_runs_refine_witness:
  "gateway_step (\<lambda>env. env = mock_session_env) demo_gateway (act (Connects 7 mock_session_env) demo_gateway)"
proof -
  have new: "handlers demo_gateway 7 = None" by (simp add: demo_gateway_def ws_gateway_new_def)
  have r: "locked_reachable (\<lambda>_. 0) (\<lambda>env. env = mock_session_env) (unlocked demo_gateway)"
    by (rule reach_init)
      (auto simp: locked_init_def locked_gateway_new_def unlocked_def demo_gateway_def)
  have "locked_step (\<lambda>_. 0) (\<lambda>env. env = mock_session_env) (unlocked demo_gateway)
      (unlocked (act (Connects 7 mock_session_env) demo_gateway))"
    by (rule l_connect [where i = 7 and env = mock_session_env and accepted = "Inr ()"])
      (simp_all add: new unlocked_def)
  from locked_runs_refine [OF r this] have
    "act (Connects 7 mock_session_env) demo_gateway = demo_gateway \<or>
     gateway_step (\<lambda>env. env = mock_session_env) demo_gateway (act (Connects 7 mock_session_env) demo_gateway)"
    by simp
  moreover have "handlers (act (Connects 7 mock_session_env) demo_gateway) 7 \<noteq> None" by (simp add: new)
  ultimately show ?thesis using new by metis
qed

theorem leaving_client_deadlocks_poller_witness:
  "decided demo_deadlock 7 \<noteq> None \<and>
   entry_locked (\<lambda>_. 0) demo_deadlock (Principal [4]) (ClientKey_new (Principal [1]) 9) \<and>
   (\<forall>env. poller_step env (pollers demo_flooded ! 0) (gw demo_flooded) (chans demo_flooded) = None)"
proof -
  obtain s1 where d: "decided demo_deadlock 7 = Some (Ok (Some Closed), s1)"
    "canister_id s1 = Some (Principal [4])" "client_key s1 = Some (ClientKey_new (Principal [1]) 9)"
    using demo_leaving_decided by blast
  have wait: "decided demo_deadlock 7 \<noteq> None \<and>
      entry_locked (\<lambda>_. 0) demo_deadlock (Principal [4]) (ClientKey_new (Principal [1]) 9) \<and>
      (\<forall>env. poller_step env (pollers (base demo_deadlock) ! 0) (gw (base demo_deadlock))
         (chans (base demo_deadlock)) = None)"
    using leaving_client_deadlocks_poller [OF demo_leaving_reachable [OF order_refl] demo_deadlock_room d(1) _ _ _ _ _
        rtranclp.rtrancl_refl, of "Principal [4]" "ClientKey_new (Principal [1]) 9" "\<lambda>_. 0"]
    by (simp add: writes_entry_def d demo_leaving_guarded(3))
  then show ?thesis by simp
qed

end
