(* ===== verification/Gateway_Entries.thy ===== *)
theory Gateway_Entries
  imports Gateway_Locks_Props
begin

text \<open>
  The locks of the map of canisters. Every operation of the gateway state takes the write lock of the
  shard its canister is in, and keeps it until it returns (\<open>DashMap::entry\<close>, \<open>remove\<close>, \<open>remove_if\<close>); a
  handler that then waits for the shard of its client in the poller state keeps it while it waits. The
  number of active pollers is read with \<open>len\<close>, which takes the read lock of every shard. The steps are
  those of the system with the locks of the poller states, with a step of its own in which a handler
  takes the entry of its canister. The assignment of canisters to shards is a parameter, too.
\<close>

section \<open>State\<close>

text \<open>For each handler that carries out a decision, the canister whose entry it holds.\<close>

record entry_gateway =
  lk :: locked_gateway
  held :: "u64 \<Rightarrow> CanisterPrincipal option"

definition entry_gateway_new :: "string + Principal \<Rightarrow> u64 \<Rightarrow> entry_gateway" where
  "entry_gateway_new p interval_ms = \<lparr>lk = locked_gateway_new p interval_ms, held = (\<lambda>_. None)\<rparr>"

text \<open>No handler holds an entry in the shard of a canister, or any entry at all.\<close>

definition entry_free :: "(CanisterPrincipal \<Rightarrow> nat) \<Rightarrow> entry_gateway \<Rightarrow> CanisterPrincipal \<Rightarrow> bool" where
  "entry_free dshard s c \<longleftrightarrow> (\<forall>j c'. held s j = Some c' \<longrightarrow> dshard c' \<noteq> dshard c)"

definition all_entries_free :: "entry_gateway \<Rightarrow> bool" where
  "all_entries_free s \<longleftrightarrow> (\<forall>j. held s j = None)"

text \<open>
  The canister whose entry an arm of the handler takes: the client key is looked at before, so an arm
  that panics for want of it takes none.
\<close>

definition takes_entry :: "session_decision \<Rightarrow> CanisterPrincipal option" where
  "takes_entry d = (if writes_entry (fst d) \<and> client_key (snd d) \<noteq> None then canister_id (snd d) else None)"

text \<open>
  What a handler inside an arm waits for: the entry of the client that it removes again when its
  message could not be relayed, and all shards when it starts a poller, to count the active ones.
\<close>

definition continue_free ::
  "(CanisterPrincipal \<Rightarrow> nat) \<Rightarrow> entry_gateway \<Rightarrow> 'e session_env \<Rightarrow> handler_task \<Rightarrow> bool" where
  "continue_free dshard s env h \<longleftrightarrow>
     (case handler_pc h of
        HandlerRelayOpen c k m new \<Rightarrow>
          (case fst (relay_client_message env m (client_session h)) of
             Err e \<Rightarrow> entry_free dshard s c
           | _ \<Rightarrow> True)
      | HandlerStartPoller r \<Rightarrow> all_entries_free s
      | _ \<Rightarrow> True)"

text \<open>A poller removes its canister, if it is empty or after an error.\<close>

definition poller_free :: "(CanisterPrincipal \<Rightarrow> nat) \<Rightarrow> entry_gateway \<Rightarrow> poller_task \<Rightarrow> bool" where
  "poller_free dshard s p \<longleftrightarrow>
     (case pc p of
        PollerChecking \<Rightarrow> entry_free dshard s (poller_canister_id (poller p))
      | PollerFailed e \<Rightarrow> entry_free dshard s (poller_canister_id (poller p))
      | _ \<Rightarrow> True)"

section \<open>Steps\<close>

inductive entry_step ::
  "(CanisterPrincipal \<Rightarrow> nat) \<Rightarrow> (ClientKey \<Rightarrow> nat) \<Rightarrow> ('e session_env \<Rightarrow> bool)
     \<Rightarrow> entry_gateway \<Rightarrow> entry_gateway \<Rightarrow> bool"
  for dshard shard E where
  e_connect:
    "handlers (base (lk s)) i = None \<Longrightarrow> E env \<Longrightarrow>
     h = start_session env accepted (gw_principal (base (lk s)))
           (ClientSessionHandler_new i (gw_interval_ms (base (lk s)))) \<Longrightarrow>
     b = put_handler i h ((base (lk s))\<lparr>chans := (chans (base (lk s)))(i := new_channel)\<rparr>) \<Longrightarrow>
     t = s\<lparr>lk := (lk s)\<lparr>base := b\<rparr>\<rparr> \<Longrightarrow>
     entry_step dshard shard E s t"
| e_decide:
    "handlers (base (lk s)) i = Some h \<Longrightarrow> handler_pc h = HandlerUpdate \<Longrightarrow> decided (lk s) i = None \<Longrightarrow>
     E env \<Longrightarrow> d = try_update_state env (ClientUpdate u) (client_session h) \<Longrightarrow>
     t = s\<lparr>lk := (lk s)\<lparr>decided := (decided (lk s))(i \<mapsto> d)\<rparr>\<rparr> \<Longrightarrow>
     entry_step dshard shard E s t"
| e_hold:
    "decided (lk s) i = Some d \<Longrightarrow> takes_entry d = Some c \<Longrightarrow> held s i = None \<Longrightarrow>
     entry_free dshard s c \<Longrightarrow> t = s\<lparr>held := (held s)(i \<mapsto> c)\<rparr> \<Longrightarrow>
     entry_step dshard shard E s t"
| e_commit:
    "handlers (base (lk s)) i = Some h \<Longrightarrow> decided (lk s) i = Some d \<Longrightarrow> takes_entry d = held s i \<Longrightarrow>
     \<not> must_wait shard (lk s) d \<Longrightarrow> handler_commit d h (gw (base (lk s))) = (h', g') \<Longrightarrow>
     t = s\<lparr>lk := (lk s)\<lparr>base := put_handler i h' ((base (lk s))\<lparr>gw := g'\<rparr>),
             decided := (decided (lk s))(i := None)\<rparr>,
           held := (held s)(i := None)\<rparr> \<Longrightarrow>
     entry_step dshard shard E s t"
| e_canister_event:
    "handlers (base (lk s)) i = Some h \<Longrightarrow> handler_pc h = HandlerUpdate \<Longrightarrow> decided (lk s) i = None \<Longrightarrow>
     E env \<Longrightarrow> channel_recv (sender_alive (base (lk s)) i) (chans (base (lk s)) i) = Some (v, ch') \<Longrightarrow>
     d = try_update_state env (CanisterUpdate v) (client_session h) \<Longrightarrow>
     (\<And>c. takes_entry d = Some c \<Longrightarrow> entry_free dshard s c) \<Longrightarrow> \<not> must_wait shard (lk s) d \<Longrightarrow>
     handler_commit d h (gw (base (lk s))) = (h', g') \<Longrightarrow>
     b = put_handler i h' ((base (lk s))\<lparr>gw := g', chans := (chans (base (lk s)))(i := ch')\<rparr>) \<Longrightarrow>
     t = s\<lparr>lk := (lk s)\<lparr>base := b\<rparr>\<rparr> \<Longrightarrow>
     entry_step dshard shard E s t"
| e_handler_goes_on:
    "handlers (base (lk s)) i = Some h \<Longrightarrow> E env \<Longrightarrow> continue_free dshard s env h \<Longrightarrow>
     \<not> relay_must_wait shard (lk s) env h \<Longrightarrow>
     handler_continue env h (gw (base (lk s))) = Some (h', g', spawned) \<Longrightarrow>
     b = put_spawned spawned (put_handler i h' ((base (lk s))\<lparr>gw := g'\<rparr>)) \<Longrightarrow>
     t = s\<lparr>lk := (lk s)\<lparr>base := b\<rparr>\<rparr> \<Longrightarrow>
     entry_step dshard shard E s t"
| e_guard:
    "a < length (pollers (base (lk s))) \<Longrightarrow> guards (lk s) a = None \<Longrightarrow> relay_target (lk s) a = Some k \<Longrightarrow>
     t = s\<lparr>lk := (lk s)\<lparr>guards := (guards (lk s))(a \<mapsto> k)\<rparr>\<rparr> \<Longrightarrow>
     entry_step dshard shard E s t"
| e_poller_goes_on:
    "a < length (pollers (base (lk s))) \<Longrightarrow> guards (lk s) a = relay_target (lk s) a \<Longrightarrow>
     poller_free dshard s (pollers (base (lk s)) ! a) \<Longrightarrow>
     poller_step env (pollers (base (lk s)) ! a) (gw (base (lk s))) (chans (base (lk s))) = Some (p', g', chans') \<Longrightarrow>
     b = (base (lk s))\<lparr>pollers := (pollers (base (lk s)))[a := p'], gw := g', chans := chans'\<rparr> \<Longrightarrow>
     t = s\<lparr>lk := (lk s)\<lparr>base := b, guards := (guards (lk s))(a := None)\<rparr>\<rparr> \<Longrightarrow>
     entry_step dshard shard E s t"

definition entry_init :: "entry_gateway \<Rightarrow> bool" where
  "entry_init s \<longleftrightarrow> (\<exists>p interval_ms. s = entry_gateway_new p interval_ms)"

abbreviation entry_reachable ::
  "(CanisterPrincipal \<Rightarrow> nat) \<Rightarrow> (ClientKey \<Rightarrow> nat) \<Rightarrow> ('e session_env \<Rightarrow> bool) \<Rightarrow> entry_gateway \<Rightarrow> bool" where
  "entry_reachable dshard shard E \<equiv> reach entry_init (entry_step dshard shard E)"

section \<open>These steps refine those without the entries\<close>

lemma entry_step_locked:
  assumes "entry_step dshard shard E s t"
  shows "lk t = lk s \<or> locked_step shard E (lk s) (lk t)"
  using assms
proof cases
  case (e_canister_event i h env v ch' d h' g' b)
  then have "locked_step shard E (lk s) ((lk s)\<lparr>base := b\<rparr>)"
    by (intro l_canister_event [where i = i and h = h and env = env]) simp_all
  with e_canister_event show ?thesis by simp
qed (auto intro: locked_step.intros)

text \<open>A handler that holds an entry has a decision to carry out on it; a shard has one holder.\<close>

definition held_ok :: "(CanisterPrincipal \<Rightarrow> nat) \<Rightarrow> entry_gateway \<Rightarrow> bool" where
  "held_ok dshard s \<longleftrightarrow>
     (\<forall>i c. held s i = Some c \<longrightarrow> (\<exists>d. decided (lk s) i = Some d \<and> takes_entry d = Some c)) \<and>
     (\<forall>i j c c'. held s i = Some c \<longrightarrow> held s j = Some c' \<longrightarrow> dshard c = dshard c' \<longrightarrow> i = j)"

lemma held_okD:
  assumes "held_ok dshard s" and "held s i = Some c"
  shows "\<exists>d. decided (lk s) i = Some d \<and> takes_entry d = Some c"
    and "held s j = Some c' \<Longrightarrow> dshard c' = dshard c \<Longrightarrow> j = i"
  using assms unfolding held_ok_def by metis+

definition refines_locked :: "(CanisterPrincipal \<Rightarrow> nat) \<Rightarrow> (ClientKey \<Rightarrow> nat) \<Rightarrow> ('e session_env \<Rightarrow> bool) \<Rightarrow> entry_gateway \<Rightarrow> bool" where
  "refines_locked dshard shard E s \<longleftrightarrow> held_ok dshard s \<and> locked_reachable shard E (lk s)"

lemma held_ok_step:
  assumes ok: "held_ok dshard s" and go: "entry_step dshard shard E s t"
  shows "held_ok dshard t"
  using go
proof cases
  case (e_decide i h env d u)
  then have "held s i = None" using held_okD(1) [OF ok, of i] by (metis not_None_eq)
  with e_decide ok show ?thesis by (auto simp: held_ok_def)
next
  case (e_hold i d c)
  then have "\<exists>d. decided (lk t) j = Some d \<and> takes_entry d = Some c'" if "held t j = Some c'" for j c'
    using that held_okD(1) [OF ok, of j c'] by (auto simp del: split_paired_Ex split: if_splits)
  moreover have "j = j'" if "held t j = Some c1" "held t j' = Some c2" "dshard c1 = dshard c2" for j j' c1 c2
    using that e_hold(4,5) held_okD(2) [OF ok] unfolding entry_free_def
    by (metis fun_upd_apply option.inject select_convs(2) surjective update_convs(2))
  ultimately show ?thesis unfolding held_ok_def by blast
next
  case (e_commit i h d h' g')
  with ok show ?thesis unfolding held_ok_def by (auto split: if_splits)
qed (use ok in \<open>auto simp: held_ok_def\<close>)

interpretation entries: inductive_invariant entry_init "entry_step dshard shard E" "refines_locked dshard shard E"
  for dshard shard E
proof unfold_locales
  show "refines_locked dshard shard E s" if "entry_init s" for s
    using that
    by (fastforce simp: entry_init_def entry_gateway_new_def refines_locked_def held_ok_def locked_init_def
        intro: reach_init)
  show "refines_locked dshard shard E t" if "refines_locked dshard shard E s" "entry_step dshard shard E s t" for s t
    using that held_ok_step [OF _ that(2)] entry_step_locked [OF that(2)]
    by (auto simp: refines_locked_def intro: reach_step)
qed

end
