(* ===== verification/Gateway_Entries_Props.thy ===== *)
theory Gateway_Entries_Props
  imports Gateway_Entries
begin

text \<open>
  What the locks of the map of canisters add: no behaviour, but the deadlock of one poller and one
  session stops tasks that have nothing to do with either.
\<close>

text \<open>
  Taking the entries of the canisters, and holding one while waiting for a client's shard, changes
  nothing the gateway can do either. Every step leaves the system without locks as it is or is one of
  its steps, and every state it reaches is reachable there; so what is proved of every reachable state
  of the gateway holds with all locks of its maps.
\<close>

theorem entry_runs_refine:
  assumes "entry_reachable dshard shard E s" and "entry_step dshard shard E s t"
  shows "reachable E (base (lk s)) \<and>
         (base (lk t) = base (lk s) \<or> gateway_step E (base (lk s)) (base (lk t)))"
proof -
  have ok: "decided_ok E (lk s)" "reachable E (base (lk s))"
    using entries.inv_reach [OF assms(1)] locked.inv_reach unfolding refines_locked_def refines_base_def
    by blast+
  with locked_step_base [OF ok(1)] entry_step_locked [OF assms(2)] show ?thesis by fastforce
qed

section \<open>What others cannot do while an entry is held\<close>

text \<open>What a task other than the holder leaves alone.\<close>

lemma registry_insert_other:
  "gateway_wf g \<Longrightarrow> c' \<noteq> c \<Longrightarrow>
     registry_of (snd (insert_client_channel_and_get_new_poller_state c k tx g)) c' = registry_of g c'"
  by (simp add: refine_insert(1) spec_insert_def)

lemma registry_remove_other:
  "gateway_wf g \<Longrightarrow> c' \<noteq> c \<Longrightarrow> registry_of (snd (remove_client_if_exists c k g)) c' = registry_of g c'"
  using gateway.snd_rem_if_exists [of g c k] by (simp add: spec_remove_if_exists_def split: option.split)

lemma registry_commit_other:
  assumes "handler_commit d h g = (h', g')" and "gateway_wf g" and "takes_entry d \<noteq> Some c'"
  shows "registry_of g' c' = registry_of g c'"
  using handler_commit_state [OF assms(1)] assms(2,3) registry_insert_other registry_remove_other
  unfolding takes_entry_def by (metis option.distinct(1))

lemma registry_gauge [simp]: "registry_of (set_clients_gauge c n g) = registry_of g"
  by (rule ext) (simp add: registry_of_def)

text \<open>A poller removes its own canister, when it checks or has failed.\<close>

definition removes_canister :: "poller_task \<Rightarrow> bool" where
  "removes_canister p \<longleftrightarrow> (case pc p of PollerChecking \<Rightarrow> True | PollerFailed e \<Rightarrow> True | _ \<Rightarrow> False)"

lemma poller_free_iff:
  "poller_free dshard s p \<longleftrightarrow> (removes_canister p \<longrightarrow> entry_free dshard s (poller_canister_id (poller p)))"
  by (auto simp: poller_free_def removes_canister_def split: poller_pc.splits)

lemma registry_poller_other:
  assumes "poller_step env p g chs = Some (p', g', chs')"
    and "removes_canister p \<Longrightarrow> poller_canister_id (poller p) \<noteq> c'"
  shows "registry_of g' c' = registry_of g c'"
proof -
  let ?c = "poller_canister_id (poller p)"
  have "g' = g \<or> (\<exists>n. g' = set_clients_gauge ?c n g) \<or>
      removes_canister p \<and> (g' = snd (remove_canister_if_empty ?c g) \<or> g' = snd (remove_failed_canister ?c g))"
    using assms(1)
    by (auto simp: poller_step_def Let_def poller_should_terminate_def removes_canister_def
        split: poller_pc.splits list.splits option.splits prod.splits bool.splits outcome.splits
          CanisterRemovalResult.splits)
  moreover have "registry_of (snd (remove_canister_if_empty ?c g)) c' = registry_of g c'" if "?c \<noteq> c'"
    using that by (auto simp: remove_canister_if_empty_def registry_of_drop split: option.split)
  moreover have "registry_of (snd (remove_failed_canister ?c g)) c' = registry_of g c'" if "?c \<noteq> c'"
    using that by (auto simp: remove_failed_canister_def registry_of_drop split: option.split)
  ultimately show ?thesis using assms(2) by auto
qed

text \<open>
  What has come to a stop between two states: no poller was started; the canisters of the shard have
  the clients they had; their pollers that were to check whether to end, or to remove a canister they
  failed to poll, still are; and so are the handlers that were to start a poller, of any canister.
\<close>

definition shard_stuck :: "(CanisterPrincipal \<Rightarrow> nat) \<Rightarrow> CanisterPrincipal \<Rightarrow> ws_gateway \<Rightarrow> ws_gateway \<Rightarrow> bool" where
  "shard_stuck dshard c s t \<longleftrightarrow>
     length (pollers t) = length (pollers s) \<and>
     (\<forall>c'. dshard c' = dshard c \<longrightarrow> registry_of (gw t) c' = registry_of (gw s) c') \<and>
     (\<forall>b < length (pollers s).
        removes_canister (pollers s ! b) \<longrightarrow>
        dshard (poller_canister_id (poller (pollers s ! b))) = dshard c \<longrightarrow>
        pollers t ! b = pollers s ! b) \<and>
     (\<forall>j h r. handlers s j = Some h \<longrightarrow> handler_pc h = HandlerStartPoller r \<longrightarrow> handlers t j = Some h)"

lemma shard_stuck_refl: "shard_stuck dshard c s s"
  by (simp add: shard_stuck_def)

lemma shard_stuck_trans: "shard_stuck dshard c s t \<Longrightarrow> shard_stuck dshard c t u \<Longrightarrow> shard_stuck dshard c s u"
  unfolding shard_stuck_def by metis

lemma held_not_free: "held s i = Some c \<Longrightarrow> dshard c' = dshard c \<Longrightarrow> \<not> entry_free dshard s c'"
  unfolding entry_free_def by metis

lemma held_stops_others:
  assumes inv: "gateway_inv (base (lk s))" and ok: "decided_ok E (lk s)" "held_ok dshard s"
    and held: "held s i = Some c" "held t i = Some c" and go: "entry_step dshard shard E s t"
  shows "shard_stuck dshard c (base (lk s)) (base (lk t))"
proof -
  have wf: "gateway_wf (gw (base (lk s)))" using inv by (simp add: gateway_inv_def)
  note busy = held_not_free [where dshard = dshard, OF held(1)]
  from go show ?thesis
  proof cases
    case (e_connect j env h accepted b)
    then show ?thesis by (auto simp: shard_stuck_def)
  next
    case (e_commit j h d h' g')
    then have ji: "j \<noteq> i" using held(2) by auto
    have "takes_entry d \<noteq> Some c'" if "dshard c' = dshard c" for c'
      using e_commit(3) held_okD(2) [OF ok(2) held(1), of j c'] ji that by metis
    then have "registry_of g' c' = registry_of (gw (base (lk s))) c'" if "dshard c' = dshard c" for c'
      using registry_commit_other [OF e_commit(5) wf] that by blast
    moreover have "handler_pc h = HandlerUpdate" using decided_okD [OF ok(1) e_commit(2,1)] by simp
    ultimately show ?thesis using e_commit(1,6) by (simp add: shard_stuck_def)
  next
    case (e_canister_event j h env v ch' d h' g' b)
    have "takes_entry d \<noteq> Some c'" if "dshard c' = dshard c" for c'
      using e_canister_event(7) busy [OF that] by blast
    then have "registry_of g' c' = registry_of (gw (base (lk s))) c'" if "dshard c' = dshard c" for c'
      using registry_commit_other [OF e_canister_event(9) wf] that by blast
    then show ?thesis using e_canister_event(1,2,10,11) by (simp add: shard_stuck_def)
  next
    case (e_handler_goes_on j h env h' g' spawned b)
    have "\<not> all_entries_free s" using held(1) unfolding all_entries_free_def by auto
    then have pc: "handler_pc h \<noteq> HandlerStartPoller r" for r
      using e_handler_goes_on(3) by (auto simp: continue_free_def)
    from gateway_inv_handler [OF inv e_handler_goes_on(1)] e_handler_goes_on(5)
    have "spawned = None \<and> (\<forall>c'. dshard c' = dshard c \<longrightarrow>
        registry_of g' c' = registry_of (gw (base (lk s))) c')"
    proof (cases rule: handler_continue_cases)
      case (relay_failed x c1 k m new r)
      then have "entry_free dshard s c1" using e_handler_goes_on(3) by (auto simp: continue_free_def)
      then have "c' \<noteq> c1" if "dshard c' = dshard c" for c' using busy that by blast
      then show ?thesis using relay_failed(2,4) registry_remove_other [OF wf] by blast
    qed (use pc in auto)
    with pc e_handler_goes_on(1,6,7) show ?thesis
      by (auto simp: shard_stuck_def put_spawned_def)
  next
    case (e_poller_goes_on a env p' g' chs' b)
    let ?p = "pollers (base (lk s)) ! a"
    have free: "removes_canister ?p \<longrightarrow> dshard (poller_canister_id (poller ?p)) \<noteq> dshard c"
      using e_poller_goes_on(3) busy unfolding poller_free_iff by blast
    then have "registry_of g' c' = registry_of (gw (base (lk s))) c'" if "dshard c' = dshard c" for c'
      using registry_poller_other [OF e_poller_goes_on(4)] that by metis
    then show ?thesis
      using e_poller_goes_on(1,5,6) free by (auto simp: shard_stuck_def nth_list_update split: if_splits)
  qed (simp_all add: shard_stuck_def)
qed

text \<open>A handler keeps its entry until it has carried out its decision.\<close>

lemma held_kept:
  assumes "entry_step dshard shard E s t" and "held s i = Some c" and "decided (lk t) i \<noteq> None"
  shows "held t i = Some c"
  using assms by cases auto

section \<open>The deadlock spreads\<close>

lemma deadlock_spreads_run:
  assumes reach: "entry_reachable dshard shard E s" and dl: "deadlocked shard a k i (lk s)"
    and held: "held s i = Some c"
  shows "(entry_step dshard shard E)\<^sup>*\<^sup>* s t \<Longrightarrow>
           entry_reachable dshard shard E t \<and> deadlocked shard a k i (lk t) \<and>
           decided (lk t) i \<noteq> None \<and> held t i = Some c \<and> shard_stuck dshard c (base (lk s)) (base (lk t))"
proof (induction rule: rtranclp_induct)
  case base
  with assms show ?case
    by (auto simp: deadlocked_def waits_for_lock_def shard_stuck_refl simp del: split_paired_Ex)
next
  case (step t u)
  have refl: "refines_locked dshard shard E t" using step.IH entries.inv_reach by blast
  then have ok: "held_ok dshard t" "decided_ok E (lk t)" "gateway_inv (base (lk t))"
    using locked.inv_reach reachable_inv unfolding refines_locked_def refines_base_def by blast+
  have "deadlocked shard a k i (lk u) \<and> decided (lk u) i = decided (lk t) i"
    using entry_step_locked [OF step.hyps(2)] deadlocked_step [OF ok(3,2), of shard a k i "lk u"] step.IH
    by (auto simp: same_wait_def)
  moreover from this step.IH have held_u: "held u i = Some c" using held_kept [OF step.hyps(2)] by simp
  moreover have "shard_stuck dshard c (base (lk t)) (base (lk u))"
    using held_stops_others [OF ok(3,2,1) _ held_u step.hyps(2)] step.IH by blast
  moreover have "entry_reachable dshard shard E u" using step.IH step.hyps(2) by (blast intro: reach_step)
  ultimately show ?case using step.IH shard_stuck_trans by metis
qed

text \<open>
  C10: the deadlock of a poller and a leaving session stops the gateway further. The handler that waits
  for its client's shard keeps the entry of its canister meanwhile, and with it the shard of the map of
  canisters. From then on no client is registered with or removed from any canister of that shard, no
  poller of such a canister gets past its next check for clients, and no poller of any canister is ever
  started again, since starting one counts the active pollers, which reads all shards.
\<close>

theorem deadlock_spreads:
  assumes "entry_reachable dshard shard E s"
    and "waits_for_room (lk s) a k i"
    and "decided (lk s) i = Some d" and "client_key (snd d) = Some k'" and "shard k' = shard k"
    and "held s i = Some c"
    and "dm_get (data (gw (base (lk s)))) c = Some (poller_state (poller (pollers (base (lk s)) ! a)))"
    and "(entry_step dshard shard E)\<^sup>*\<^sup>* s t"
  shows "held t i = Some c \<and> shard_stuck dshard c (base (lk s)) (base (lk t))"
proof -
  have "held_ok dshard s" using entries.inv_reach [OF assms(1)] by (simp add: refines_locked_def)
  from held_okD(1) [OF this assms(6)] assms(3) have "takes_entry d = Some c" by auto
  then have "writes_entry (fst d)" "canister_id (snd d) = Some c"
    by (auto simp: takes_entry_def split: if_splits)
  with assms(3,4,5,7) have "waits_for_lock shard (lk s) a k i" unfolding waits_for_lock_def by blast
  with assms(2) have "deadlocked shard a k i (lk s)" by (simp add: deadlocked_def)
  from deadlock_spreads_run [OF assms(1) this assms(6,8)] show ?thesis by simp
qed

section \<open>Only a full channel stops the locks\<close>

text \<open>
  No poller holds a guard to send into a full channel. Then a handler that holds what entry it needs
  carries out its decision, or waits for a guard whose poller can send and so give it back.
\<close>

definition guards_have_room :: "locked_gateway \<Rightarrow> bool" where
  "guards_have_room u \<longleftrightarrow>
     (\<forall>a k cs. guards u a = Some k \<longrightarrow> dm_get (arcs (gw (base u)) (guarded_arc u a)) k = Some cs \<longrightarrow>
        \<not> full (chans (base u) (sender cs)))"

lemma entry_reachableD:
  assumes "entry_reachable dshard shard E s"
  shows "gateway_inv (base (lk s))" "decided_ok E (lk s)" "guards_ok (lk s)" "held_ok dshard s"
  using entries.inv_reach [OF assms] guarding.inv_reach reachable_inv
  unfolding refines_locked_def refines_base_def by blast+

text \<open>A guard is held on the entry of a session of the canister that the holder polls.\<close>

lemma guard_entry:
  assumes inv: "gateway_inv (base u)" and guard: "guarded u a k"
  obtains cs h where "dm_get (arcs (gw (base u)) (guarded_arc u a)) k = Some cs"
    "dm_get (data (gw (base u))) (poller_canister_id (poller (pollers (base u) ! a))) = Some (guarded_arc u a)"
    "handlers (base u) (sender cs) = Some h"
    "canister_id (client_session h) = Some (poller_canister_id (poller (pollers (base u) ! a)))"
proof -
  have own: "owners_ok (base u)" and ent: "entries_ok (base u)" using inv by (simp_all add: gateway_inv_def)
  have "a < length (pollers (base u))" using guard by (simp add: guarded_def)
  note data = owners_okD(1) [OF own running_owner [OF this guarded_running [OF guard]]]
  from guard obtain cs where cs: "dm_get (arcs (gw (base u)) (guarded_arc u a)) k = Some cs" by (rule guarded_pc)
  from entries_okD [OF ent data cs] data cs show thesis by (auto simp: serves_def intro: that)
qed

text \<open>Guards of two pollers are on different poller states, and protect different channels.\<close>

lemma guards_apart:
  assumes inv: "gateway_inv (base u)" and a: "guarded u a k" and b: "guarded u b k'"
  shows "guarded_arc u a = guarded_arc u b \<Longrightarrow> a = b"
    and "dm_get (arcs (gw (base u)) (guarded_arc u a)) k = Some cs \<Longrightarrow>
         dm_get (arcs (gw (base u)) (guarded_arc u b)) k' = Some cs' \<Longrightarrow> sender cs = sender cs' \<Longrightarrow> a = b"
proof -
  have own: "owners_ok (base u)" using inv by (simp add: gateway_inv_def)
  have "a < length (pollers (base u))" "b < length (pollers (base u))" using a b by (simp_all add: guarded_def)
  note o = running_owner [OF this(1) guarded_running [OF a]] running_owner [OF this(2) guarded_running [OF b]]
  show same: "guarded_arc u a = guarded_arc u b \<Longrightarrow> a = b" using owners_okD(2) [OF own o(1), of "Inl b"] o(2) by simp
  assume cs: "dm_get (arcs (gw (base u)) (guarded_arc u a)) k = Some cs"
    "dm_get (arcs (gw (base u)) (guarded_arc u b)) k' = Some cs'" "sender cs = sender cs'"
  from guard_entry [OF inv a] guard_entry [OF inv b] cs
  have "poller_canister_id (poller (pollers (base u) ! a)) = poller_canister_id (poller (pollers (base u) ! b))"
    by (metis option.inject)
  with owners_okD(1) [OF own o(1)] owners_okD(1) [OF own o(2)] same show "a = b" by simp
qed

lemma relay_output_other:
  "relay_output_message clients crt tr m chs = Some chs' \<Longrightarrow>
     (\<And>cs. dm_get clients (out_client_key m) = Some cs \<Longrightarrow> sender cs \<noteq> i) \<Longrightarrow> chs' i = chs i"
  by (auto simp: relay_output_message_def relay_message_def split: option.splits prod.splits)

text \<open>A poller that holds a guard with room gives it back, and takes no room from the others.\<close>

lemma guard_released:
  assumes reach: "entry_reachable dshard shard E s" and room: "guards_have_room (lk s)"
    and a: "guards (lk s) a = Some k"
  shows "\<exists>t. entry_step dshard shard E s t \<and> guards_have_room (lk t) \<and>
           guards (lk t) = (guards (lk s))(a := None) \<and> decided (lk t) = decided (lk s) \<and> held t = held s \<and>
           gw (base (lk t)) = gw (base (lk s)) \<and>
           length (pollers (base (lk t))) = length (pollers (base (lk s))) \<and>
           (\<forall>b. guarded_arc (lk t) b = guarded_arc (lk s) b)"
proof -
  note ok = entry_reachableD [OF reach]
  let ?u = "lk s"
  have guard: "guarded ?u a k" using ok(3) a by (simp add: guards_ok_def)
  then obtain m ms crt tr eoq cs
    where pc: "pc (pollers (base ?u) ! a) = PollerRelaying (m # ms) crt tr eoq" "out_client_key m = k"
      and cs: "dm_get (arcs (gw (base ?u)) (guarded_arc ?u a)) k = Some cs" by (rule guarded_pc)
  have len: "a < length (pollers (base ?u))" using guard by (simp add: guarded_def)
  from guarded_stuck_iff [OF guard cs] room a cs obtain p' g' chs' env
    where go: "poller_step env (pollers (base ?u) ! a) (gw (base ?u)) (chans (base ?u)) = Some (p', g', chs')"
    unfolding guards_have_room_def by fastforce
  from go pc have relay: "relay_output_message (arcs (gw (base ?u)) (guarded_arc ?u a)) crt tr m (chans (base ?u)) = Some chs'"
    and p': "p' = (pollers (base ?u) ! a)\<lparr>pc := PollerRelaying ms crt tr eoq\<rparr>" and g': "g' = gw (base ?u)"
    by (auto simp: poller_step_def Let_def split: option.splits)
  let ?b = "(base ?u)\<lparr>pollers := (pollers (base ?u))[a := p'], gw := g', chans := chs'\<rparr>"
  let ?t = "s\<lparr>lk := ?u\<lparr>base := ?b, guards := (guards ?u)(a := None)\<rparr>\<rparr>"
  have "guards ?u a = relay_target ?u a" using guard by (simp add: guarded_def)
  moreover have "poller_free dshard s (pollers (base ?u) ! a)" by (simp add: poller_free_def pc(1))
  ultimately have step: "entry_step dshard shard E s ?t"
    using e_poller_goes_on [OF len _ _ go refl refl] by blast
  have arc: "guarded_arc (lk ?t) b = guarded_arc ?u b" for b
    using p' len by (cases "b = a") (simp_all add: nth_list_update)
  have "\<not> full (chs' (sender cs'))"
    if b: "guards ?u b = Some kb" "b \<noteq> a" and e: "dm_get (arcs (gw (base ?u)) (guarded_arc ?u b)) kb = Some cs'"
    for b kb cs'
  proof -
    have gb: "guarded ?u b kb" using ok(3) b(1) by (simp add: guards_ok_def)
    have "sender cs \<noteq> sender cs'" using guards_apart(2) [OF ok(1) guard gb cs e] b(2) by auto
    then have "chs' (sender cs') = chans (base ?u) (sender cs')"
      by (intro relay_output_other [OF relay]) (simp add: cs pc(2))
    with room b(1) e show ?thesis unfolding guards_have_room_def by metis
  qed
  then have "guards_have_room (lk ?t)"
    unfolding guards_have_room_def arc by (auto simp: g' split: if_splits)
  with step arc g' show ?thesis by (intro exI [of _ ?t]) simp
qed

text \<open>A handler that need not wait carries out its decision, and no guard loses its room.\<close>

lemma decision_committed:
  assumes reach: "entry_reachable dshard shard E s" and room: "guards_have_room (lk s)"
    and d: "decided (lk s) i = Some d" and held: "held s i = takes_entry d" and free: "\<not> must_wait shard (lk s) d"
  shows "\<exists>t. entry_step dshard shard E s t \<and> guards_have_room (lk t) \<and>
           decided (lk t) = (decided (lk s))(i := None) \<and> held t = (held s)(i := None)"
proof -
  note ok = entry_reachableD [OF reach]
  let ?u = "lk s"
  from ok(2) d decision_of_None obtain h where h: "handlers (base ?u) i = Some h"
    unfolding decided_ok_def by (metis not_None_eq)
  obtain h' g' where commit: "handler_commit d h (gw (base ?u)) = (h', g')" by fastforce
  let ?b = "put_handler i h' ((base ?u)\<lparr>gw := g'\<rparr>)"
  let ?t = "s\<lparr>lk := ?u\<lparr>base := ?b, decided := (decided ?u)(i := None)\<rparr>, held := (held s)(i := None)\<rparr>"
  have "entry_step dshard shard E s ?t" by (rule e_commit [OF h d held [symmetric] free commit refl])
  moreover have "\<not> full (chans ?b (sender cs))"
    if a: "guards ?u a = Some k" and cs: "dm_get (arcs g' (guarded_arc ?u a)) k = Some cs" for a k cs
  proof -
    have guard: "guarded ?u a k" using ok(3) a by (simp add: guards_ok_def)
    from guard_entry [OF ok(1) guard]
    have "dm_get (data (gw (base ?u))) (poller_canister_id (poller (pollers (base ?u) ! a))) = Some (guarded_arc ?u a)"
      by blast
    then have "guarded_arc ?u a \<noteq> next_arc (gw (base ?u))"
      using ok(1) gateway_wf_less unfolding gateway_inv_def by fastforce
    from commit_keeps_entry [OF guard commit free this] cs room a
    have "\<not> full (chans (base ?u) (sender cs))" unfolding guards_have_room_def by metis
    then show ?thesis by (auto simp: full_def put_handler_def)
  qed
  then have "guards_have_room (lk ?t)" by (simp add: guards_have_room_def)
  ultimately show ?thesis by (intro exI [of _ ?t]) simp
qed

lemma decision_soon_committed:
  assumes reach: "entry_reachable dshard shard E s" and room: "guards_have_room (lk s)"
    and d: "decided (lk s) i = Some d" and held: "held s i = takes_entry d"
  shows "\<exists>t. (entry_step dshard shard E)\<^sup>*\<^sup>* s t \<and> guards_have_room (lk t) \<and>
           decided (lk t) = (decided (lk s))(i := None) \<and> held t = (held s)(i := None)"
proof (cases "must_wait shard (lk s) d")
  case False
  from decision_committed [OF reach room d held this] show ?thesis by blast
next
  case True
  note ok = entry_reachableD [OF reach]
  from True obtain c k r a k' where c: "canister_id (snd d) = Some c" "client_key (snd d) = Some k"
    and r: "dm_get (data (gw (base (lk s)))) c = Some r"
    and a: "a < length (pollers (base (lk s)))" "guarded_arc (lk s) a = r" "guards (lk s) a = Some k'"
    by (auto simp: must_wait_def entry_locked_def read_locked_def split: option.splits)
  have only: "b = a" if "guards (lk s) b = Some kb" "guarded_arc (lk s) b = r" for b kb
    using guards_apart(1) [OF ok(1), of b kb a k'] ok(3) that a(2,3) by (simp add: guards_ok_def)
  from guard_released [OF reach room a(3)] obtain t
    where t: "entry_step dshard shard E s t" "guards_have_room (lk t)" "guards (lk t) = (guards (lk s))(a := None)"
      "decided (lk t) = decided (lk s)" "held t = held s" "gw (base (lk t)) = gw (base (lk s))"
      "\<forall>b. guarded_arc (lk t) b = guarded_arc (lk s) b" by blast
  have "\<not> must_wait shard (lk t) d"
    using c r t(3,6,7) only by (auto simp: must_wait_def entry_locked_def read_locked_def split: option.splits if_splits)
  from decision_committed [OF reach_step [OF reach t(1)] t(2) _ _ this, of i] t(4,5) d held
  obtain u where "entry_step dshard shard E t u" "guards_have_room (lk u)"
    "decided (lk u) = (decided (lk s))(i := None)" "held u = (held s)(i := None)" by auto
  with t(1) show ?thesis by (meson converse_rtranclp_into_rtranclp r_into_rtranclp)
qed

text \<open>The one that holds an entry of a shard, if any, carries out its decision and gives it back.\<close>

lemma entry_soon_free:
  assumes reach: "entry_reachable dshard shard E s" and room: "guards_have_room (lk s)"
  shows "\<exists>t. (entry_step dshard shard E)\<^sup>*\<^sup>* s t \<and> guards_have_room (lk t) \<and> entry_free dshard t c \<and>
           (\<forall>i. held s i = None \<longrightarrow> decided (lk t) i = decided (lk s) i \<and> held t i = None)"
proof (cases "entry_free dshard s c")
  case True
  with room show ?thesis by blast
next
  case False
  note ok = entry_reachableD(4) [OF reach]
  from False obtain j c' where j: "held s j = Some c'" "dshard c' = dshard c" by (auto simp: entry_free_def)
  from held_okD(1) [OF ok j(1)] j(1) obtain d where d: "decided (lk s) j = Some d" "held s j = takes_entry d" by auto
  from decision_soon_committed [OF reach room d] obtain t where t: "(entry_step dshard shard E)\<^sup>*\<^sup>* s t"
    "guards_have_room (lk t)" "decided (lk t) = (decided (lk s))(j := None)" "held t = (held s)(j := None)" by blast
  have "entry_free dshard t c"
    using held_okD(2) [OF ok j(1)] j(2) unfolding entry_free_def t(4) by (metis fun_upd_apply option.distinct(1))
  with t j(1) show ?thesis by (intro exI [of _ t]) auto
qed

text \<open>
  C11: nothing but a full channel can make the locks of the maps deadlock. From every reachable state in
  which no poller holds a guard to send into a full channel, the gateway can go on so that a given
  session carries out what it has decided, and so that the entry of a given canister, which a handler
  or a poller may wait for, is free: whoever holds what they wait for can finish first.
\<close>

theorem locks_go_on_with_room:
  assumes "entry_reachable dshard shard E s"
    and "guards_have_room (lk s)"
  shows "(\<exists>t. (entry_step dshard shard E)\<^sup>*\<^sup>* s t \<and> decided (lk t) i = None) \<and>
         (\<exists>t. (entry_step dshard shard E)\<^sup>*\<^sup>* s t \<and> entry_free dshard t c)"
proof
  show "\<exists>t. (entry_step dshard shard E)\<^sup>*\<^sup>* s t \<and> entry_free dshard t c"
    using entry_soon_free [OF assms] by blast
  show "\<exists>t. (entry_step dshard shard E)\<^sup>*\<^sup>* s t \<and> decided (lk t) i = None"
  proof (cases "decided (lk s) i")
    case (Some d)
    note soon = decision_soon_committed [where i = i and d = d]
    show ?thesis
    proof (cases "held s i = takes_entry d")
      case True
      from soon [OF assms Some this] show ?thesis by (metis fun_upd_same)
    next
      case False
      with held_okD(1) [OF entry_reachableD(4) [OF assms(1)], of i] Some have none: "held s i = None"
        by (cases "held s i") auto
      with False obtain c' where c': "takes_entry d = Some c'" by (cases "takes_entry d") simp_all
      from entry_soon_free [OF assms, of c'] none Some obtain t where t: "(entry_step dshard shard E)\<^sup>*\<^sup>* s t"
        "guards_have_room (lk t)" "entry_free dshard t c'" "decided (lk t) i = Some d" "held t i = None" by metis
      let ?t = "t\<lparr>held := (held t)(i \<mapsto> c')\<rparr>"
      have step: "entry_step dshard shard E t ?t" by (rule e_hold [OF t(4) c' t(5,3) refl])
      have "entry_reachable dshard shard E ?t" using reach_rtranclp [OF t(1) assms(1)] step by (rule reach_step)
      from soon [OF this] t(2,4) c' obtain u
        where u: "(entry_step dshard shard E)\<^sup>*\<^sup>* ?t u" "decided (lk u) i = None" by auto
      from rtranclp_trans [OF rtranclp.rtrancl_into_rtrancl [OF t(1) step] u(1)] u(2) show ?thesis by blast
    qed
  qed blast
qed

section \<open>A run into it\<close>

text \<open>Without an entry held nobody waits for one, so every run of the system below is possible here.\<close>

definition no_entries :: "locked_gateway \<Rightarrow> entry_gateway" where
  "no_entries u = \<lparr>lk = u, held = (\<lambda>_. None)\<rparr>"

lemma no_entries_sel [simp]: "lk (no_entries u) = u" "held (no_entries u) i = None"
  by (simp_all add: no_entries_def)

lemma no_entries_free [simp]:
  "entry_free dshard (no_entries u) c" "continue_free dshard (no_entries u) env h"
  "poller_free dshard (no_entries u) p"
  by (auto simp: entry_free_def all_entries_free_def continue_free_def poller_free_def
      split: handler_pc.split outcome.split poller_pc.split)

lemma no_entries_upd: "t = (no_entries u)\<lparr>lk := v\<rparr> \<longleftrightarrow> t = no_entries v"
  by (simp add: no_entries_def)

lemma entry_step_commit:
  assumes "handlers (base u) i = Some h" and "decided u i = Some d" and "\<not> must_wait shard u d"
    and "handler_commit d h (gw (base u)) = (h', g')"
    and v: "v = u\<lparr>base := put_handler i h' ((base u)\<lparr>gw := g'\<rparr>), decided := (decided u)(i := None)\<rparr>"
  shows "(entry_step dshard shard E)\<^sup>*\<^sup>* (no_entries u) (no_entries v)"
proof -
  let ?s = "(no_entries u)\<lparr>held := (held (no_entries u))(i := takes_entry d)\<rparr>"
  have "(entry_step dshard shard E)\<^sup>*\<^sup>* (no_entries u) ?s"
  proof (cases "takes_entry d")
    case None
    then have "?s = no_entries u" by (simp add: no_entries_def fun_eq_iff)
    then show ?thesis by simp
  next
    case (Some c)
    then have "entry_step dshard shard E (no_entries u) ?s"
      using assms(2) by (intro e_hold [where i = i and d = d and c = c]) simp_all
    then show ?thesis by (rule r_into_rtranclp)
  qed
  moreover have "entry_step dshard shard E ?s (no_entries v)"
    using assms by (intro e_commit [where i = i and h = h and d = d]) (simp_all add: no_entries_def fun_eq_iff)
  ultimately show ?thesis by (rule rtranclp.rtrancl_into_rtrancl)
qed

lemma locked_step_entry:
  assumes "locked_step shard E u v"
  shows "(entry_step dshard shard E)\<^sup>*\<^sup>* (no_entries u) (no_entries v)"
  using assms
proof cases
  case (l_commit i h d h' g')
  then show ?thesis by (intro entry_step_commit [where i = i and h = h and d = d]) simp_all
next
  case (l_connect i env h accepted)
  then show ?thesis
    by (intro r_into_rtranclp e_connect [where i = i and env = env and accepted = accepted])
      (simp_all add: no_entries_upd)
next
  case (l_decide i h env w)
  then show ?thesis
    by (intro r_into_rtranclp e_decide [where i = i and h = h and env = env and u = w])
      (simp_all add: no_entries_upd)
next
  case (l_canister_event i h env w ch' d h' g')
  then show ?thesis
    by (intro r_into_rtranclp e_canister_event [where i = i and h = h and env = env and v = w])
      (simp_all add: no_entries_upd)
next
  case (l_handler_goes_on i h env h' g' spawned)
  then show ?thesis
    by (intro r_into_rtranclp e_handler_goes_on [where i = i and h = h and env = env])
      (simp_all add: no_entries_upd)
next
  case (l_guard a k)
  then show ?thesis
    by (intro r_into_rtranclp e_guard [where a = a and k = k]) (simp_all add: no_entries_upd)
next
  case (l_poller_goes_on a env p' g' chs')
  then show ?thesis
    by (intro r_into_rtranclp e_poller_goes_on [where a = a and env = env]) (simp_all add: no_entries_upd)
qed

lemma locked_reachable_entry: "locked_reachable shard E u \<Longrightarrow> entry_reachable dshard shard E (no_entries u)"
proof (induction rule: reach.induct)
  case (reach_init u)
  then show ?case
    by (intro reach.reach_init) (auto simp: locked_init_def entry_init_def entry_gateway_new_def no_entries_def)
next
  case (reach_step u v)
  with locked_step_entry show ?case by (meson reach_rtranclp)
qed

text \<open>The session that leaves in the run of \<open>Gateway_Locks_Props\<close> takes the entry of its canister.\<close>

definition demo_holding :: "nat \<Rightarrow> entry_gateway" where
  "demo_holding n = (no_entries (demo_leaving n))\<lparr>held := (\<lambda>_. None)(7 \<mapsto> Principal [4])\<rparr>"

abbreviation demo_held :: entry_gateway where
  "demo_held \<equiv> demo_holding 100"

lemma demo_holding_step:
  "entry_step dshard shard (\<lambda>env. env = mock_session_env) (no_entries (demo_leaving n)) (demo_holding n)"
proof -
  obtain s1 where d: "decided (demo_leaving n) 7 = Some (Ok (Some Closed), s1)"
    "canister_id s1 = Some (Principal [4])" "client_key s1 = Some (ClientKey_new (Principal [1]) 9)"
    using demo_leaving_decided by blast
  have "takes_entry (Ok (Some Closed), s1) = Some (Principal [4])"
    by (simp add: takes_entry_def writes_entry_def d)
  with d(1) show ?thesis
    by (intro e_hold [where i = 7 and c = "Principal [4]" and d = "(Ok (Some Closed), s1)"])
      (simp_all add: demo_holding_def fun_eq_iff)
qed

lemma demo_holding_reachable:
  "n \<le> 100 \<Longrightarrow> entry_reachable dshard shard (\<lambda>env. env = mock_session_env) (demo_holding n)"
  using locked_reachable_entry [OF demo_leaving_reachable] demo_holding_step by (rule reach_step)

lemma demo_holding_sel [simp]:
  "lk (demo_holding n) = demo_leaving n" "held (demo_holding n) 7 = Some (Principal [4])"
  by (simp_all add: demo_holding_def)

theorem entry_runs_refine_witness:
  "reachable (\<lambda>env. env = mock_session_env) demo_flooded \<and>
   (base (lk demo_held) = demo_flooded \<or>
    gateway_step (\<lambda>env. env = mock_session_env) demo_flooded (base (lk demo_held)))"
  using entry_runs_refine [OF locked_reachable_entry [OF demo_leaving_reachable [OF order_refl]] demo_holding_step] by simp

text \<open>
  Whatever happens after that run, the handler keeps the entry of its canister, and no client of another
  canister in the same shard can ever be registered.
\<close>

theorem deadlock_spreads_witness:
  "{(held t 7, registry_of (gw (base (lk t))) (Principal [5])) | t.
      (entry_step (\<lambda>_. 0) (\<lambda>_. 0) (\<lambda>env. env = mock_session_env))\<^sup>*\<^sup>* demo_held t} =
   {(Some (Principal [4]), None)}"
proof -
  obtain s1 where d: "decided demo_deadlock 7 = Some (Ok (Some Closed), s1)"
    "client_key s1 = Some (ClientKey_new (Principal [1]) 9)"
    using demo_leaving_decided [of 100] by blast
  have "data (gw demo_flooded) = data (gw demo_open)" using demo_filled_state [of 100] by blast
  then have other: "registry_of (gw demo_flooded) (Principal [5]) = None" by (simp add: demo_open_def run_simps)
  let ?S = "{(held t 7, registry_of (gw (base (lk t))) (Principal [5])) | t.
      (entry_step (\<lambda>_. 0) (\<lambda>_. 0) (\<lambda>env. env = mock_session_env))\<^sup>*\<^sup>* demo_held t}"
  have "held t 7 = Some (Principal [4]) \<and> registry_of (gw (base (lk t))) (Principal [5]) = None"
    if "(entry_step (\<lambda>_. 0) (\<lambda>_. 0) (\<lambda>env. env = mock_session_env))\<^sup>*\<^sup>* demo_held t" for t
    using deadlock_spreads [OF demo_holding_reachable [OF order_refl] _ _ _ _ demo_holding_sel(2) _ that,
        of 0 "ClientKey_new (Principal [1]) 9" "(Ok (Some Closed), s1)" "ClientKey_new (Principal [1]) 9"]
      demo_deadlock_room demo_leaving_guarded(3) [of 100] d other
    by (simp add: shard_stuck_def)
  then have "?S \<subseteq> {(Some (Principal [4]), None)}" by fast
  moreover have "(held demo_held 7, registry_of (gw (base (lk demo_held))) (Principal [5])) \<in> ?S" by blast
  then have "(Some (Principal [4]), None) \<in> ?S" using other by simp
  ultimately show ?thesis by blast
qed

text \<open>With one message fewer in the channel, the session can carry out its decision.\<close>

theorem locks_go_on_with_room_witness:
  "\<exists>t. (entry_step (\<lambda>_. 0) (\<lambda>_. 0) (\<lambda>env. env = mock_session_env))\<^sup>*\<^sup>* (demo_holding 99) t \<and> decided (lk t) 7 = None"
proof -
  have "guards_have_room (lk (demo_holding 99))"
    using demo_leaving_guarded [of 99] by (auto simp: guards_have_room_def demo_leaving_guards split: if_splits)
  from locks_go_on_with_room [OF demo_holding_reachable this] show ?thesis by simp
qed

end
