(* ===== verification/Gateway_Gauges.thy ===== *)
theory Gateway_Gauges
  imports Gateway_Safety
begin

text \<open>
  The gauge of active pollers. The task that starts a poller, and the task of a poller that has ended,
  each count the polled canisters and then set the gauge to what they counted; other tasks can act in
  between. The steps are those of the whole gateway, with the counting and the setting as steps of their
  own. The gauge is a natural number: the program's is a double, exact up to two to the 53. That the
  exporter drops a gauge that was not set for ten seconds is the library's.
\<close>

section \<open>State and steps\<close>

text \<open>What the handlers and the ended pollers that are reporting have counted, and who has reported.\<close>

record gauged_gateway =
  sys :: ws_gateway
  active_pollers :: nat
  counted_start :: "u64 \<Rightarrow> nat option"
  counted_end :: "nat \<Rightarrow> nat option"
  reported :: "nat set"

definition gauged_gateway_new :: "string + Principal \<Rightarrow> u64 \<Rightarrow> gauged_gateway" where
  "gauged_gateway_new p interval_ms =
     \<lparr>sys = ws_gateway_new p interval_ms, active_pollers = 0, counted_start = (\<lambda>_. None),
      counted_end = (\<lambda>_. None), reported = {}\<rparr>"

definition polled :: "gauged_gateway \<Rightarrow> nat" where
  "polled s = get_active_pollers_count (gw (sys s))"

text \<open>The task of a poller goes on after \<open>run_polling\<close> returned, not after it panicked.\<close>

fun returned :: "poller_pc \<Rightarrow> bool" where
  "returned (PollerDone (Panic _)) = False"
| "returned (PollerDone _) = True"
| "returned _ = False"

text \<open>
  The first rule is any step of the gateway that starts no poller; a handler starts its poller with what
  it counted before.
\<close>

inductive gauged_step :: "('e session_env \<Rightarrow> bool) \<Rightarrow> gauged_gateway \<Rightarrow> gauged_gateway \<Rightarrow> bool" for E where
  g_other:
    "gateway_step E (sys s) u \<Longrightarrow> length (pollers u) = length (pollers (sys s)) \<Longrightarrow> t = s\<lparr>sys := u\<rparr> \<Longrightarrow>
     gauged_step E s t"
| g_count_start:
    "handlers (sys s) i = Some h \<Longrightarrow> handler_pc h = HandlerStartPoller r \<Longrightarrow> counted_start s i = None \<Longrightarrow>
     t = s\<lparr>counted_start := (counted_start s)(i \<mapsto> polled s)\<rparr> \<Longrightarrow>
     gauged_step E s t"
| g_start:
    "handlers (sys s) i = Some h \<Longrightarrow> counted_start s i = Some n \<Longrightarrow> E env \<Longrightarrow>
     handler_continue env h (gw (sys s)) = Some (h', g', Some p) \<Longrightarrow>
     u = put_spawned (Some p) (put_handler i h' ((sys s)\<lparr>gw := g'\<rparr>)) \<Longrightarrow>
     t = s\<lparr>sys := u, active_pollers := n, counted_start := (counted_start s)(i := None)\<rparr> \<Longrightarrow>
     gauged_step E s t"
| g_count_end:
    "a < length (pollers (sys s)) \<Longrightarrow> returned (pc (pollers (sys s) ! a)) \<Longrightarrow> a \<notin> reported s \<Longrightarrow>
     counted_end s a = None \<Longrightarrow> t = s\<lparr>counted_end := (counted_end s)(a \<mapsto> polled s)\<rparr> \<Longrightarrow>
     gauged_step E s t"
| g_end:
    "counted_end s a = Some n \<Longrightarrow>
     t = s\<lparr>active_pollers := n, counted_end := (counted_end s)(a := None), reported := insert a (reported s)\<rparr> \<Longrightarrow>
     gauged_step E s t"

definition gauged_init :: "gauged_gateway \<Rightarrow> bool" where
  "gauged_init s \<longleftrightarrow> (\<exists>p interval_ms. s = gauged_gateway_new p interval_ms)"

section \<open>Reports\<close>

text \<open>
  A report is due from a handler that got a new poller state, until it has started the poller, and from
  a poller that has returned, until it has set the gauge. It is under way between counting and setting.
\<close>

definition due_start :: "ws_gateway \<Rightarrow> bool" where
  "due_start s \<longleftrightarrow> (\<exists>i h. handlers s i = Some h \<and> pending_poller (handler_pc h) \<noteq> None)"

definition due_end :: "gauged_gateway \<Rightarrow> bool" where
  "due_end s \<longleftrightarrow> (\<exists>a < length (pollers (sys s)). returned (pc (pollers (sys s) ! a)) \<and> a \<notin> reported s)"

definition under_way :: "gauged_gateway \<Rightarrow> bool" where
  "under_way s \<longleftrightarrow> (\<exists>i. counted_start s i \<noteq> None) \<or> (\<exists>a. counted_end s a \<noteq> None)"

text \<open>A step that does not add or remove a canister while a report is under way.\<close>

definition undisturbed_step :: "('e session_env \<Rightarrow> bool) \<Rightarrow> gauged_gateway \<Rightarrow> gauged_gateway \<Rightarrow> bool" where
  "undisturbed_step E s t \<longleftrightarrow> gauged_step E s t \<and> (under_way s \<longrightarrow> polled t = polled s)"

lemma gauged_step_base:
  assumes "gauged_step E s t"
  shows "sys t = sys s \<or> gateway_step E (sys s) (sys t)"
  using assms by cases (auto intro: handler_goes_on)

section \<open>What a step of the gateway does to the reports that are due\<close>

lemma update_pending:
  assumes "gateway_inv s" and "handlers s i = Some h" "handler_pc h = HandlerUpdate"
    and "handler_update env ev h (gw s) = (h', g')"
  shows "data g' = data (gw s) \<or> pending_poller (handler_pc h') \<noteq> None"
  using gateway_inv_handler [OF assms(1,2)] assms(3,4)
proof (cases rule: handler_update_cases)
  case (register x c k m new)
  show ?thesis
  proof (cases "dm_get (data (gw s)) c")
    case None
    with register(3,4) show ?thesis by (simp add: insert_effect)
  next
    case (Some r)
    with register(2) show ?thesis by (auto simp: insert_effect intro!: disjI1 dm_ext)
  qed
qed (simp_all add: remove_effect)

lemma continue_pending:
  assumes cov: "covered base s" and E: "steady base env" and h: "handlers s i = Some h"
    and go: "handler_continue env h (gw s) = Some (h', g', sp)"
  shows "data g' = data (gw s)" and "sp = None \<Longrightarrow> pending_poller (handler_pc h') = pending_poller (handler_pc h)"
    and "sp = None \<Longrightarrow> handler_pc h \<noteq> HandlerStartPoller r"
proof -
  have inv: "gateway_inv s" using cov by (simp add: covered_def)
  show "data g' = data (gw s)" using owner_continue(2) [OF inv h go refl] by simp
  note wf = gateway_inv_handler [OF inv h]
  have "pending_poller (handler_pc h') = pending_poller (handler_pc h) \<and> handler_pc h \<noteq> HandlerStartPoller r"
    if "sp = None"
    using wf go
  proof (cases rule: handler_continue_cases)
    case (relay_failed z c k m new r)
    have "canister_id (client_session h) = Some c" using wf relay_failed(1) by (simp add: handler_wf_def)
    moreover from cov h relay_failed(1) obtain p where "inspect_ic_ws_open_message base m = Inr p"
      unfolding covered_def by blast
    ultimately show ?thesis using steady_relays [OF E] relay_failed(3) by fastforce
  qed (use that in \<open>auto simp: end_task_def split: option.split\<close>)
  then show "sp = None \<Longrightarrow> pending_poller (handler_pc h') = pending_poller (handler_pc h)"
    "sp = None \<Longrightarrow> handler_pc h \<noteq> HandlerStartPoller r" by blast+
qed

lemma poller_returns:
  assumes "poller_step env p g chs = Some (p', g', chs')"
  shows "data g' = data g \<or> returned (pc p')" and "\<not> returned (pc p)"
  using assms
  by (auto simp: poller_step_def Let_def poller_should_terminate_def remove_canister_if_empty_def
      remove_failed_canister_def split: poller_pc.splits option.splits prod.splits list.splits
      outcome.splits CanisterRemovalResult.splits if_splits)

text \<open>Pollers are only added, and one that has returned does nothing more.\<close>

lemma pollers_step:
  assumes "gateway_step E s t"
  shows "length (pollers s) \<le> length (pollers t)"
    and "a < length (pollers s) \<Longrightarrow> returned (pc (pollers s ! a)) \<Longrightarrow> pollers t ! a = pollers s ! a"
  using assms by (cases; auto simp: nth_append nth_list_update dest: poller_returns(2))+

lemma due_start_upd:
  assumes "handlers t = (handlers s)(j \<mapsto> h')"
  shows "due_start s \<Longrightarrow>
           (\<And>h. handlers s j = Some h \<Longrightarrow> pending_poller (handler_pc h) \<noteq> None \<Longrightarrow>
              pending_poller (handler_pc h') \<noteq> None) \<Longrightarrow> due_start t"
    and "pending_poller (handler_pc h') \<noteq> None \<Longrightarrow> due_start t"
  unfolding due_start_def assms by (metis fun_upd_apply option.inject)+

text \<open>A step that starts no poller leaves every due report due, and one that changes the count adds one.\<close>

lemma step_reports:
  assumes cov: "covered base s" and go: "gateway_step (steady base) s t"
    and len: "length (pollers t) = length (pollers s)"
  shows "due_start s \<Longrightarrow> due_start t"
    and "handlers s i = Some h \<Longrightarrow> handler_pc h = HandlerStartPoller r \<Longrightarrow> handlers t i = Some h"
    and "data (gw t) = data (gw s) \<or> due_start t \<or>
         (\<exists>a < length (pollers t). returned (pc (pollers t ! a)) \<and> \<not> returned (pc (pollers s ! a)))"
proof -
  have inv: "gateway_inv s" using cov by (simp add: covered_def)
  have "(due_start s \<longrightarrow> due_start t) \<and>
     (handlers s i = Some h \<longrightarrow> handler_pc h = HandlerStartPoller r \<longrightarrow> handlers t i = Some h) \<and>
     (data (gw t) = data (gw s) \<or> due_start t \<or>
         (\<exists>a < length (pollers t). returned (pc (pollers t ! a)) \<and> \<not> returned (pc (pollers s ! a))))"
    using go
  proof cases
    case (connect j env h0 accepted)
    then have t: "handlers t = (handlers s)(j \<mapsto> h0)" "pollers t = pollers s" "gw t = gw s" by simp_all
    from due_start_upd(1) [OF t(1)] t connect(1) show ?thesis by auto
  next
    case (client_event j env h0 u h' g')
    then have t: "handlers t = (handlers s)(j \<mapsto> h')" "pollers t = pollers s" "gw t = g'" by simp_all
    from due_start_upd [OF t(1)] update_pending [OF inv client_event(1,2,4)] t client_event(1,2)
    show ?thesis by auto
  next
    case (canister_event j env h0 v ch' h' g')
    then have t: "handlers t = (handlers s)(j \<mapsto> h')" "pollers t = pollers s" "gw t = g'" by simp_all
    from due_start_upd [OF t(1)] update_pending [OF inv canister_event(1,2,5)] t canister_event(1,2)
    show ?thesis by auto
  next
    case (handler_goes_on j h0 env h' g' spawned)
    then have sp: "spawned = None" using len by (cases spawned) simp_all
    with handler_goes_on(4) have t: "handlers t = (handlers s)(j \<mapsto> h')" "pollers t = pollers s" "gw t = g'"
      by simp_all
    from due_start_upd(1) [OF t(1)] continue_pending [OF cov handler_goes_on(2,1,3)] t sp handler_goes_on(1)
    show ?thesis by auto
  next
    case (poller_goes_on b env p' g' chans')
    then have t: "handlers t = handlers s" "pollers t = (pollers s)[b := p']" "gw t = g'" by simp_all
    from poller_returns [OF poller_goes_on(2)] t poller_goes_on(1) show ?thesis
      by (auto simp: due_start_def nth_list_update)
  qed
  then show "due_start s \<Longrightarrow> due_start t"
    "handlers s i = Some h \<Longrightarrow> handler_pc h = HandlerStartPoller r \<Longrightarrow> handlers t i = Some h"
    "data (gw t) = data (gw s) \<or> due_start t \<or>
      (\<exists>a < length (pollers t). returned (pc (pollers t ! a)) \<and> \<not> returned (pc (pollers s ! a)))"
    by blast+
qed

section \<open>The gauge is right when no report is due\<close>

definition start_reports_ok :: "gauged_gateway \<Rightarrow> bool" where
  "start_reports_ok s \<longleftrightarrow>
     (\<forall>i n. counted_start s i = Some n \<longrightarrow>
        n = polled s \<and> (\<exists>h r. handlers (sys s) i = Some h \<and> handler_pc h = HandlerStartPoller r))"

definition end_reports_ok :: "gauged_gateway \<Rightarrow> bool" where
  "end_reports_ok s \<longleftrightarrow>
     (\<forall>a n. counted_end s a = Some n \<longrightarrow>
        n = polled s \<and> a < length (pollers (sys s)) \<and> returned (pc (pollers (sys s) ! a)) \<and> a \<notin> reported s) \<and>
     (\<forall>a. a \<in> reported s \<longrightarrow> a < length (pollers (sys s)) \<and> returned (pc (pollers (sys s) ! a)))"

definition gauges_ok :: "'e session_env \<Rightarrow> gauged_gateway \<Rightarrow> bool" where
  "gauges_ok base s \<longleftrightarrow>
     covered base (sys s) \<and> start_reports_ok s \<and> end_reports_ok s \<and>
     (active_pollers s = polled s \<or> due_start (sys s) \<or> due_end s)"

lemma gauges_ok_step:
  assumes ok: "gauges_ok base s" and go: "undisturbed_step (steady base) s t"
  shows "gauges_ok base t"
proof -
  have cov: "covered base (sys s)" and starts: "start_reports_ok s" and ends: "end_reports_ok s"
    and due: "active_pollers s = polled s \<or> due_start (sys s) \<or> due_end s"
    using ok by (simp_all add: gauges_ok_def)
  from go have step: "gauged_step (steady base) s t" and calm: "under_way s \<Longrightarrow> polled t = polled s"
    by (simp_all add: undisturbed_step_def)
  have cov': "covered base (sys t)" using gauged_step_base [OF step] covered_step [OF cov] cov by metis
  have "start_reports_ok t \<and> end_reports_ok t \<and>
      (active_pollers t = polled t \<or> due_start (sys t) \<or> due_end t)"
    using step
  proof cases
    case (g_other u)
    note keeps = step_reports [OF cov g_other(1,2)] and kept = pollers_step(2) [OF g_other(1)]
    have t [simp]: "sys t = u" "counted_start t = counted_start s" "counted_end t = counted_end s"
      "reported t = reported s" "active_pollers t = active_pollers s" by (simp_all add: g_other(3))
    have "start_reports_ok t"
      using starts keeps(2) calm unfolding start_reports_ok_def under_way_def t by (metis option.distinct(1))
    moreover have "end_reports_ok t"
      using ends kept calm g_other(2) unfolding end_reports_ok_def under_way_def t
      by (metis option.distinct(1))
    moreover have "active_pollers t = polled t \<or> due_start u \<or> due_end t"
    proof (cases "data (gw u) = data (gw (sys s))")
      case True
      then have "polled t = polled s" by (simp add: polled_def get_active_pollers_count_def)
      moreover have "due_end s \<Longrightarrow> due_end t" using kept g_other(2) unfolding due_end_def t by metis
      ultimately show ?thesis using due keeps(1) by auto
    next
      case False
      with keeps(3) ends show ?thesis unfolding due_end_def end_reports_ok_def t by metis
    qed
    ultimately show ?thesis by simp
  next
    case (g_count_start i h r)
    then show ?thesis using starts ends due
      by (auto simp: start_reports_ok_def end_reports_ok_def due_end_def polled_def)
  next
    case (g_start i h n env h' g' p u)
    have "data g' = data (gw (sys s))" by (rule continue_pending(1) [OF cov g_start(3,1,4)])
    then have same: "polled t = polled s"
      by (simp add: g_start(5,6) polled_def get_active_pollers_count_def)
    with starts g_start(2) have "active_pollers t = polled t" by (simp add: g_start(6) start_reports_ok_def)
    moreover have "start_reports_ok t" using starts same by (auto simp: start_reports_ok_def g_start(5,6))
    moreover have "end_reports_ok t"
    proof -
      have "pollers (sys t) = pollers (sys s) @ [p]" "counted_end t = counted_end s" "reported t = reported s"
        by (simp_all add: g_start(5,6))
      with ends same show ?thesis unfolding end_reports_ok_def
        by (metis length_append_singleton less_SucI nth_append)
    qed
    ultimately show ?thesis by simp
  next
    case (g_count_end a)
    then show ?thesis using starts ends due
      by (auto simp: start_reports_ok_def end_reports_ok_def due_end_def polled_def)
  next
    case (g_end a n)
    then have same: "polled t = polled s" "sys t = sys s" by (simp_all add: polled_def)
    with ends g_end(1) have "active_pollers t = polled t" by (simp add: g_end(2) end_reports_ok_def)
    moreover have "start_reports_ok t" using starts same by (simp add: start_reports_ok_def g_end(2))
    moreover have "end_reports_ok t"
    proof -
      have "counted_end t = (counted_end s)(a := None)" "reported t = insert a (reported s)"
        by (simp_all add: g_end(2))
      with ends g_end(1) show ?thesis unfolding end_reports_ok_def same by (metis fun_upd_apply insert_iff option.distinct(1))
    qed
    ultimately show ?thesis by simp
  qed
  with cov' show ?thesis by (simp add: gauges_ok_def)
qed

interpretation gauges: inductive_invariant gauged_init "undisturbed_step (steady base)" "gauges_ok base"
  for base :: "'e session_env"
proof unfold_locales
  show "gauges_ok base s" if "gauged_init s" for s
  proof -
    from that obtain p n where s: "s = gauged_gateway_new p n" by (auto simp: gauged_init_def)
    have "reach gateway_init (gateway_step (steady base)) (ws_gateway_new p n)"
      by (rule reach_init) (auto simp: gateway_init_def)
    from coverage.inv_reach [OF this] show ?thesis
      by (simp add: s gauges_ok_def gauged_gateway_new_def start_reports_ok_def end_reports_ok_def polled_def
          get_active_pollers_count_def ws_gateway_new_def GatewayState_new_def dm_len_card)
  qed
qed (rule gauges_ok_step)

text \<open>With no poller about to be started, each polled canister has one running poller.\<close>

definition running_pollers :: "ws_gateway \<Rightarrow> nat" where
  "running_pollers s = length (filter (\<lambda>p. \<not> poller_ended (pc p)) (pollers s))"

lemma polled_running:
  assumes cov: "covered base s" and none: "\<not> due_start s"
  shows "get_active_pollers_count (gw s) = running_pollers s"
proof -
  let ?R = "{a. a < length (pollers s) \<and> \<not> poller_ended (pc (pollers s ! a))}"
  let ?c = "\<lambda>a. poller_canister_id (poller (pollers s ! a))"
  have own: "owners_ok s" using cov by (simp add: covered_def gateway_inv_def)
  have at: "dm_get (data (gw s)) (?c a) = Some (poller_state (poller (pollers s ! a)))" if "a \<in> ?R" for a
    using owners_okD(1) [OF own running_owner] that by simp
  have "inj_on ?c ?R"
  proof (rule inj_onI)
    fix a b assume ab: "a \<in> ?R" "b \<in> ?R" "?c a = ?c b"
    then have "poller_state (poller (pollers s ! a)) = poller_state (poller (pollers s ! b))"
      using at [of a] at [of b] by simp
    with owners_okD(2) [OF own, of "Inl a" _ _ "Inl b"] ab show "a = b" by simp
  qed
  moreover have "?c ` ?R = dm_keys (data (gw s))"
  proof
    show "?c ` ?R \<subseteq> dm_keys (data (gw s))" using at by (auto simp: in_dm_keys_iff)
    show "dm_keys (data (gw s)) \<subseteq> ?c ` ?R"
    proof
      fix c assume "c \<in> dm_keys (data (gw s))"
      then obtain r where "dm_get (data (gw s)) c = Some r" by (auto simp: in_dm_keys_iff)
      with cov obtain x where x: "owner s x = Some (c, r)" unfolding covered_def by blast
      show "c \<in> ?c ` ?R"
      proof (cases x)
        case (Inl a)
        with x show ?thesis by (auto split: if_splits)
      next
        case (Inr i)
        with x none show ?thesis by (auto simp: due_start_def split: option.splits)
      qed
    qed
  qed
  ultimately have "card (dm_keys (data (gw s))) = card ?R" by (metis card_image)
  then show ?thesis
    by (simp add: get_active_pollers_count_def dm_len_card running_pollers_def length_filter_conv_card)
qed

text \<open>
  C25: the gauge of active pollers is right whenever nobody has to report. If every envelope read can be
  written again, and no canister is added or removed between the counting and the setting of a report,
  then in every state in which no handler is about to start a poller and every poller that returned has
  reported, the gauge is the number of pollers that run.
\<close>

theorem active_pollers_right:
  assumes "reach gauged_init (undisturbed_step (steady base)) s"
    and "\<not> due_start (sys s)" and "\<not> due_end s"
  shows "active_pollers s = running_pollers (sys s)"
proof -
  have "gauges_ok base s" using gauges.inv_reach assms(1) by blast
  with assms(2,3) polled_running [of base "sys s"] show ?thesis by (simp add: gauges_ok_def polled_def)
qed

end
