(* ===== verification/Gateway_Gauge_Runs.thy ===== *)
theory Gateway_Gauge_Runs
  imports Gateway_Gauges
begin

text \<open>
  Schedules with the reports of the gauge of active pollers: a run in which it is right, and one in which
  two reports overlap and it stays wrong.
\<close>

section \<open>Actions\<close>

datatype 'e gauge_action =
    Acts "'e action"
  | CountsStart u64
  | Starts u64 "'e session_env"
  | CountsEnd nat
  | SetsEnd nat

text \<open>An action that is not enabled does nothing; a poller is started by its own action.\<close>

fun gact :: "'e gauge_action \<Rightarrow> gauged_gateway \<Rightarrow> gauged_gateway" where
  "gact (Acts x) s =
     (if length (pollers (act x (sys s))) = length (pollers (sys s)) then s\<lparr>sys := act x (sys s)\<rparr> else s)"
| "gact (CountsStart i) s =
     (case handlers (sys s) i of
        None \<Rightarrow> s
      | Some h \<Rightarrow>
          (case handler_pc h of
             HandlerStartPoller r \<Rightarrow>
               if counted_start s i = None
               then s\<lparr>counted_start := (counted_start s)(i \<mapsto> polled s)\<rparr> else s
           | _ \<Rightarrow> s))"
| "gact (Starts i env) s =
     (case (handlers (sys s) i, counted_start s i) of
        (Some h, Some n) \<Rightarrow>
          (case handler_continue env h (gw (sys s)) of
             Some (h', g', Some p) \<Rightarrow>
               s\<lparr>sys := put_spawned (Some p) (put_handler i h' ((sys s)\<lparr>gw := g'\<rparr>)),
                 active_pollers := n, counted_start := (counted_start s)(i := None)\<rparr>
           | _ \<Rightarrow> s)
      | _ \<Rightarrow> s)"
| "gact (CountsEnd a) s =
     (if a < length (pollers (sys s)) \<and> returned (pc (pollers (sys s) ! a)) \<and> a \<notin> reported s \<and>
         counted_end s a = None
      then s\<lparr>counted_end := (counted_end s)(a \<mapsto> polled s)\<rparr> else s)"
| "gact (SetsEnd a) s =
     (case counted_end s a of
        None \<Rightarrow> s
      | Some n \<Rightarrow>
          s\<lparr>active_pollers := n, counted_end := (counted_end s)(a := None), reported := insert a (reported s)\<rparr>)"

fun gauge_action_env :: "'e gauge_action \<Rightarrow> 'e session_env option" where
  "gauge_action_env (Acts x) = action_env x"
| "gauge_action_env (Starts _ env) = Some env"
| "gauge_action_env _ = None"

lemma gact_step:
  assumes "\<And>env. gauge_action_env x = Some env \<Longrightarrow> E env"
  shows "gact x s = s \<or> gauged_step E s (gact x s)"
proof (cases x)
  case (Acts y)
  have "act y (sys s) = sys s \<or> gateway_step E (sys s) (act y (sys s))"
    by (rule act_step) (use assms Acts in simp)
  then show ?thesis by (cases s) (auto simp: Acts intro: g_other)
next
  case (CountsStart i)
  then show ?thesis by (auto intro: g_count_start split: option.split handler_pc.split)
next
  case (Starts i env)
  with assms have "E env" by simp
  with Starts show ?thesis by (auto intro: g_start split: option.split prod.split)
next
  case (CountsEnd a)
  then show ?thesis by (auto intro: g_count_end)
next
  case (SetsEnd a)
  then show ?thesis by (auto intro: g_end split: option.split)
qed

definition gauge_schedule :: "'e gauge_action list \<Rightarrow> gauged_gateway \<Rightarrow> gauged_gateway" where
  "gauge_schedule xs s = fold gact xs s"

lemma gauge_schedule_simps [simp]:
  "gauge_schedule [] s = s"
  "gauge_schedule (x # xs) s = gauge_schedule xs (gact x s)"
  by (simp_all add: gauge_schedule_def)

lemma gauge_schedule_reachable:
  assumes "reach gauged_init (gauged_step E) s"
    and "\<And>x env. x \<in> set xs \<Longrightarrow> gauge_action_env x = Some env \<Longrightarrow> E env"
  shows "reach gauged_init (gauged_step E) (gauge_schedule xs s)"
  using assms
proof (induction xs arbitrary: s)
  case (Cons x xs)
  have "reach gauged_init (gauged_step E) (gact x s)"
    using gact_step [of x E s] Cons.prems reach_step [OF Cons.prems(1)] by fastforce
  then have "reach gauged_init (gauged_step E) (gauge_schedule xs (gact x s))"
    by (rule Cons.IH) (rule Cons.prems(2), simp_all)
  then show ?case by simp
qed simp

section \<open>A run without overlapping reports\<close>

definition gauged_demo :: gauged_gateway where
  "gauged_demo = gauged_gateway_new (Inr (Principal [2])) 100"

lemma gauged_demo_init: "gauged_init gauged_demo"
  by (auto simp: gauged_demo_def gauged_init_def)

text \<open>A session that opens, with the report of its poller.\<close>

definition opens_gauged :: "u64 \<Rightarrow> bytes session_env \<Rightarrow> bytes gauge_action list" where
  "opens_gauged i env =
     [Acts (Connects i env), Acts (ClientSends i env (Inr (Binary [5]))), Acts (GoesOn i env),
      CountsStart i, Starts i env]"

lemmas gauge_run_simps =
  gauged_demo_def gauged_gateway_new_def opens_gauged_def polled_def get_active_pollers_count_def
  dm_len_card

lemma undisturbed_reach_step:
  assumes "reach gauged_init (undisturbed_step E) s" and "\<And>env. gauge_action_env x = Some env \<Longrightarrow> E env"
    and "under_way s \<Longrightarrow> polled (gact x s) = polled s"
  shows "reach gauged_init (undisturbed_step E) (gact x s)"
  using gact_step [of x E s] assms reach_step [OF assms(1), of "gact x s"] unfolding undisturbed_step_def
  by fastforce

lemma gact_under_way [simp]: "under_way (gact (Acts x) s) = under_way s"
  by (simp add: under_way_def)

definition gauged_open :: gauged_gateway where
  "gauged_open = gauge_schedule (opens_gauged 7 mock_session_env) gauged_demo"

lemma gauged_open_reachable:
  "reach gauged_init (undisturbed_step (steady mock_session_env)) gauged_open"
proof -
  let ?E = "steady mock_session_env"
  let ?a = "[Acts (Connects 7 mock_session_env), Acts (ClientSends 7 mock_session_env (Inr (Binary [5]))),
      Acts (GoesOn 7 mock_session_env)]"
  let ?s = "gauge_schedule ?a gauged_demo"
  let ?c = "CountsStart 7 :: bytes gauge_action"
  have new: "\<not> under_way gauged_demo" by (simp add: under_way_def gauged_demo_def gauged_gateway_new_def)
  have alone: "reach gauged_init (undisturbed_step ?E) ?s"
    unfolding gauge_schedule_simps
    by (intro undisturbed_reach_step reach_init) (simp_all add: gauged_demo_init new steady_mock del: gact.simps)
  have idle: "\<not> under_way ?s" using new by (simp del: gact.simps)
  have counted: "reach gauged_init (undisturbed_step ?E) (gact ?c ?s)"
    by (rule undisturbed_reach_step [OF alone]) (use idle in simp_all)
  have "polled (gact (Starts 7 mock_session_env) (gact ?c ?s)) = polled (gact ?c ?s)"
    by (simp add: gauge_run_simps run_simps)
  then have "reach gauged_init (undisturbed_step ?E) (gact (Starts 7 mock_session_env) (gact ?c ?s))"
    by (intro undisturbed_reach_step [OF counted]) (simp_all add: steady_mock del: gact.simps)
  then show ?thesis by (simp add: gauged_open_def opens_gauged_def del: gact.simps)
qed

theorem active_pollers_right_witness:
  "active_pollers gauged_open = 1 \<and> running_pollers (sys gauged_open) = 1"
proof -
  have "\<not> due_start (sys gauged_open)" "\<not> due_end gauged_open" "running_pollers (sys gauged_open) = 1"
    by (simp_all add: gauged_open_def due_start_def due_end_def running_pollers_def gauge_run_simps run_simps)
  with active_pollers_right [OF gauged_open_reachable] show ?thesis by simp
qed

section \<open>Two reports that overlap\<close>

text \<open>When every poller has returned and reported, the gauge stays as it is until another one is started.\<close>

definition all_reported :: "gauged_gateway \<Rightarrow> bool" where
  "all_reported s \<longleftrightarrow>
     (\<forall>a. counted_end s a = None) \<and>
     (\<forall>a < length (pollers (sys s)). returned (pc (pollers (sys s) ! a)) \<and> a \<in> reported s)"

lemma gauge_step_stays:
  assumes "all_reported s" and "gauged_step E s t"
  shows "length (pollers (sys s)) < length (pollers (sys t)) \<or>
         all_reported t \<and> active_pollers t = active_pollers s \<and> length (pollers (sys t)) = length (pollers (sys s))"
  using assms(2)
proof cases
  case (g_other u)
  with assms(1) pollers_step(2) [OF g_other(1)] show ?thesis by (auto simp: all_reported_def)
next
  case (g_count_end a)
  with assms(1) show ?thesis by (simp add: all_reported_def)
qed (use assms(1) in \<open>auto simp: all_reported_def\<close>)

lemma gauge_stays:
  assumes "all_reported s" and "(gauged_step E)\<^sup>*\<^sup>* s t"
  shows "length (pollers (sys s)) < length (pollers (sys t)) \<or>
         all_reported t \<and> active_pollers t = active_pollers s \<and> length (pollers (sys t)) = length (pollers (sys s))"
  using assms(2)
proof (induction rule: rtranclp_induct)
  case (step t u)
  have "length (pollers (sys t)) \<le> length (pollers (sys u))"
    using gauged_step_base [OF step.hyps(2)] pollers_step(1) by fastforce
  with step gauge_step_stays [OF _ step.hyps(2)] show ?case by auto
qed (use assms(1) in simp)

text \<open>A client of another canister.\<close>

definition far_session_env :: "bytes session_env" where
  "far_session_env = mock_session_env\<lparr>content_of := Call (Principal [5])\<rparr>"

lemma far_codecs [simp]:
  "from_slice far_session_env = Some"
  "content_of far_session_env = Call (Principal [5])"
  "serialize (self_describe far_session_env) (cbor_envelope far_session_env b) = Inr ([217, 217, 247] @ b)"
  "start_session far_session_env (Inr ()) (Inr p) (ClientSessionHandler_new i n) =
     start_session mock_session_env (Inr ()) (Inr p) (ClientSessionHandler_new i n)"
  "inspect_ic_ws_open_message far_session_env (Binary b) =
     Inr (ClientKey_new (Principal [1]) 9, Principal [5])"
proof -
  show "start_session far_session_env (Inr ()) (Inr p) (ClientSessionHandler_new i n) =
     start_session mock_session_env (Inr ()) (Inr p) (ClientSessionHandler_new i n)"
    unfolding mock_connect
    by (simp add: far_session_env_def mock_session_env_def start_session_def ClientSession_init_def
        serialize_def send_ws_message_to_client_def Let_def)
qed (simp_all add: far_session_env_def mock_session_env_def serialize_def inspect_ic_ws_open_message_def
      get_client_request_def)

text \<open>
  Two canisters get a poller each, and both pollers fail. The first one counts while the second canister
  is still polled, and sets the gauge after the second one has reported that none is.
\<close>

definition overlapping_actions :: "bytes gauge_action list" where
  "overlapping_actions =
     opens_gauged 7 mock_session_env @ opens_gauged 8 far_session_env @
     [Acts (PollerGoesOn 0 failing_env), Acts (PollerGoesOn 0 failing_env), CountsEnd 0,
      Acts (PollerGoesOn 1 failing_env), Acts (PollerGoesOn 1 failing_env), CountsEnd 1, SetsEnd 1, SetsEnd 0]"

definition gauged_stale :: gauged_gateway where
  "gauged_stale = gauge_schedule overlapping_actions gauged_demo"

lemma gauged_stale_sel:
  "active_pollers gauged_stale = 1" "polled gauged_stale = 0"
  "length (pollers (sys gauged_stale)) = 2" "running_pollers (sys gauged_stale) = 0"
  "all_reported gauged_stale"
  by (simp_all add: gauged_stale_def overlapping_actions_def gauge_run_simps run_simps failing_poll
      CanisterPoller_new_def running_pollers_def all_reported_def less_Suc_eq)

text \<open>
  C26: two reports that overlap can leave the gauge of active pollers wrong. In a run of the gateway two
  pollers fail, the one that counted first sets the gauge last, and it says one when no canister is
  polled, no poller runs and every poller has reported; and there it stays, whatever happens, until
  another poller is started.
\<close>

theorem overlapping_reports_leave_gauge_wrong:
  "\<exists>s. reach gauged_init (gauged_step (\<lambda>_ :: bytes session_env. True)) s \<and>
     polled s = 0 \<and> running_pollers (sys s) = 0 \<and>
     {active_pollers t | t. (gauged_step (\<lambda>_ :: bytes session_env. True))\<^sup>*\<^sup>* s t \<and>
        length (pollers (sys t)) = length (pollers (sys s))} = {1}"
proof -
  let ?E = "\<lambda>_ :: bytes session_env. True"
  have "reach gauged_init (gauged_step ?E) gauged_stale"
    unfolding gauged_stale_def
    by (rule gauge_schedule_reachable) (simp_all add: gauged_demo_init reach_init)
  moreover have "active_pollers t = 1"
    if "(gauged_step ?E)\<^sup>*\<^sup>* gauged_stale t" "length (pollers (sys t)) = length (pollers (sys gauged_stale))" for t
    using gauge_stays [OF gauged_stale_sel(5) that(1)] that(2) gauged_stale_sel(1) by simp
  then have "{active_pollers t | t. (gauged_step ?E)\<^sup>*\<^sup>* gauged_stale t \<and>
      length (pollers (sys t)) = length (pollers (sys gauged_stale))} = {1}"
    using gauged_stale_sel(1) by (auto intro!: exI [where x = gauged_stale])
  ultimately show ?thesis using gauged_stale_sel(2,4) by blast
qed

end
