(* ===== verification/Gateway_Relays.thy ===== *)
theory Gateway_Relays
  imports Gateway_Sessions "HOL-Library.Multiset"
begin

text \<open>
  The tasks that relay the messages of the clients. A session spawns one for each message
  (\<open>relay_envelope_to_canister\<close>), and nothing orders them: each makes its call when the runtime gets to
  it, before or after the other ones, and before or after the handler has called \<open>ws_close\<close>, which the
  handler does itself. The steps are those of the whole gateway, and those of the spawned tasks.
\<close>

section \<open>State and steps\<close>









section \<open>Every step of the gateway is one here\<close>






section \<open>Each relay is made once, in any order\<close>






section \<open>A run\<close>












end
