(* ===== verification/Gateway_Outlived.thy ===== *)
theory Gateway_Outlived
  imports Gateway_Liveness
begin

text \<open>
  Sessions that outlive their poller: a poller that failed has removed its canister, but the handlers of
  its clients learn of it only when they read the end of their channels. Until then they still act on the
  messages of their clients, and meanwhile the canister can be registered anew.
\<close>

section \<open>A close message after the poller has failed\<close>

lemma cut_off_run:
  "(gateway_step E)\<^sup>*\<^sup>* s t \<Longrightarrow> links_ok s \<Longrightarrow> cut_off s i \<Longrightarrow> links_ok t \<and> cut_off t i"
  by (induction rule: rtranclp_induct) (auto intro: links_step cut_off_step)

text \<open>The session is not in the poller state its canister has now.\<close>

lemma cut_off_missing:
  assumes ok: "links_ok t" "cut_off t i" and r: "dm_get (data (gw t)) c = Some r"
    and alone: "\<forall>j h'. handlers t j = Some h' \<longrightarrow> serves h' c k \<longrightarrow> j = i"
  shows "dm_get (arcs (gw t) r) k = None"
proof (rule ccontr)
  assume "dm_get (arcs (gw t) r) k \<noteq> None"
  then obtain cs where cs: "dm_get (arcs (gw t) r) k = Some cs" by blast
  have "entries_ok t" using ok(1) by (simp add: links_ok_def gateway_inv_def)
  from entries_okD [OF this r cs] alone have "sender cs = i" by blast
  with cs have "entry t r k i" by (auto simp: entry_def)
  from cut_off_entry [OF ok this] r show False by (auto simp: live_data_def)
qed

lemma close_without_entry:
  assumes wf: "handler_wf i h" and pc: "handler_pc h = HandlerUpdate"
    and known: "canister_id (client_session h) = Some c" "client_key (client_session h) = Some k"
    and r: "dm_get (data g) c = Some r" and none: "dm_get (arcs g r) k = None" and m: "is_close m"
  shows "\<exists>h'. handler_update env (ClientUpdate (Inr m)) h g = (h', g) \<and>
           handler_pc h' = HandlerDone (Panic ''Client key not found in poller state'')"
proof -
  have st: "session_state (client_session h) \<noteq> Closed" using wf pc by (auto simp: handler_wf_def)
  with m have "try_update_state env (ClientUpdate (Inr m)) (client_session h) =
      (Ok (Some Closed), (client_session h)\<lparr>session_state := Closed\<rparr>)"
    by (simp add: try_update_state_eq)
  with known r none show ?thesis
    by (simp add: handler_update_eq handle_update_def handle_closed_def get_canister_id_def get_client_key_def
        expect_def remove_client_def goto_def end_task_def)
qed

text \<open>
  C28: distinct client keys do not rule the second panic out. Whenever a poller has failed while session
  \<open>i\<close> was registered with it, and the canister has been registered anew by another client before the
  handler of session \<open>i\<close> has read the end of its channel, a close message of its client makes that
  handler panic with "Client key not found in poller state", and this although no other session has
  its client key.
\<close>

theorem session_outliving_poller_panics:
  assumes "reachable E s" and "p \<in> set (pollers s)" and "pc p = PollerDone (Err e)"
    and "dm_get (arcs (gw s) (poller_state (poller p))) k = Some \<lparr>sender = i\<rparr>"
    and "(gateway_step E)\<^sup>*\<^sup>* s t"
    and "handlers t i = Some h" and "handler_pc h = HandlerUpdate"
    and "canister_id (client_session h) = Some c" and "client_key (client_session h) = Some k"
    and "dm_get (data (gw t)) c = Some r"
    and "\<forall>j h'. handlers t j = Some h' \<longrightarrow> serves h' c k \<longrightarrow> j = i"
    and "is_close m" and "E env"
  shows "\<exists>h'. handler_update env (ClientUpdate (Inr m)) h (gw t) = (h', gw t) \<and>
           gateway_step E t (put_handler i h' t) \<and>
           handler_pc h' = HandlerDone (Panic ''Client key not found in poller state'')"
proof -
  have "cut_off s i" using assms(2-4) unfolding cut_off_def entry_def by force
  from cut_off_run [OF assms(5) links.inv_reach [OF assms(1)] this]
  have ok: "links_ok t" "cut_off t i" by simp_all
  have "handler_wf i h" using gateway_inv_handler [OF _ assms(6)] ok(1) by (simp add: links_ok_def)
  from close_without_entry [OF this assms(7-10) cut_off_missing [OF ok assms(10,11)] assms(12), where env = env]
  obtain h' where h': "handler_update env (ClientUpdate (Inr m)) h (gw t) = (h', gw t)"
    "handler_pc h' = HandlerDone (Panic ''Client key not found in poller state'')" by blast
  have "t\<lparr>gw := gw t\<rparr> = t" by simp
  then have "put_handler i h' t = put_handler i h' (t\<lparr>gw := gw t\<rparr>)" by (rule arg_cong [OF sym])
  then have "gateway_step E t (put_handler i h' t)"
    by (rule client_event [where i = i and h = h and env = env and h' = h', rotated 4]) (use assms(6,7,13) h'(1) in simp_all)
  with h' show ?thesis by blast
qed

section \<open>A run\<close>

text \<open>
  Client 7 opens a session, the poller fails and removes the canister, and client 8, with another key,
  opens a session, which registers the canister anew; the handler of client 7 has seen nothing of that.
\<close>

definition demo_outlived :: ws_gateway where
  "demo_outlived =
     schedule [Connects 8 other_session_env, ClientSends 8 other_session_env (Inr (Binary [6]))] demo_failed"

lemma demo_outlived_handlers:
  "\<exists>h. handlers demo_outlived 7 = Some h \<and> handler_pc h = HandlerUpdate \<and>
     canister_id (client_session h) = Some (Principal [4]) \<and>
     client_key (client_session h) = Some (ClientKey_new (Principal [1]) 9)"
  "\<exists>h. handlers demo_outlived 8 = Some h \<and> \<not> handler_ended (handler_pc h) \<and>
     serves h (Principal [4]) (ClientKey_new (Principal [3]) 9)"
  "\<exists>r. dm_get (data (gw demo_outlived)) (Principal [4]) = Some r"
  "j \<noteq> 7 \<Longrightarrow> j \<noteq> 8 \<Longrightarrow> handlers demo_outlived j = None"
  by (simp_all add: demo_outlived_def demo_failed_def demo_open_def run_simps failing_poll CanisterPoller_new_def
      ClientKey_new_def serves_def)

theorem session_outliving_poller_panics_witness:
  "\<exists>h h'. handlers demo_outlived 8 = Some h \<and> \<not> handler_ended (handler_pc h) \<and>
     gateway_step (\<lambda>_ :: bytes session_env. True) demo_outlived (put_handler 7 h' demo_outlived) \<and>
     handler_pc h' = HandlerDone (Panic ''Client key not found in poller state'')"
proof -
  let ?E = "\<lambda>_ :: bytes session_env. True" and ?k = "ClientKey_new (Principal [1]) 9"
  have reach: "reachable ?E demo_failed" unfolding demo_failed_def demo_open_def
    by (intro schedule_reachable demo_reachable) simp_all
  have run: "(gateway_step ?E)\<^sup>*\<^sup>* demo_failed demo_outlived"
    unfolding demo_outlived_def by (rule schedule_run) simp
  obtain p e where p: "p \<in> set (pollers demo_failed)" "pc p = PollerDone (Err e)" "poller_state (poller p) = 0"
    using demo_failed_state(1) by auto
  then have reg: "dm_get (arcs (gw demo_failed) (poller_state (poller p))) ?k = Some \<lparr>sender = 7\<rparr>"
    by (simp add: demo_failed_state(4))
  obtain h7 h8 r where h: "handlers demo_outlived 7 = Some h7" "handler_pc h7 = HandlerUpdate"
      "canister_id (client_session h7) = Some (Principal [4])" "client_key (client_session h7) = Some ?k"
    and h8: "handlers demo_outlived 8 = Some h8" "\<not> handler_ended (handler_pc h8)"
      "serves h8 (Principal [4]) (ClientKey_new (Principal [3]) 9)"
    and r: "dm_get (data (gw demo_outlived)) (Principal [4]) = Some r"
    using demo_outlived_handlers by blast
  have "j = 7" if "handlers demo_outlived j = Some h'" "serves h' (Principal [4]) ?k" for j h'
    using that demo_outlived_handlers(4) [of j] h8 by (cases "j = 8") (auto simp: serves_def ClientKey_new_def)
  then have alone: "\<forall>j h'. handlers demo_outlived j = Some h' \<longrightarrow> serves h' (Principal [4]) ?k \<longrightarrow> j = 7"
    by blast
  from session_outliving_poller_panics [OF reach p(1,2) reg run h r alone, where m = "Close None" and env = mock_session_env] h8
  show ?thesis by auto
qed

end
