(* ===== verification/Poller_Big_Step.thy ===== *)
theory Poller_Big_Step
  imports Canister_Poller_Props
begin

text \<open>
  One iteration of the poller as the source writes it, in one piece (\<open>poll_and_relay\<close> and the body of
  the loop of \<open>run_polling\<close>), and its equivalence with the machine that other tasks can interleave
  with: run alone, the machine comes to rest exactly where the iteration ends.
\<close>

section \<open>An iteration in one piece\<close>

text \<open>The end of \<open>poll_and_relay\<close>: the time to sleep.\<close>

definition sleep_after ::
  "poller_env \<Rightarrow> CanisterPoller \<Rightarrow> (unit, string) outcome" where
  "sleep_after env p =
     (case compute_effective_polling_interval p (elapsed env) of
        Some effective_polling_interval \<Rightarrow> Ok ()
      | None \<Rightarrow> Panic ''overflow when subtracting durations'')"

text \<open>
  \<open>poll_and_relay\<close>: it polls the canister once, and goes on with what it polled. None means that it
  waits for room in a channel.
\<close>

definition relay_polled ::
  "poller_env \<Rightarrow> string + PollingStatus \<Rightarrow> CanisterPoller \<Rightarrow> PollerState \<Rightarrow> channels
     \<Rightarrow> ((unit, string) outcome \<times> CanisterPoller \<times> channels) option" where
  "relay_polled env polled p clients chs =
     (case polled of
        Inl e \<Rightarrow> Some (Err e, p, chs)
      | Inr (MessagesPolled out) \<Rightarrow>
          let end_of_queue_reached = (case is_end_of_queue out of None \<Rightarrow> True | Some b \<Rightarrow> b) in
          (case update_nonce out p of
             (Inl e, p') \<Rightarrow> Some (Err e, p', chs)
           | (Inr _, p') \<Rightarrow>
               (case relay_messages clients (cert out) (tree out) (messages out) chs of
                  ([], chs') \<Rightarrow>
                    Some (if \<not> end_of_queue_reached then Ok () else sleep_after env p', p', chs')
                | (_ # _, _) \<Rightarrow> None))
      | Inr TimedOut \<Rightarrow> Some (Ok (), p, chs)
      | Inr NoMessagesPolled \<Rightarrow> Some (sleep_after env p, p, chs))"

definition poll_and_relay ::
  "poller_env \<Rightarrow> CanisterPoller \<Rightarrow> PollerState \<Rightarrow> channels
     \<Rightarrow> ((unit, string) outcome \<times> CanisterPoller \<times> channels) option" where
  "poll_and_relay env p clients chs = relay_polled env (poll_canister env p) p clients chs"

text \<open>The body of the loop of \<open>run_polling\<close>, with its end, what it does with the result.\<close>

definition end_iteration ::
  "Principal \<Rightarrow> GatewayState \<Rightarrow> (unit, string) outcome \<times> CanisterPoller \<times> channels
     \<Rightarrow> poller_task \<times> GatewayState \<times> channels" where
  "end_iteration c g1 res =
     (case res of
        (Err e, p', chs') \<Rightarrow>
          (case remove_failed_canister c g1 of
             (Panic m, g2) \<Rightarrow> (\<lparr>poller = p', pc = PollerDone (Panic m)\<rparr>, g2, chs')
           | (_, g2) \<Rightarrow> (\<lparr>poller = p', pc = PollerDone (Err e)\<rparr>, g2, chs'))
      | (Panic m, p', chs') \<Rightarrow> (\<lparr>poller = p', pc = PollerDone (Panic m)\<rparr>, g1, chs')
      | (Ok _, p', chs') \<Rightarrow>
          (case poller_should_terminate p' g1 of
             (True, g2) \<Rightarrow> (\<lparr>poller = p', pc = PollerDone (Ok ())\<rparr>, g2, chs')
           | (False, g2) \<Rightarrow>
               (\<lparr>poller = p'\<lparr>polling_iteration := polling_iteration p' + 1\<rparr>, pc = PollerLoop\<rparr>, g2, chs')))"

definition run_iteration ::
  "poller_env \<Rightarrow> CanisterPoller \<Rightarrow> GatewayState \<Rightarrow> channels
     \<Rightarrow> (poller_task \<times> GatewayState \<times> channels) option" where
  "run_iteration env p g chs =
     (let clients = arcs g (poller_state p);
          c = poller_canister_id p;
          g1 = set_clients_gauge c (dm_len clients) g
      in map_option (end_iteration c g1) (poll_and_relay env p clients chs))"

section \<open>Requests\<close>

text \<open>
  The same code with its requests written out: what answers them has a state, which each request may
  change, and the clock is read after the answer. A request is made where the source makes it, in
  \<open>poll_canister\<close>.
\<close>

record 'w poller_io =
  ask :: "Principal \<Rightarrow> CanisterWsGetMessagesArguments \<Rightarrow> 'w
            \<Rightarrow> (duration \<times> (IcError + CanisterOutputCertifiedMessages)) \<times> 'w"
  show_agent_error :: "AgentError \<Rightarrow> string"
  looks_at_clock :: "'w \<Rightarrow> duration"

definition answered_env ::
  "'w poller_io \<Rightarrow> duration \<times> (IcError + CanisterOutputCertifiedMessages) \<Rightarrow> 'w \<Rightarrow> poller_env" where
  "answered_env io call w =
     \<lparr>get_messages = (\<lambda>_ _. call), agent_error_debug = show_agent_error io, elapsed = looks_at_clock io w\<rparr>"

definition poll_canister_io ::
  "'w poller_io \<Rightarrow> CanisterPoller \<Rightarrow> 'w \<Rightarrow> (string + PollingStatus) \<times> poller_env \<times> 'w" where
  "poll_canister_io io p w =
     (let (call, w') = ask io (poller_canister_id p) \<lparr>get_nonce = next_message_nonce p\<rparr> w;
          env = answered_env io call w'
      in (poll_canister env p, env, w'))"

definition poll_and_relay_io ::
  "'w poller_io \<Rightarrow> CanisterPoller \<Rightarrow> PollerState \<Rightarrow> channels \<Rightarrow> 'w
     \<Rightarrow> ((unit, string) outcome \<times> CanisterPoller \<times> channels) option \<times> 'w" where
  "poll_and_relay_io io p clients chs w =
     (let (polled, env, w') = poll_canister_io io p w in (relay_polled env polled p clients chs, w'))"

definition run_iteration_io ::
  "'w poller_io \<Rightarrow> CanisterPoller \<Rightarrow> GatewayState \<Rightarrow> channels \<Rightarrow> 'w
     \<Rightarrow> (poller_task \<times> GatewayState \<times> channels) option \<times> 'w" where
  "run_iteration_io io p g chs w =
     (let clients = arcs g (poller_state p);
          c = poller_canister_id p;
          g1 = set_clients_gauge c (dm_len clients) g;
          (res, w') = poll_and_relay_io io p clients chs w
      in (map_option (end_iteration c g1) res, w'))"

text \<open>\<open>run_polling\<close> as a whole: it ends with the result of the task, or not at all.\<close>

partial_function (option) run_polling ::
  "'w poller_io \<Rightarrow> CanisterPoller \<Rightarrow> GatewayState \<Rightarrow> channels \<Rightarrow> 'w
     \<Rightarrow> ((unit, string) outcome \<times> GatewayState \<times> channels \<times> 'w) option" where
  "run_polling io p g chs w =
     (case run_iteration_io io p g chs w of
        (None, _) \<Rightarrow> None
      | (Some (t, g', chs'), w') \<Rightarrow>
          (case pc t of
             PollerDone r \<Rightarrow> Some (r, g', chs', w')
           | _ \<Rightarrow> run_polling io (poller t) g' chs' w'))"

text \<open>
  \<open>poll_canister\<close> sees of its environment the answer to one request, for the next nonce, only; so the code
  with requests is the code above in the environment that gives this answer.
\<close>

lemma poll_canister_request:
  assumes "get_messages env (poller_canister_id p) \<lparr>get_nonce = next_message_nonce p\<rparr> =
           get_messages env' (poller_canister_id p) \<lparr>get_nonce = next_message_nonce p\<rparr>"
    and "agent_error_debug env = agent_error_debug env'"
  shows "poll_canister env p = poll_canister env' p"
  unfolding poll_canister_def assms ..

lemma poll_and_relay_io_eq:
  assumes "ask io (poller_canister_id p) \<lparr>get_nonce = next_message_nonce p\<rparr> w = (call, w')"
  shows "poll_and_relay_io io p clients chs w = (poll_and_relay (answered_env io call w') p clients chs, w')"
  using assms by (simp add: poll_and_relay_io_def poll_canister_io_def poll_and_relay_def Let_def)

lemma run_iteration_io_eq:
  assumes "ask io (poller_canister_id p) \<lparr>get_nonce = next_message_nonce p\<rparr> w = (call, w')"
  shows "run_iteration_io io p g chs w = (run_iteration (answered_env io call w') p g chs, w')"
  by (simp add: run_iteration_io_def run_iteration_def poll_and_relay_io_eq [OF assms] Let_def)

section \<open>The machine alone\<close>

type_synonym poller_config = "poller_task \<times> GatewayState \<times> channels"

inductive small :: "poller_env \<Rightarrow> poller_config \<Rightarrow> poller_config \<Rightarrow> bool" for env where
  smallI: "poller_step env t g chs = Some s' \<Longrightarrow> small env (t, g, chs) s'"

inductive_simps small_iff: "small env (t, g, chs) s'"

text \<open>Steps from a configuration that is not at rest.\<close>

definition busy_step :: "poller_env \<Rightarrow> poller_config \<Rightarrow> poller_config \<Rightarrow> bool" where
  "busy_step env s s' \<longleftrightarrow> \<not> at_rest (pc (fst s)) \<and> small env s s'"

definition halted :: "poller_env \<Rightarrow> poller_config \<Rightarrow> bool" where
  "halted env s \<longleftrightarrow> (\<forall>s'. \<not> busy_step env s s')"

lemma small_det: "small env s s1 \<Longrightarrow> small env s s2 \<Longrightarrow> s1 = s2"
  by (cases s) (simp add: small_iff)

lemma busy_step_det: "busy_step env s s1 \<Longrightarrow> busy_step env s s2 \<Longrightarrow> s1 = s2"
  by (auto simp: busy_step_def dest: small_det)

lemma at_rest_halted: "at_rest (pc (fst s)) \<Longrightarrow> halted env s"
  by (simp add: halted_def busy_step_def)

lemma halted_stays: "(busy_step env)\<^sup>*\<^sup>* s v \<Longrightarrow> halted env s \<Longrightarrow> v = s"
  by (induction rule: converse_rtranclp_induct) (auto simp: halted_def)

lemma halted_reached:
  "(busy_step env)\<^sup>*\<^sup>* s u \<Longrightarrow> (busy_step env)\<^sup>*\<^sup>* s v \<Longrightarrow> halted env u \<Longrightarrow> (busy_step env)\<^sup>*\<^sup>* v u"
proof (induction rule: converse_rtranclp_induct)
  case base
  then show ?case using halted_stays by blast
next
  case (step s s')
  from step.prems(1) show ?case
  proof (cases rule: converse_rtranclpE)
    case base
    with step.hyps show ?thesis by (auto intro: converse_rtranclp_into_rtranclp)
  next
    case (step s'')
    with \<open>busy_step env s s'\<close> have "s'' = s'" by (blast dest: busy_step_det)
    with step(2) step.IH \<open>halted env u\<close> show ?thesis by blast
  qed
qed

lemma halted_unique:
  "(busy_step env)\<^sup>*\<^sup>* s u \<Longrightarrow> (busy_step env)\<^sup>*\<^sup>* s v \<Longrightarrow> halted env u \<Longrightarrow> halted env v \<Longrightarrow> u = v"
  using halted_reached halted_stays by blast

lemma busy_intro:
  "\<not> at_rest (pc t) \<Longrightarrow> poller_step env t g chs = Some s' \<Longrightarrow> (busy_step env)\<^sup>*\<^sup>* s' u
     \<Longrightarrow> (busy_step env)\<^sup>*\<^sup>* (t, g, chs) u"
  by (rule converse_rtranclp_into_rtranclp [of _ _ s']) (simp_all add: busy_step_def small_iff)

lemma at_rest_simps [simp]:
  "at_rest PollerLoop" "at_rest (PollerDone r)" "\<not> at_rest (PollerRelaying ms crt tr eoq)"
  "\<not> at_rest PollerPolled" "\<not> at_rest (PollerSleeping d)" "\<not> at_rest PollerChecking"
  "\<not> at_rest (PollerFailed e)"
  by (simp_all add: at_rest_def)

lemma relaying_run:
  "relay_messages (arcs g (poller_state p)) crt tr ms chs = (rest, chs') \<Longrightarrow>
     (busy_step env)\<^sup>*\<^sup>* (\<lparr>poller = p, pc = PollerRelaying ms crt tr eoq\<rparr>, g, chs)
                        (\<lparr>poller = p, pc = PollerRelaying rest crt tr eoq\<rparr>, g, chs')"
proof (induction ms arbitrary: chs)
  case (Cons m ms)
  then show ?case
    by (cases "relay_output_message (arcs g (poller_state p)) crt tr m chs")
      (auto simp: poller_step_def intro: busy_intro)
qed simp

lemma relay_messages_stuck:
  "relay_messages clients crt tr ms chs = (m # rest, chs') \<Longrightarrow>
     relay_output_message clients crt tr m chs' = None"
  by (induction ms arbitrary: chs) (auto split: option.splits)

lemma relaying_halted:
  assumes "relay_messages (arcs g (poller_state p)) crt tr ms chs = (m # rest, chs')"
  shows "halted env (\<lparr>poller = p, pc = PollerRelaying (m # rest) crt tr eoq\<rparr>, g, chs')"
  using relay_messages_stuck [OF assms] by (simp add: halted_def busy_step_def small_iff poller_step_def)

text \<open>The end of an iteration, from the point at which the relaying or the sleep is over.\<close>

definition finish_iteration ::
  "CanisterPoller \<Rightarrow> GatewayState \<Rightarrow> channels \<Rightarrow> poller_config" where
  "finish_iteration p g chs =
     (case poller_should_terminate p g of
        (True, g2) \<Rightarrow> (\<lparr>poller = p, pc = PollerDone (Ok ())\<rparr>, g2, chs)
      | (False, g2) \<Rightarrow>
          (\<lparr>poller = p\<lparr>polling_iteration := polling_iteration p + 1\<rparr>, pc = PollerLoop\<rparr>, g2, chs))"

definition fail_iteration ::
  "string \<Rightarrow> CanisterPoller \<Rightarrow> GatewayState \<Rightarrow> channels \<Rightarrow> poller_config" where
  "fail_iteration e p g chs =
     (case remove_failed_canister (poller_canister_id p) g of
        (Panic m, g2) \<Rightarrow> (\<lparr>poller = p, pc = PollerDone (Panic m)\<rparr>, g2, chs)
      | (_, g2) \<Rightarrow> (\<lparr>poller = p, pc = PollerDone (Err e)\<rparr>, g2, chs))"

definition sleep_iteration ::
  "poller_env \<Rightarrow> CanisterPoller \<Rightarrow> GatewayState \<Rightarrow> channels \<Rightarrow> poller_config" where
  "sleep_iteration env p g chs =
     (case sleep_after env p of
        Ok _ \<Rightarrow> finish_iteration p g chs
      | Err e \<Rightarrow> fail_iteration e p g chs
      | Panic m \<Rightarrow> (\<lparr>poller = p, pc = PollerDone (Panic m)\<rparr>, g, chs))"

lemma finish_run:
  "(busy_step env)\<^sup>*\<^sup>* (\<lparr>poller = p, pc = PollerChecking\<rparr>, g, chs) (finish_iteration p g chs)"
  by (rule busy_intro [OF _ _ rtranclp.rtrancl_refl])
    (auto simp: poller_step_def finish_iteration_def Let_def split: prod.splits bool.splits)

lemma fail_run:
  "(busy_step env)\<^sup>*\<^sup>* (\<lparr>poller = p, pc = PollerFailed e\<rparr>, g, chs) (fail_iteration e p g chs)"
  by (rule busy_intro [OF _ _ rtranclp.rtrancl_refl])
    (auto simp: poller_step_def fail_iteration_def Let_def split: prod.splits outcome.splits)

lemma sleep_run:
  "(busy_step env)\<^sup>*\<^sup>* (\<lparr>poller = p, pc = PollerPolled\<rparr>, g, chs) (sleep_iteration env p g chs)"
proof (cases "compute_effective_polling_interval p (elapsed env)")
  case None
  then show ?thesis
    by (intro busy_intro [OF _ _ rtranclp.rtrancl_refl])
      (simp_all add: poller_step_def sleep_iteration_def sleep_after_def)
next
  case (Some d)
  have "(busy_step env)\<^sup>*\<^sup>* (\<lparr>poller = p, pc = PollerSleeping d\<rparr>, g, chs) (finish_iteration p g chs)"
    by (rule busy_intro [OF _ _ finish_run]) (simp_all add: poller_step_def)
  with Some show ?thesis
    by (intro busy_intro) (simp_all add: poller_step_def sleep_iteration_def sleep_after_def)
qed

lemma iteration_at_rest [simp]:
  "at_rest (pc (fst (finish_iteration p g chs)))"
  "at_rest (pc (fst (fail_iteration e p g chs)))"
  "at_rest (pc (fst (sleep_iteration env p g chs)))"
  by (auto simp: finish_iteration_def fail_iteration_def sleep_iteration_def
      split: prod.splits bool.splits outcome.splits)

lemma run_iteration_parts:
  assumes "poller_state p' = poller_state p" "poller_canister_id p' = poller_canister_id p"
    and "poll_and_relay env p (arcs g (poller_state p)) chs = Some (r, p', chs')"
    and "g1 = set_clients_gauge (poller_canister_id p) (dm_len (arcs g (poller_state p))) g"
  shows "run_iteration env p g chs = Some
    (case r of
       Ok _ \<Rightarrow> finish_iteration p' g1 chs'
     | Err e \<Rightarrow> fail_iteration e p' g1 chs'
     | Panic m \<Rightarrow> (\<lparr>poller = p', pc = PollerDone (Panic m)\<rparr>, g1, chs'))"
  using assms
  by (auto simp: run_iteration_def end_iteration_def Let_def finish_iteration_def fail_iteration_def
      split: outcome.splits prod.splits bool.splits)

lemma polled_iteration_runs:
  fixes g :: GatewayState
  assumes "poll_canister env p = Inr (MessagesPolled out)"
    and g1: "g1 = set_clients_gauge (poller_canister_id p) (dm_len (arcs g (poller_state p))) g"
  shows "\<exists>u. (busy_step env)\<^sup>*\<^sup>* (poll_and_relay_start env p, g1, chs) u \<and> halted env u \<and>
           run_iteration env p g chs = (if at_rest (pc (fst u)) then Some u else None)"
proof -
  define eoq where "eoq = (case is_end_of_queue out of None \<Rightarrow> True | Some b \<Rightarrow> b)"
  obtain r p' where upd: "update_nonce out p = (r, p')" by force
  have p': "poller_state p' = poller_state p" "poller_canister_id p' = poller_canister_id p"
    using upd by (auto simp: update_nonce_def Let_def split: prod.splits)
  obtain rest chs' where rel: "relay_messages (arcs g (poller_state p)) (cert out) (tree out) (messages out) chs
      = (rest, chs')" by force
  then have rel': "relay_messages (arcs g1 (poller_state p')) (cert out) (tree out) (messages out) chs
      = (rest, chs')" by (simp add: p' g1)
  note run = relaying_run [OF rel', of env eoq]
  show ?thesis
  proof (cases r)
    case (Inl e)
    then have "run_iteration env p g chs = Some (fail_iteration e p' g1 chs)"
      using assms(1) upd
      by (subst run_iteration_parts [OF p' _ refl, where r = "Err e"])
        (simp_all add: poll_and_relay_def relay_polled_def g1)
    moreover have "poll_and_relay_start env p = \<lparr>poller = p', pc = PollerFailed e\<rparr>"
      using assms(1) upd Inl by (simp add: poll_and_relay_start_def)
    ultimately show ?thesis
      using fail_run [of env p' e g1 chs] by (intro exI conjI) (auto intro: at_rest_halted)
  next
    case (Inr x)
    have start: "poll_and_relay_start env p =
        \<lparr>poller = p', pc = PollerRelaying (messages out) (cert out) (tree out) eoq\<rparr>"
      using assms(1) upd Inr by (simp add: poll_and_relay_start_def eoq_def)
    show ?thesis
    proof (cases rest)
      case (Cons m ms)
      have "run_iteration env p g chs = None"
        using assms(1) upd Inr rel Cons by (simp add: run_iteration_def poll_and_relay_def relay_polled_def)
      with run relaying_halted [OF rel' [unfolded Cons], of env eoq] start Cons show ?thesis
        by (intro exI conjI) auto
    next
      case Nil
      define u where "u = (if eoq then sleep_iteration env p' g1 chs' else finish_iteration p' g1 chs')"
      have "run_iteration env p g chs = Some u"
        using assms(1) upd Inr rel Nil
        by (subst run_iteration_parts [OF p' _ refl,
              where r = "if \<not> eoq then Ok () else sleep_after env p'"])
          (auto simp: poll_and_relay_def relay_polled_def g1 u_def eoq_def sleep_iteration_def split: option.splits)
      moreover have "(busy_step env)\<^sup>*\<^sup>*
          (\<lparr>poller = p', pc = PollerRelaying [] (cert out) (tree out) eoq\<rparr>, g1, chs') u"
        using finish_run [of env p' g1 chs'] sleep_run [of env p' g1 chs']
        by (intro busy_intro [of _ env]) (auto simp: poller_step_def u_def)
      ultimately show ?thesis
        using rtranclp_trans [OF run [unfolded Nil]] start
        by (intro exI [of _ u]) (auto intro: at_rest_halted simp: u_def)
    qed
  qed
qed

text \<open>The machine comes to a halt, at rest just when the iteration in one piece has a result.\<close>

lemma iteration_runs:
  "\<exists>s1 u. small env (\<lparr>poller = p, pc = PollerLoop\<rparr>, g, chs) s1 \<and> (busy_step env)\<^sup>*\<^sup>* s1 u \<and>
     halted env u \<and> run_iteration env p g chs = (if at_rest (pc (fst u)) then Some u else None)"
proof -
  let ?clients = "arcs g (poller_state p)"
  let ?g1 = "set_clients_gauge (poller_canister_id p) (dm_len ?clients) g"
  let ?s1 = "(poll_and_relay_start env p, ?g1, chs)"
  have first: "small env (\<lparr>poller = p, pc = PollerLoop\<rparr>, g, chs) ?s1"
    by (simp add: small_iff poller_step_def Let_def)
  have "\<exists>u. (busy_step env)\<^sup>*\<^sup>* ?s1 u \<and> halted env u \<and>
          run_iteration env p g chs = (if at_rest (pc (fst u)) then Some u else None)"
  proof (cases "poll_canister env p")
    case (Inl e)
    then have "run_iteration env p g chs = Some (fail_iteration e p ?g1 chs)"
      by (subst run_iteration_parts [OF refl refl _ refl, where r = "Err e"])
        (simp_all add: poll_and_relay_def relay_polled_def)
    moreover have "poll_and_relay_start env p = \<lparr>poller = p, pc = PollerFailed e\<rparr>"
      using Inl by (simp add: poll_and_relay_start_def)
    ultimately show ?thesis
      using fail_run [of env p e ?g1 chs] by (intro exI conjI) (auto intro: at_rest_halted)
  next
    case (Inr status)
    show ?thesis
    proof (cases status)
      case NoMessagesPolled
      have "run_iteration env p g chs = Some (sleep_iteration env p ?g1 chs)"
        using Inr NoMessagesPolled
        by (subst run_iteration_parts [OF refl refl _ refl, where r = "sleep_after env p"])
          (simp_all add: poll_and_relay_def relay_polled_def sleep_iteration_def)
      moreover have "poll_and_relay_start env p = \<lparr>poller = p, pc = PollerPolled\<rparr>"
        using Inr NoMessagesPolled by (simp add: poll_and_relay_start_def)
      ultimately show ?thesis
        using sleep_run [of env p ?g1 chs] by (intro exI conjI) (auto intro: at_rest_halted)
    next
      case TimedOut
      have "run_iteration env p g chs = Some (finish_iteration p ?g1 chs)"
        using Inr TimedOut
        by (subst run_iteration_parts [OF refl refl _ refl, where r = "Ok ()"])
          (simp_all add: poll_and_relay_def relay_polled_def)
      moreover have "poll_and_relay_start env p = \<lparr>poller = p, pc = PollerChecking\<rparr>"
        using Inr TimedOut by (simp add: poll_and_relay_start_def)
      ultimately show ?thesis
        using finish_run [of env p ?g1 chs] by (intro exI conjI) (auto intro: at_rest_halted)
    next
      case (MessagesPolled out)
      show ?thesis using polled_iteration_runs [OF _ refl, of env p out g chs] Inr MessagesPolled by simp
    qed
  qed
  with first show ?thesis by blast
qed

section \<open>The equivalence\<close>

text \<open>
  C19: the loop body of \<open>run_polling\<close>, read in one piece, and the machine whose steps other tasks can
  interleave with agree. Left alone from the top of its loop, the poller comes to rest in a state
  (back at the top, or with its task over) exactly when the body computes that state; when the body
  has no result since a channel has no room, the machine never comes to rest.
\<close>

theorem iteration_equivalence:
  "run_iteration env p g chs = Some s' \<longleftrightarrow>
     (\<exists>s1. small env (\<lparr>poller = p, pc = PollerLoop\<rparr>, g, chs) s1 \<and> (busy_step env)\<^sup>*\<^sup>* s1 s' \<and>
           at_rest (pc (fst s')))"
proof -
  obtain s1 u where s1: "small env (\<lparr>poller = p, pc = PollerLoop\<rparr>, g, chs) s1"
    and u: "(busy_step env)\<^sup>*\<^sup>* s1 u" "halted env u"
    and r: "run_iteration env p g chs = (if at_rest (pc (fst u)) then Some u else None)"
    using iteration_runs by blast
  show ?thesis
  proof
    assume "run_iteration env p g chs = Some s'"
    with s1 u r show "\<exists>s1. small env (\<lparr>poller = p, pc = PollerLoop\<rparr>, g, chs) s1 \<and>
        (busy_step env)\<^sup>*\<^sup>* s1 s' \<and> at_rest (pc (fst s'))"
      by (intro exI [of _ s1]) (auto split: if_splits)
  next
    assume "\<exists>s1. small env (\<lparr>poller = p, pc = PollerLoop\<rparr>, g, chs) s1 \<and>
        (busy_step env)\<^sup>*\<^sup>* s1 s' \<and> at_rest (pc (fst s'))"
    then obtain s2 where s2: "small env (\<lparr>poller = p, pc = PollerLoop\<rparr>, g, chs) s2"
        "(busy_step env)\<^sup>*\<^sup>* s2 s'" and rest: "at_rest (pc (fst s'))"
      by blast
    with s1 have "(busy_step env)\<^sup>*\<^sup>* s1 s'" using small_det by blast
    with u rest have "u = s'" using halted_unique at_rest_halted by blast
    with r rest show "run_iteration env p g chs = Some s'" by simp
  qed
qed

end
