(* ===== verification/Poller_Tests.thy ===== *)
theory Poller_Tests
  imports Poller_Big_Step
begin

text \<open>
  The unit tests of the poller (\<open>src/ic-websocket-gateway/src/tests/canister_poller.rs\<close>), against a mock
  server that always answers with the body it was given and counts the requests, of which each test
  expects a number. The candid codec is a parameter; so are the times a test takes, which decide whether its bounds on them hold: those until the poller looks at the
  clock, and what the runtime adds to a sleep.
\<close>

section \<open>The mocks\<close>

definition mock_n :: "nat \<Rightarrow> nat \<Rightarrow> CanisterOutputCertifiedMessages" where
  "mock_n n base_nonce =
     \<lparr>messages = map (\<lambda>off_nonce. mock_message (of_nat (base_nonce + off_nonce))) [0..<n],
      cert = [], tree = [], is_end_of_queue = Some True\<rparr>"

definition mock_with_key_error :: CanisterOutputMessage where
  "mock_with_key_error =
     \<lparr>out_client_key = ClientKey_new (Principal [4]) 0, out_key = ''_not-a-u64'', out_content = []\<rparr>"

definition mock_n_with_key_error :: "nat \<Rightarrow> nat \<Rightarrow> CanisterOutputCertifiedMessages" where
  "mock_n_with_key_error n base_nonce =
     (let canister_msgs = mock_n (n - 1) base_nonce
      in canister_msgs\<lparr>messages := messages canister_msgs @ [mock_with_key_error]\<rparr>)"

definition mock_n_with_not_end_of_queue :: "nat \<Rightarrow> nat \<Rightarrow> CanisterOutputCertifiedMessages" where
  "mock_n_with_not_end_of_queue n base_nonce = (mock_n n base_nonce)\<lparr>is_end_of_queue := Some False\<rparr>"

text \<open>A poller with one client, whose channel it sends to, on a gateway state of its own.\<close>

definition create_poller :: "u64 \<Rightarrow> chan_id \<Rightarrow> (CanisterPoller \<times> GatewayState, string) outcome" where
  "create_poller interval_ms client_channel_tx =
     (case insert_client_channel_and_get_new_poller_state (Principal [4]) (ClientKey_new (Principal [4]) 0)
             client_channel_tx GatewayState_new of
        (None, g) \<Rightarrow> Panic ''must be some''
      | (Some r, g) \<Rightarrow> Ok (CanisterPoller_new (Principal [4]) r interval_ms, g))"

text \<open>
  The mock server has one body for all requests, the number of them that the test expects, which
  \<open>assert_async\<close> checks, and those it has got.
\<close>

record mock =
  mock_body :: bytes
  expected_hits :: nat
  hits :: nat

definition mock_expect :: "bytes \<Rightarrow> nat \<Rightarrow> mock" where
  "mock_expect body n = \<lparr>mock_body = body, expected_hits = n, hits = 0\<rparr>"

definition mock_get :: "string \<Rightarrow> mock \<Rightarrow> (string + (string + bytes)) \<times> mock" where
  "mock_get url m = (Inr (Inr (mock_body m)), m\<lparr>hits := hits m + 1\<rparr>)"

definition mock_assert :: "mock \<Rightarrow> bool" where
  "mock_assert m \<longleftrightarrow> hits m = expected_hits m"

text \<open>
  What the poller gets from the mock server, and when, is what \<open>ws_get_messages\<close> of the mock feature
  makes of the body; its panics do not occur, since the server answers.
\<close>

definition mock_ask ::
  "(bytes \<Rightarrow> string + CanisterOutputCertifiedMessages) \<Rightarrow> duration \<Rightarrow> Principal \<Rightarrow> CanisterWsGetMessagesArguments
     \<Rightarrow> mock \<Rightarrow> (duration \<times> (IcError + CanisterOutputCertifiedMessages)) \<times> mock" where
  "mock_ask decode answered c args m =
     (case ws_get_messages_mock mock_get decode c args m of
        (Ok out, m') \<Rightarrow> ((answered, Inr out), m')
      | (Err e, m') \<Rightarrow> ((answered, Inl e), m')
      | (Panic s, m') \<Rightarrow> ((answered, Inl (Candid s)), m'))"

text \<open>The poller against the mock; when it looks at the clock may depend on the iteration.\<close>

definition mock_io ::
  "(bytes \<Rightarrow> string + CanisterOutputCertifiedMessages) \<Rightarrow> duration \<Rightarrow> (nat \<Rightarrow> duration) \<Rightarrow> mock poller_io" where
  "mock_io decode answered looked =
     \<lparr>ask = mock_ask decode answered, show_agent_error = (\<lambda>_. []), looks_at_clock = (\<lambda>m. looked (hits m))\<rparr>"

text \<open>The environment of a poller that asks the mock: every request is answered, and counted.\<close>

definition mock_answer ::
  "(bytes \<Rightarrow> string + CanisterOutputCertifiedMessages) \<Rightarrow> bytes \<Rightarrow> IcError + CanisterOutputCertifiedMessages" where
  "mock_answer decode body = (case decode body of Inl e \<Rightarrow> Inl (Candid e) | Inr out \<Rightarrow> Inr out)"

definition mock_server ::
  "(bytes \<Rightarrow> string + CanisterOutputCertifiedMessages) \<Rightarrow> bytes \<Rightarrow> duration \<Rightarrow> duration \<Rightarrow> poller_env" where
  "mock_server decode body answered looked =
     \<lparr>get_messages = (\<lambda>_ _. (answered, mock_answer decode body)), agent_error_debug = (\<lambda>_. []),
      elapsed = looked\<rparr>"

lemma mock_answer_get:
  "ws_get_messages_mock mock_get decode c args m =
     (case mock_answer decode (mock_body m) of Inl e \<Rightarrow> Err e | Inr out \<Rightarrow> Ok out, m\<lparr>hits := hits m + 1\<rparr>)"
  by (simp add: ws_get_messages_mock_def mock_answer_def mock_get_def split: sum.split)

lemma mock_ask_eq:
  "mock_ask decode answered c args m = ((answered, mock_answer decode (mock_body m)), m\<lparr>hits := hits m + 1\<rparr>)"
  by (simp add: mock_ask_def mock_answer_get split: sum.split)

lemma mock_io_env:
  "answered_env (mock_io decode answered looked) (answered, mock_answer decode body) m =
     mock_server decode body answered (looked (hits m))"
  by (simp add: answered_env_def mock_io_def mock_server_def)

lemma mock_poll_canister:
  "poll_canister_io (mock_io decode answered looked) p m =
     (let env = mock_server decode (mock_body m) answered (looked (hits m + 1))
      in (poll_canister env p, env, m\<lparr>hits := hits m + 1\<rparr>))"
  using mock_io_env [of decode answered looked "mock_body m" "m\<lparr>hits := hits m + 1\<rparr>"]
  by (simp add: poll_canister_io_def mock_io_def mock_ask_eq Let_def)

lemma mock_poll_and_relay:
  "poll_and_relay_io (mock_io decode answered looked) p clients chs m =
     (poll_and_relay (mock_server decode (mock_body m) answered (looked (hits m + 1))) p clients chs,
      m\<lparr>hits := hits m + 1\<rparr>)"
  by (simp add: poll_and_relay_io_def mock_poll_canister poll_and_relay_def Let_def)

lemma mock_run_iteration:
  "run_iteration_io (mock_io decode answered looked) p g chs m =
     (run_iteration (mock_server decode (mock_body m) answered (looked (hits m + 1))) p g chs,
      m\<lparr>hits := hits m + 1\<rparr>)"
  by (simp add: run_iteration_io_def mock_poll_and_relay run_iteration_def Let_def)

section \<open>Time\<close>

text \<open>
  How long \<open>poll_and_relay\<close> takes: until the poller looks at the clock, and, unless it polls again at
  once, the effective interval. None is the panic of a negative duration.
\<close>

definition poll_and_relay_time :: "'w poller_io \<Rightarrow> CanisterPoller \<Rightarrow> 'w \<Rightarrow> duration option" where
  "poll_and_relay_time io p w =
     (let (polled, env, w') = poll_canister_io io p w;
          slept = map_option (\<lambda>d. elapsed env + d) (compute_effective_polling_interval p (elapsed env)) in
      case polled of
        Inr (MessagesPolled out) \<Rightarrow> if is_end_of_queue out = Some False then Some (elapsed env) else slept
      | Inr NoMessagesPolled \<Rightarrow> slept
      | _ \<Rightarrow> Some (elapsed env))"

lemma slept_max:
  "map_option (\<lambda>d. e + d) (compute_effective_polling_interval p e) =
     Some (max e (from_millis (polling_interval_ms p)))"
  by (auto simp: compute_effective_polling_interval_def duration_sub_def from_millis_def Let_def max_def)

section \<open>The tests\<close>

definition test_msg_count :: nat where
  "test_msg_count = 10"

definition test_interval_ms :: u64 where
  "test_interval_ms = 100"

text \<open>The keys of messages hold the nonces from zero on.\<close>

definition nonces_in_order :: "string list \<Rightarrow> bool" where
  "nonces_in_order keys \<longleftrightarrow>
     list_all (\<lambda>(i, key). get_nonce_from_message key = Inr (of_nat i)) (enumerate 0 keys)"

definition should_poll_and_validate_nonces ::
  "(CanisterOutputCertifiedMessages \<Rightarrow> bytes) \<Rightarrow> (bytes \<Rightarrow> string + CanisterOutputCertifiedMessages) \<Rightarrow> bool" where
  "should_poll_and_validate_nonces encode decode =
     (let m = mock_expect (encode (mock_n test_msg_count 0)) 1 in
      case ws_get_messages_mock mock_get decode (Principal [4]) \<lparr>get_nonce = 0\<rparr> m of
        (Ok res, m') \<Rightarrow>
          length (messages res) = test_msg_count \<and> nonces_in_order (map out_key (messages res)) \<and> mock_assert m'
      | _ \<Rightarrow> False)"

definition should_poll_and_fail_to_validate_last_nonce ::
  "(CanisterOutputCertifiedMessages \<Rightarrow> bytes) \<Rightarrow> (bytes \<Rightarrow> string + CanisterOutputCertifiedMessages) \<Rightarrow> bool" where
  "should_poll_and_fail_to_validate_last_nonce encode decode =
     (let m = mock_expect (encode (mock_n_with_key_error test_msg_count 0)) 1 in
      case ws_get_messages_mock mock_get decode (Principal [4]) \<lparr>get_nonce = 0\<rparr> m of
        (Ok res, m') \<Rightarrow>
          list_all (\<lambda>(i, msg).
              if i = test_msg_count - 1 then (\<exists>e. get_nonce_from_message (out_key msg) = Inl e)
              else get_nonce_from_message (out_key msg) = Inr (of_nat i))
            (enumerate 0 (messages res)) \<and> mock_assert m'
      | _ \<Rightarrow> False)"

text \<open>
  The common part of the two tests of sleeping: a poller relays the messages of one iteration into the
  channel of its client, from which the test receives them, the time of the iteration is checked, and
  the mock has got the requests it expects.
\<close>

definition relays_and_takes :: "mock poller_io \<Rightarrow> mock \<Rightarrow> duration \<Rightarrow> (duration \<Rightarrow> bool) \<Rightarrow> bool" where
  "relays_and_takes io m late time_ok =
     (case create_poller test_interval_ms 0 of
        Ok (p, g) \<Rightarrow>
          (case poll_and_relay_io io p (arcs g (poller_state p)) ((\<lambda>_. no_channel)(0 := new_channel)) m of
             (Some (Ok _, _, chs), m') \<Rightarrow>
               length (queue (chs 0)) = test_msg_count \<and> nonces_in_order (map msg_key (queue (chs 0))) \<and>
               (case poll_and_relay_time io p m of Some t \<Rightarrow> time_ok (t + late) | None \<Rightarrow> False) \<and>
               mock_assert m'
           | _ \<Rightarrow> False)
      | _ \<Rightarrow> False)"

definition should_sleep_after_relaying ::
  "(CanisterOutputCertifiedMessages \<Rightarrow> bytes) \<Rightarrow> (bytes \<Rightarrow> string + CanisterOutputCertifiedMessages)
     \<Rightarrow> duration \<Rightarrow> duration \<Rightarrow> duration \<Rightarrow> bool" where
  "should_sleep_after_relaying encode decode answered looked late =
     relays_and_takes (mock_io decode answered (\<lambda>_. looked)) (mock_expect (encode (mock_n test_msg_count 0)) 1) late
       (\<lambda>t. from_millis test_interval_ms < t \<and> t < from_millis 110)"

definition should_not_sleep_after_relaying ::
  "(CanisterOutputCertifiedMessages \<Rightarrow> bytes) \<Rightarrow> (bytes \<Rightarrow> string + CanisterOutputCertifiedMessages)
     \<Rightarrow> duration \<Rightarrow> duration \<Rightarrow> duration \<Rightarrow> bool" where
  "should_not_sleep_after_relaying encode decode answered looked late =
     relays_and_takes (mock_io decode answered (\<lambda>_. looked))
       (mock_expect (encode (mock_n_with_not_end_of_queue test_msg_count 0)) 1)
       late (\<lambda>t. t < from_millis test_interval_ms)"

text \<open>
  The server sends an empty body, ten milliseconds after the time-out of the poller, which asks it
  twice: once for the status, once for an iteration.
\<close>

definition should_not_sleep_after_timeout ::
  "(bytes \<Rightarrow> string + CanisterOutputCertifiedMessages) \<Rightarrow> duration \<Rightarrow> duration \<Rightarrow> bool" where
  "should_not_sleep_after_timeout decode looked late =
     (let io = mock_io decode (from_millis (POLLING_TIMEOUT_MS + 10)) (\<lambda>_. looked) in
      case create_poller test_interval_ms 0 of
        Ok (p, g) \<Rightarrow>
          (case poll_canister_io io p (mock_expect [] 2) of
             (status, _, m) \<Rightarrow>
               status = Inr TimedOut \<and>
               (case poll_and_relay_io io p (arcs g (poller_state p)) (\<lambda>_. no_channel) m of
                  (Some (Ok _, _, _), m') \<Rightarrow>
                    (case poll_and_relay_time io p m of
                       Some t \<Rightarrow> t + late < from_millis (POLLING_TIMEOUT_MS + test_interval_ms)
                     | None \<Rightarrow> False) \<and>
                    mock_assert m'
                | _ \<Rightarrow> False))
      | _ \<Rightarrow> False)"

text \<open>
  The poller runs until it ends, in its second iteration; the receiver of the test takes what it
  relayed, and the end of the channel, since the sender went with the canister and the poller.
\<close>

definition should_terminate_polling_with_error ::
  "(CanisterOutputCertifiedMessages \<Rightarrow> bytes) \<Rightarrow> (bytes \<Rightarrow> string + CanisterOutputCertifiedMessages)
     \<Rightarrow> duration \<Rightarrow> (nat \<Rightarrow> duration) \<Rightarrow> bool" where
  "should_terminate_polling_with_error encode decode answered looked =
     (case create_poller test_interval_ms 0 of
        Ok (p, g) \<Rightarrow>
          (case run_polling (mock_io decode answered looked) p g ((\<lambda>_. no_channel)(0 := new_channel))
                  (mock_expect (encode (mock_n test_msg_count 0)) 2) of
             Some (res, g', chs, m') \<Rightarrow>
               length (queue (chs 0)) = test_msg_count \<and> nonces_in_order (map msg_key (queue (chs 0))) \<and>
               dm_get (data g') (Principal [4]) = None \<and>
               res = Err (''Non consecutive nonce: expected '' @ show_nat test_msg_count @ '', got 0'') \<and>
               mock_assert m'
           | None \<Rightarrow> False)
      | _ \<Rightarrow> False)"

section \<open>The tests pass\<close>

lemma relay_messages_all:
  assumes "dm_get clients k = Some \<lparr>sender = tx\<rparr>" and "rx_open (chs tx)"
  shows "\<forall>m \<in> set ms. out_client_key m = k \<Longrightarrow> length (queue (chs tx)) + length ms \<le> CHANNEL_CAPACITY \<Longrightarrow>
           relay_messages clients crt tr ms chs =
             ([], chs(tx := (chs tx)\<lparr>queue := queue (chs tx) @ map (to_client_message crt tr) ms\<rparr>))"
  using assms(2)
proof (induction ms arbitrary: chs)
  case (Cons m ms)
  let ?chs = "chs(tx := (chs tx)\<lparr>queue := queue (chs tx) @ [to_client_message crt tr m]\<rparr>)"
  have "relay_output_message clients crt tr m chs = Some ?chs"
    using assms(1) Cons.prems by (simp add: relay_output_message_def relay_message_def channel_send_def)
  moreover have "relay_messages clients crt tr ms ?chs =
      ([], ?chs(tx := (?chs tx)\<lparr>queue := queue (?chs tx) @ map (to_client_message crt tr) ms\<rparr>))"
    by (rule Cons.IH) (use Cons.prems in simp_all)
  moreover have "?chs tx = (chs tx)\<lparr>queue := queue (chs tx) @ [to_client_message crt tr m]\<rparr>" by simp
  ultimately show ?case by (simp del: fun_upd_apply)
qed simp

lemma mock_n_sel [simp]:
  "messages (mock_n n 0) = map mock_message (nonces_from 0 n)"
  "cert (mock_n n b) = []" "tree (mock_n n b) = []" "is_end_of_queue (mock_n n b) = Some True"
proof -
  have "nonces_from 0 n = map of_nat [0..<n]" by (rule nth_equalityI) (simp_all add: nth_nonces_from)
  then show "messages (mock_n n 0) = map mock_message (nonces_from 0 n)" by (simp add: mock_n_def)
qed (simp_all add: mock_n_def)

lemma nonces_from_Nil [simp]: "nonces_from n k = [] \<longleftrightarrow> k = 0"
  by (cases k) simp_all

lemma nonces_in_order_mock:
  "nonces_in_order (map (\<lambda>n. out_key (mock_message n)) (nonces_from 0 k))"
  by (auto simp: nonces_in_order_def list_all_iff enumerate_eq_zip in_set_zip nth_nonces_from)

lemma update_nonce_mock:
  assumes "next_message_nonce p = 0" and "0 < n" and "n < 2 ^ 64" and "messages out = map mock_message (nonces_from 0 n)"
  shows "update_nonce out p = (Inr (), p\<lparr>next_message_nonce := of_nat n\<rparr>)"
proof -
  let ?ms = "map mock_message (nonces_from 0 n)"
  have ne: "?ms \<noteq> []" using assms(2) by simp
  have first: "first_nonce p (nonces_from 0 n) = 0"
    using assms(1,2) by (cases n) (simp_all add: first_nonce_def)
  have "unat (first_nonce p (nonces_from 0 n)) + length ?ms \<le> 2 ^ 64" using assms(3) by (simp add: first)
  note upd = update_nonce_loop_first [OF has_nonces_mock ne this, unfolded first assms(1) length_map length_nonces_from]
  from upd(1) upd(2) [OF refl] have "update_nonce_loop 0 ?ms = (Inr (), of_nat n)"
    by (cases "update_nonce_loop 0 ?ms") simp
  then show ?thesis by (simp add: update_nonce_def assms(1,4))
qed

lemma update_nonce_replayed:
  assumes "next_message_nonce p = of_nat n" and "1 < n" and "n < 2 ^ 64"
    and "messages out = map mock_message (nonces_from 0 n)"
  shows "update_nonce out p = (Inl (non_consecutive_error (of_nat n) 0), p)"
proof -
  obtain k where k: "n = Suc k" using assms(2) by (cases n) auto
  have "(of_nat n :: u64) \<noteq> 0" using assms(2,3) unat_u64_of_nat [of n] by (metis less_imp_neq not_one_less_zero unat_0)
  then show ?thesis using assms(1,4) by (simp add: update_nonce_def k)
qed

lemma create_poller_Ok:
  "create_poller i tx = Ok (CanisterPoller_new (Principal [4]) 0 i,
     snd (insert_client_channel_and_get_new_poller_state (Principal [4]) (ClientKey_new (Principal [4]) 0) tx GatewayState_new))"
  by (simp add: create_poller_def insert_client_channel_and_get_new_poller_state_def GatewayState_new_def Let_def)

text \<open>The new poller state has the one client, and is that of the canister.\<close>

definition test_gateway :: GatewayState where
  "test_gateway =
     snd (insert_client_channel_and_get_new_poller_state (Principal [4]) (ClientKey_new (Principal [4]) 0) 0
       GatewayState_new)"

definition test_poller :: CanisterPoller where
  "test_poller = CanisterPoller_new (Principal [4]) 0 test_interval_ms"

lemma create_test_poller: "create_poller test_interval_ms 0 = Ok (test_poller, test_gateway)"
  by (simp add: create_poller_Ok test_poller_def test_gateway_def)

lemma test_gateway_sel [simp]:
  "dm_get (arcs test_gateway 0) (ClientKey_new (Principal [4]) 0) = Some \<lparr>sender = 0\<rparr>"
  "dm_get (data test_gateway) (Principal [4]) = Some 0"
  by (simp_all add: test_gateway_def insert_client_channel_and_get_new_poller_state_def GatewayState_new_def Let_def)

lemma test_poller_sel [simp]:
  "poller_state test_poller = 0" "poller_canister_id test_poller = Principal [4]"
  "next_message_nonce test_poller = 0" "polling_interval_ms test_poller = test_interval_ms"
  by (simp_all add: test_poller_def CanisterPoller_new_def)

abbreviation test_channels :: channels where
  "test_channels \<equiv> (\<lambda>_. no_channel)(0 := new_channel)"

lemma relay_test_messages:
  assumes "n \<le> CHANNEL_CAPACITY"
  shows "relay_messages (arcs test_gateway 0) [] [] (map mock_message (nonces_from 0 n)) test_channels =
           ([], test_channels(0 := new_channel\<lparr>queue := map (to_client_message [] [] \<circ> mock_message) (nonces_from 0 n)\<rparr>))"
  using relay_messages_all [of "arcs test_gateway 0" "ClientKey_new (Principal [4]) 0" 0 test_channels
      "map mock_message (nonces_from 0 n)" "[]" "[]"] assms
  by (simp add: mock_message_def new_channel_def)

lemma sleep_after_Ok [simp]: "sleep_after env p = Ok ()"
  by (auto simp: sleep_after_def compute_effective_polling_interval_def duration_sub_def Let_def)

lemma poll_mock_server:
  assumes "mock_answer decode body = Inr out" and "messages out \<noteq> []"
    and "answered \<le> from_millis POLLING_TIMEOUT_MS"
  shows "poll_canister (mock_server decode body answered looked) p = Inr (MessagesPolled out)"
  using assms by (simp add: poll_canister_def mock_server_def timeout_def)

lemma test_poll_and_relay:
  assumes "mock_answer decode body = Inr out" and "messages out = map mock_message (nonces_from 0 test_msg_count)"
    and "cert out = []" "tree out = []" and "answered \<le> from_millis POLLING_TIMEOUT_MS"
  shows "poll_and_relay (mock_server decode body answered looked) test_poller (arcs test_gateway 0) test_channels =
           Some (Ok (), test_poller\<lparr>next_message_nonce := of_nat test_msg_count\<rparr>,
             test_channels(0 := new_channel\<lparr>queue :=
               map (to_client_message [] [] \<circ> mock_message) (nonces_from 0 test_msg_count)\<rparr>))"
proof -
  have ten: "0 < test_msg_count" "test_msg_count < 2 ^ 64" "test_msg_count \<le> CHANNEL_CAPACITY"
    by (simp_all add: test_msg_count_def CHANNEL_CAPACITY_def)
  then have "messages out \<noteq> []" using assms(2) by simp
  from poll_mock_server [OF assms(1) this assms(5)] update_nonce_mock [OF _ ten(1,2) assms(2), of test_poller]
    relay_test_messages [OF ten(3)] assms(2-4)
  show ?thesis by (simp add: poll_and_relay_def relay_polled_def)
qed

lemma received_in_order:
  "nonces_in_order (map msg_key (map (to_client_message [] [] \<circ> mock_message) (nonces_from 0 n)))"
  using nonces_in_order_mock [of n] by (simp add: comp_def to_client_message_def)

lemma relays_and_takes_mock:
  assumes "mock_answer decode body = Inr out" and "messages out = map mock_message (nonces_from 0 test_msg_count)"
    and "cert out = []" "tree out = []" and "answered \<le> from_millis POLLING_TIMEOUT_MS"
    and "is_end_of_queue out = Some b"
  shows "relays_and_takes (mock_io decode answered (\<lambda>_. looked)) (mock_expect body 1) late time_ok \<longleftrightarrow>
         time_ok ((if b then max looked (from_millis test_interval_ms) else looked) + late)"
proof -
  have "messages out \<noteq> []" using assms(2) by (simp add: test_msg_count_def)
  note polled = poll_mock_server [OF assms(1) this assms(5)]
  have "elapsed (mock_server decode body answered looked) = looked" by (simp add: mock_server_def)
  then have "poll_and_relay_time (mock_io decode answered (\<lambda>_. looked)) test_poller (mock_expect body 1) =
      Some (if b then max looked (from_millis test_interval_ms) else looked)"
    by (simp add: poll_and_relay_time_def mock_poll_canister mock_expect_def polled assms(6) slept_max Let_def)
  with test_poll_and_relay [OF assms(1-5)] received_in_order [of test_msg_count] show ?thesis
    by (simp add: relays_and_takes_def create_test_poller mock_poll_and_relay mock_expect_def mock_assert_def)
qed

lemma poll_late_server:
  "poll_canister (mock_server decode body (from_millis (POLLING_TIMEOUT_MS + 10)) looked) p = Inr TimedOut"
  by (simp add: poll_canister_def mock_server_def timeout_def from_millis_def POLLING_TIMEOUT_MS_def)

lemma mock_answer_decoded: "decode body = Inr out \<Longrightarrow> mock_answer decode body = Inr out"
  by (simp add: mock_answer_def)

lemma key_error_detected: "\<exists>e. get_nonce_from_message (out_key mock_with_key_error) = Inl e"
  by (simp add: mock_with_key_error_def get_nonce_from_message_def parse_u64_def digit_val_def)

lemma validates_nonces:
  "decode (encode (mock_n test_msg_count 0)) = Inr (mock_n test_msg_count 0) \<Longrightarrow>
     should_poll_and_validate_nonces encode decode"
  using nonces_in_order_mock [of test_msg_count]
  by (simp add: should_poll_and_validate_nonces_def mock_answer_get mock_answer_decoded mock_expect_def mock_assert_def comp_def)

lemma detects_key_error:
  assumes "decode (encode (mock_n_with_key_error test_msg_count 0)) = Inr (mock_n_with_key_error test_msg_count 0)"
  shows "should_poll_and_fail_to_validate_last_nonce encode decode"
proof -
  have "messages (mock_n_with_key_error test_msg_count 0) =
      map mock_message (nonces_from 0 (test_msg_count - 1)) @ [mock_with_key_error]"
    by (simp add: mock_n_with_key_error_def)
  then show ?thesis
    using assms key_error_detected
    by (auto simp: should_poll_and_fail_to_validate_last_nonce_def mock_answer_get mock_answer_decoded mock_expect_def mock_assert_def
        list_all_iff enumerate_eq_zip in_set_zip nth_append nth_nonces_from test_msg_count_def)
qed

lemma show_nat_0: "show_nat 0 = ''0''"
  by code_simp

lemma expected_error: "non_consecutive_error (of_nat test_msg_count) 0 =
    ''Non consecutive nonce: expected '' @ show_nat test_msg_count @ '', got 0''"
  by (simp add: non_consecutive_error_def show_u64_def test_msg_count_def show_nat_0)

text \<open>The two iterations of the last test.\<close>

lemma test_first_iteration:
  assumes "mock_answer decode body = Inr (mock_n test_msg_count 0)" and "answered \<le> from_millis POLLING_TIMEOUT_MS"
  shows "run_iteration (mock_server decode body answered looked) test_poller test_gateway test_channels =
     Some (\<lparr>poller = test_poller\<lparr>next_message_nonce := of_nat test_msg_count, polling_iteration := polling_iteration test_poller + 1\<rparr>,
             pc = PollerLoop\<rparr>,
           set_clients_gauge (Principal [4]) (dm_len (arcs test_gateway 0)) test_gateway,
           test_channels(0 := new_channel\<lparr>queue :=
             map (to_client_message [] [] \<circ> mock_message) (nonces_from 0 test_msg_count)\<rparr>))"
proof -
  have "\<not> dm_is_empty (arcs test_gateway 0)" using test_gateway_sel(1) by (metis dm_is_empty_iff option.distinct(1))
  with test_poll_and_relay [OF assms(1) _ _ _ assms(2)] show ?thesis
    by (simp add: run_iteration_def end_iteration_def Let_def poller_should_terminate_def remove_canister_if_empty_def
        del: fun_upd_apply)
qed

lemma test_second_iteration:
  assumes "mock_answer decode body = Inr (mock_n test_msg_count 0)" and "answered \<le> from_millis POLLING_TIMEOUT_MS"
    and "next_message_nonce p = of_nat test_msg_count" "poller_canister_id p = Principal [4]"
    and "dm_get (data g) (Principal [4]) = Some r"
  shows "\<exists>g'. run_iteration (mock_server decode body answered looked) p g chs =
           Some (\<lparr>poller = p, pc = PollerDone (Err (non_consecutive_error (of_nat test_msg_count) 0))\<rparr>, g', chs) \<and>
           dm_get (data g') (Principal [4]) = None"
proof -
  have ten: "1 < test_msg_count" "test_msg_count < 2 ^ 64" by (simp_all add: test_msg_count_def)
  then have "messages (mock_n test_msg_count 0) \<noteq> []" by simp
  note polled = poll_mock_server [OF assms(1) this assms(2)]
  have "poll_and_relay (mock_server decode body answered looked) p clients chs =
      Some (Err (non_consecutive_error (of_nat test_msg_count) 0), p, chs)" for clients
    using update_nonce_replayed [OF assms(3) ten mock_n_sel(1)] by (simp add: poll_and_relay_def relay_polled_def polled)
  with assms(4,5) show ?thesis by (simp add: run_iteration_def end_iteration_def Let_def remove_failed_canister_def)
qed

lemma ends_with_error:
  assumes "mock_answer decode (encode (mock_n test_msg_count 0)) = Inr (mock_n test_msg_count 0)"
    and "answered \<le> from_millis POLLING_TIMEOUT_MS"
  shows "should_terminate_polling_with_error encode decode answered looked"
proof -
  let ?p = "test_poller\<lparr>next_message_nonce := of_nat test_msg_count, polling_iteration := polling_iteration test_poller + 1\<rparr>"
  let ?g = "set_clients_gauge (Principal [4]) (dm_len (arcs test_gateway 0)) test_gateway"
  let ?chs = "test_channels(0 := new_channel\<lparr>queue :=
      map (to_client_message [] [] \<circ> mock_message) (nonces_from 0 test_msg_count)\<rparr>)"
  let ?body = "encode (mock_n test_msg_count 0)"
  let ?io = "mock_io decode answered looked" and ?m = "\<lambda>n. \<lparr>mock_body = ?body, expected_hits = 2, hits = n\<rparr>"
  obtain g' where "run_iteration (mock_server decode ?body answered (looked 2)) ?p ?g ?chs =
      Some (\<lparr>poller = ?p, pc = PollerDone (Err (non_consecutive_error (of_nat test_msg_count) 0))\<rparr>, g', ?chs)"
    and g': "dm_get (data g') (Principal [4]) = None"
    using test_second_iteration [OF assms, of ?p ?g 0] by auto
  then have "run_polling ?io ?p ?g ?chs (?m 1) =
      Some (Err (non_consecutive_error (of_nat test_msg_count) 0), g', ?chs, ?m 2)"
    by (subst run_polling.simps) (simp add: mock_run_iteration numeral_2_eq_2 del: fun_upd_apply)
  then have "run_polling ?io test_poller test_gateway test_channels (?m 0) =
      Some (Err (non_consecutive_error (of_nat test_msg_count) 0), g', ?chs, ?m 2)"
    by (subst run_polling.simps) (simp add: mock_run_iteration test_first_iteration [OF assms] del: fun_upd_apply)
  with g' received_in_order [of test_msg_count] show ?thesis
    by (simp add: should_terminate_polling_with_error_def create_test_poller expected_error mock_expect_def mock_assert_def)
qed

text \<open>
  C33: the unit tests of the poller pass, the counts of their requests included. Suppose the codec decodes
  what it encoded; the mock server answers within the time-out; the poller looks at the clock at most 90
  milliseconds after the start of an iteration (when the time-out is over, if the request timed out);
  and the runtime adds some time to an iteration, but less than ten milliseconds. Then the poller
  accepts ten consecutive nonces and rejects a key without one; it relays the ten messages in order,
  sleeps for the rest of its interval if the queue was drained, and does not if it was not or if the
  request timed out; and a server that sends the same messages again ends it with the error of the
  nonces, its canister removed. The mock gets one request in each test of one call or iteration, and two
  in the test of the time-out and in the last one.
\<close>

theorem poller_tests_pass:
  assumes "\<forall>b \<in> {mock_n test_msg_count 0, mock_n_with_key_error test_msg_count 0,
                  mock_n_with_not_end_of_queue test_msg_count 0}. decode (encode b) = Inr b"
    and "answered \<le> from_millis POLLING_TIMEOUT_MS"
    and "looked \<le> from_millis 90" and "0 < late" and "late < from_millis 10"
  shows "should_poll_and_validate_nonces encode decode \<and>
         should_poll_and_fail_to_validate_last_nonce encode decode \<and>
         should_sleep_after_relaying encode decode answered looked late \<and>
         should_not_sleep_after_relaying encode decode answered looked late \<and>
         should_not_sleep_after_timeout decode (from_millis POLLING_TIMEOUT_MS) late \<and>
         should_terminate_polling_with_error encode decode answered looked'"
proof -
  have codec: "decode (encode (mock_n test_msg_count 0)) = Inr (mock_n test_msg_count 0)"
    "decode (encode (mock_n_with_key_error test_msg_count 0)) = Inr (mock_n_with_key_error test_msg_count 0)"
    "decode (encode (mock_n_with_not_end_of_queue test_msg_count 0)) = Inr (mock_n_with_not_end_of_queue test_msg_count 0)"
    using assms(1) by simp_all
  have ans: "mock_answer decode (encode (mock_n test_msg_count 0)) = Inr (mock_n test_msg_count 0)"
    "mock_answer decode (encode (mock_n_with_not_end_of_queue test_msg_count 0)) =
       Inr (mock_n_with_not_end_of_queue test_msg_count 0)"
    by (simp_all add: mock_answer_def codec)
  have "should_sleep_after_relaying encode decode answered looked late"
    unfolding should_sleep_after_relaying_def
    by (subst relays_and_takes_mock [where b = True, OF ans(1) _ _ _ assms(2)])
      (use assms(3-5) in \<open>simp_all add: from_millis_def test_interval_ms_def max_def\<close>)
  moreover have "should_not_sleep_after_relaying encode decode answered looked late"
    unfolding should_not_sleep_after_relaying_def
    by (subst relays_and_takes_mock [where b = False, OF ans(2) _ _ _ assms(2)])
      (use assms(3-5) in \<open>simp_all add: mock_n_with_not_end_of_queue_def from_millis_def test_interval_ms_def\<close>)
  moreover have "should_not_sleep_after_timeout decode (from_millis POLLING_TIMEOUT_MS) late"
    using assms(5) unfolding should_not_sleep_after_timeout_def
    by (simp add: create_test_poller poll_late_server mock_poll_canister mock_poll_and_relay poll_and_relay_def
        relay_polled_def poll_and_relay_time_def mock_expect_def mock_assert_def Let_def)
      (simp add: mock_server_def from_millis_def POLLING_TIMEOUT_MS_def test_interval_ms_def)
  ultimately show ?thesis
    using validates_nonces [of decode encode, OF codec(1)] detects_key_error [of decode encode, OF codec(2)]
      ends_with_error [of decode encode, OF ans(1) assms(2)]
    by blast
qed

text \<open>A codec for the three bodies the tests use.\<close>

definition demo_encode :: "CanisterOutputCertifiedMessages \<Rightarrow> bytes" where
  "demo_encode b =
     (if b = mock_n test_msg_count 0 then [0] else if b = mock_n_with_key_error test_msg_count 0 then [1] else [2])"

definition demo_decode :: "bytes \<Rightarrow> string + CanisterOutputCertifiedMessages" where
  "demo_decode bs =
     (if bs = [0] then Inr (mock_n test_msg_count 0)
      else if bs = [1] then Inr (mock_n_with_key_error test_msg_count 0)
      else if bs = [2] then Inr (mock_n_with_not_end_of_queue test_msg_count 0)
      else Inl ''not candid'')"

theorem poller_tests_pass_witness:
  "should_poll_and_validate_nonces demo_encode demo_decode \<and>
   should_poll_and_fail_to_validate_last_nonce demo_encode demo_decode \<and>
   should_sleep_after_relaying demo_encode demo_decode 0 0 1 \<and>
   should_not_sleep_after_relaying demo_encode demo_decode 0 0 1 \<and>
   should_not_sleep_after_timeout demo_decode (from_millis POLLING_TIMEOUT_MS) 1 \<and>
   should_terminate_polling_with_error demo_encode demo_decode 0 (\<lambda>_. 0)"
proof -
  have "\<forall>b \<in> {mock_n test_msg_count 0, mock_n_with_key_error test_msg_count 0,
      mock_n_with_not_end_of_queue test_msg_count 0}. demo_decode (demo_encode b) = Inr b"
    by (simp add: demo_encode_def demo_decode_def)
  from poller_tests_pass [OF this, of 0 0 1 "\<lambda>_. 0"] show ?thesis by (simp add: from_millis_def)
qed

end
