(* ===== verification/Key_Tests.thy ===== *)
theory Key_Tests
  imports Key_Store
begin

text \<open>
  The unit tests of \<open>src/ic-identity/src/lib.rs\<close>, on the two files of its directory \<open>tests/data\<close>. The key
  format, the identity and the text of a principal belong to libraries and are parameters.
\<close>

section \<open>The test data\<close>

definition test_key_pair_bytes :: bytes where
  "test_key_pair_bytes =
     [48, 83, 2, 1, 1, 48, 5, 6, 3, 43, 101, 112, 4, 34, 4, 32, 63, 210, 68, 221, 172, 7, 25,
      50, 55, 129, 151, 140, 87, 165, 75, 95, 49, 78, 197, 2, 21, 173, 5, 90, 8, 152, 18,
      187, 173, 103, 200, 165, 161, 35, 3, 33, 0, 15, 167, 2, 236, 235, 51, 18, 197, 223,
      116, 240, 49, 49, 2, 165, 8, 19, 74, 213, 229, 125, 110, 219, 208, 107, 89, 68, 215,
      10, 186, 235, 112]"

definition test_data :: file_system where
  "test_data =
     \<lparr>files = [''./tests/data/test_key_pair'' \<mapsto> test_key_pair_bytes, ''./tests/data/wrong_key_pair'' \<mapsto> []],
      dirs = [''./tests'', ''./tests/data'']\<rparr>"

section \<open>The tests\<close>

text \<open>The identity of a key pair is made without an error or a panic, so the test looks at the key pair.\<close>

definition test_get_identity_from_key_pair :: "'key key_env \<Rightarrow> bool" where
  "test_get_identity_from_key_pair env =
     (case fst (load_key_pair env ''./tests/data/test_key_pair'' test_data) of Inr key_pair \<Rightarrow> True | Inl e \<Rightarrow> False)"

definition test_get_identity_from_wrong_key_pair :: "'key key_env \<Rightarrow> bool" where
  "test_get_identity_from_wrong_key_pair env =
     (case fst (load_key_pair env ''./tests/data/wrong_key_pair'' test_data) of
        Inl e \<Rightarrow> e = ''Could not parse the key pair. Error: InvalidEncoding''
      | Inr key_pair \<Rightarrow> False)"

definition test_get_principal_from_identity ::
  "'key key_env \<Rightarrow> ('key \<Rightarrow> 'id) \<Rightarrow> ('id \<Rightarrow> string + 'p) \<Rightarrow> ('p \<Rightarrow> string) \<Rightarrow> bool" where
  "test_get_principal_from_identity env get_identity_from_key_pair sender principal_to_string =
     (case fst (load_key_pair env ''./tests/data/test_key_pair'' test_data) of
        Inl e \<Rightarrow> False
      | Inr key_pair \<Rightarrow>
          (case get_principal_from_identity sender (get_identity_from_key_pair key_pair) of
             Inl e \<Rightarrow> False
           | Inr p \<Rightarrow>
               principal_to_string p =
                 ''7cio4-7j2lx-6f3tp-mkfw7-t4amd-tjphs-hkits-6qa7x-hmnmx-yvwxk-nqe''))"

section \<open>When they pass\<close>

text \<open>The files are there, so no key is made or written; what the parser says of their content decides.\<close>

lemma load_test_data:
  assumes "read_error env = (\<lambda>_. None)"
  shows "load_key_pair env ''./tests/data/test_key_pair'' test_data =
           (parse_key_pair env test_key_pair_bytes, test_data)"
    and "load_key_pair env ''./tests/data/wrong_key_pair'' test_data = (parse_key_pair env [], test_data)"
  using assms by (simp_all add: load_key_pair_def fs_read_def test_data_def)

lemma key_tests_iff:
  assumes "read_error env = (\<lambda>_. None)"
  shows "test_get_identity_from_key_pair env \<longleftrightarrow> (\<exists>k. parse_pkcs8 env test_key_pair_bytes = Inr k)"
    and "test_get_identity_from_wrong_key_pair env \<longleftrightarrow> parse_pkcs8 env [] = Inl ''InvalidEncoding''"
    and "test_get_principal_from_identity env ident sender to_text \<longleftrightarrow>
           (\<exists>k p. parse_pkcs8 env test_key_pair_bytes = Inr k \<and> sender (ident k) = Inr p \<and>
              to_text p = ''7cio4-7j2lx-6f3tp-mkfw7-t4amd-tjphs-hkits-6qa7x-hmnmx-yvwxk-nqe'')"
  using load_test_data [OF assms]
  by (auto simp: test_get_identity_from_key_pair_def test_get_identity_from_wrong_key_pair_def
      test_get_principal_from_identity_def parse_key_pair_def get_principal_from_identity_def
      split: sum.splits)

end
