(* ===== verification/Spec2Isabelle.thy ===== *)
theory Spec2Isabelle
  imports Gateway_Main_Props Gateway_Benchmarks Gateway_Idle Gateway_Entries_Props Gateway_Gauge_Runs Gateway_Relays Gateway_Outlived Poller_Tests Key_Tests
begin

text \<open>
  A model of the IC WebSocket gateway (the Rust workspace under \<open>src/\<close>), and its properties. The gateway
  lets clients hold WebSocket connections with canisters of the Internet Computer, which cannot keep
  connections open: it relays the signed messages of each client to the client's canister, and polls
  each canister with connected clients for messages, which it relays to them.

  \<^bold>\<open>The parts of the program and the theories that model them\<close>

  \<^item> \<open>Prelude\<close>: machine integers, the outcome of a Rust call (a value, an error or a panic), the
    operations of a \<open>DashMap\<close> on finite maps, reachable states, the locale of inductive invariants, fair
    runs, and the locale of progress under fairness (\<open>ranked_progress\<close>).
  \<^item> \<open>Rust_Std\<close>: what the code uses of the standard library: \<open>str::split\<close>, \<open>Iterator::last\<close>,
    \<open>u64::from_str\<close> with its errors, the printing of integers and the debug printing of strings,
    durations.
  \<^item> \<open>Canister_Utils\<close> (crate \<open>canister-utils\<close>): client keys, the messages, the errors of a query, the
    creation of the agent and the two canister methods the gateway calls.
  \<^item> \<open>Gateway_State\<close> (crate \<open>gateway-state\<close>): the state all tasks share, which maps each polled canister
    to the state of its poller, and that to the clients connected to the canister. A poller state is an
    \<open>Arc\<close> held by several tasks, so the maps live in a heap and the gateway state holds references. The
    theory states the registry this implements, the refinement, and the interface of the registry
    as the locale \<open>client_registry\<close>, interpreted on the specification and on the code's model.
  \<^item> \<open>Gateway_Tests\<close> (the unit test of that crate): threads that insert their clients at once.
    \<open>Gateway_Benchmarks\<close> (its benchmarks): two threads with one operation each, in any order, timed; the
    contract of the two threads is the locale \<open>two_thread_contract\<close>.
  \<^item> \<open>Channels\<close>: the bounded \<open>mpsc\<close> channels between pollers and session handlers.
  \<^item> \<open>Canister_Poller\<close> and \<open>Canister_Poller_Props\<close> (\<open>canister_poller.rs\<close>): one iteration polls, checks
    the nonces, relays and sleeps; the loop is a machine (\<open>poller_step\<close>) with a program counter at each
    point where another task can take effect. \<open>Poller_Big_Step\<close> has the loop body in one piece, as the
    source writes it, the loop itself, and shows that the machine run alone computes the same.
    \<open>Poller_Tests\<close> (\<open>tests/canister_poller.rs\<close>): the six unit tests, against a mock server that counts
    its requests, for which \<open>Poller_Big_Step\<close> also has the loop with the state of what answers it.
  \<^item> \<open>Client_Session\<close> and \<open>Client_Session_Props\<close> (\<open>client_session.rs\<close>): the state machine of one session
    (Init, Setup, Open, Closed), driven by the messages of the client and of the channel.
  \<^item> \<open>Session_Handler\<close> and \<open>Session_Handler_Props\<close> (\<open>client_session_handler.rs\<close>): what a handler does on
    each change of its session: register the client, relay its first message, start a poller, clean up.
  \<^item> \<open>Gateway_System\<close>, \<open>Gateway_System_Props\<close>, \<open>Gateway_Runs\<close> and \<open>Gateway_Safety\<close>: all handlers and
    pollers as concurrent tasks over the shared state and the channels, as a step relation
    (\<open>gateway_step\<close>); its invariant; schedules, which evaluate concrete runs; the safety theorems.
  \<^item> \<open>Gateway_Sessions\<close>, \<open>Gateway_Liveness\<close> and \<open>Gateway_Idle\<close>: what holds of each session over its whole
    life: the shape of its task, its one \<open>ws_close\<close>, and that it ends when its poller does, in every
    weakly fair run; and that a poller ends when its clients are gone. \<open>Gateway_Outlived\<close>: sessions that
    still act after their poller has failed.
  \<^item> \<open>Gateway_Relays\<close>: the same system with the tasks that relay the messages of clients
    (\<open>relay_step\<close>). A session only records that it has spawned one (\<open>SpawnUpdateSigned\<close> in
    \<open>started_calls\<close>); its call to the canister is a step of that task, which nothing orders.
  \<^item> \<open>Gateway_Locks\<close> and \<open>Gateway_Locks_Props\<close>: the same system with the read lock a poller holds on a
    shard of its clients while it waits to send, and the write locks the handlers wait for
    (\<open>locked_step\<close>). \<open>Gateway_Entries\<close> and \<open>Gateway_Entries_Props\<close> add the locks of the map of
    canisters (\<open>entry_step\<close>): a handler keeps the entry of its canister while it waits for the shard of
    its client, and counting the active pollers waits for all entries. The assignments of keys to
    shards are parameters.
  \<^item> \<open>Gateway_Gauges\<close> and \<open>Gateway_Gauge_Runs\<close>: the same system with the gauge of active pollers, which
    the tasks set in two steps, counting the canisters and setting the gauge (\<open>gauged_step\<close>).
  \<^item> \<open>Ws_Listener\<close> and \<open>Ws_Listener_Props\<close> (\<open>ws_listener.rs\<close>): client identifiers, TLS handshakes in tasks
    of their own, and the loop that starts session handlers.
  \<^item> \<open>Key_Store\<close> (crate \<open>ic-identity\<close> and \<open>principal_from_key_pair.rs\<close>), \<open>Gateway_Main\<close> and
    \<open>Gateway_Main_Props\<close> (\<open>main.rs\<close>, \<open>manager.rs\<close>): the start of the gateway. \<open>Gateway_Telemetry\<close>
    (\<open>gateway_tracing.rs\<close>, \<open>gateway_metrics.rs\<close>): the tracing and metrics it installs. \<open>Key_Tests\<close>: the
    unit tests of \<open>ic-identity\<close>.

  \<^bold>\<open>What the model relies on\<close>

  Code that is not in the repository is an argument of the definitions that use it: the codecs, the
  envelope type and the WebSocket sink (\<open>session_env\<close>), the agent (\<open>poller_env\<close>, \<open>canister_calls\<close>), TLS and
  files (\<open>listener_env\<close>, \<open>key_env\<close>), the parts of the start (\<open>main_env\<close>). An environment may answer
  differently at each step. Where a theorem needs more, it says so as a hypothesis: that what was read
  as an envelope can be written again (\<open>steady\<close>), that the handshake can be written, that the canister
  answers from one log of messages with consecutive nonces (\<open>answers_from\<close>), that an agent has the
  principal of its identity. The operations of a \<open>DashMap\<close> are atomic, as its documentation promises. In
  \<open>gateway_step\<close> they never wait; \<open>locked_step\<close> makes the handlers wait for the guards of pollers,
  \<open>entry_step\<close> makes handlers and pollers wait for the entries of canisters too, and both are shown to
  refine \<open>gateway_step\<close>, so the safety theorems hold with the locks as well. There a message of
  the client is read in one step and acted upon in another; a message of the channel is taken when the
  handler can act on it at once. The liveness theorem assumes that a step of the handler that stays
  enabled is taken, which the locks can prevent; the deadlock theorem says when.

  Arithmetic on nonces, iteration counters and client identifiers is on 64-bit words and wraps, as in
  the release build. Durations are natural numbers of nanoseconds, and a subtraction that would be
  negative is a panic.

  \<^bold>\<open>Bounds\<close>

  A channel holds 100 messages. A poller that relays \<open>k\<close> messages is back at its sleep or check, or has
  failed, within \<open>k + 5\<close> of its steps if the channels have room for \<open>k\<close> more (\<open>iteration_ends\<close>); there is
  no other fuel, and \<open>run_polling\<close> is a partial function, which is None where the loop does not end. The
  unit test has a thousand clients, the benchmarks ten thousand iterations and the simulation a hundred,
  the tests of the poller ten messages, as in the source.

  \<^bold>\<open>What the theorems show\<close>

  \<^item> The gateway state implements its registry on every sequence of operations; concurrent first clients
    of a canister start one poller; a poller that removes its canister does not lose a client.
  \<^item> Nonces: a batch is accepted exactly if its nonces follow on (but any nonce follows the largest one,
    since 0 stands for a poller that has not polled yet); a replayed batch is rejected; polling
    a consistent log relays a prefix of it, each message once, in order.
  \<^item> Sessions move along the edges of the protocol, keep their client and canister, and relay each
    message unchanged; a control frame ends a session.
  \<^item> Handlers register a client before they relay its first message, and clean up in order.
  \<^item> The whole gateway: at most one poller per canister, no entry without a running session, no panic of
    a poller; the two ways in which a handler can panic, each with a run that shows it; a canister whose
    first client could not be relayed stays without a poller, and otherwise each polled canister has one.
    A session that closes after its poller failed and another client has registered the canister anew
    panics.
  \<^item> Each session over its life: the data its task relies on are there; it calls \<open>ws_close\<close> at
    most once, as the last call it starts; and it ends if its poller does. A poller without clients
    ends, or gets a client.
  \<^item> Relays: each message spawned is relayed once, but the messages of a client can reach the canister in
    any order, and after \<open>ws_close\<close>.
  \<^item> Locks: what happens with them also happens without them, but a session that leaves while its full channel keeps the poller
    waiting stops both for ever; a run of the gateway leads there. The deadlock spreads to the canisters
    of the same shard and to the start of every poller; and nothing but a full channel leads to one:
    if no guard waits for room, each decision can still be carried out and each entry become free.
  \<^item> The gauge of active pollers is right when no report is due, unless reports overlap with the start or
    end of a poller; then it can stay wrong.
  \<^item> The poller's machine and its loop body agree; the unit tests of the poller pass, with as many
    requests as they expect; in no benchmark is the canister ever removed, given a second poller state, or
    a client lost.
  \<^item> The listener gives distinct identifiers, finds the time of each connection, never forgets one, and
    can be stopped by an error of \<open>accept\<close>.
  \<^item> A successful start leads to the initial states of these systems, and a restart keeps the principal.

  \<^bold>\<open>What is not modelled\<close>

  Spans, logs, histograms and counters, and when the exporter drops a gauge (the gauges of clients per
  canister and of active pollers are modelled); the formats and exporters of tracing and metrics, the
  parser of the command line, the agent, TLS and the codecs, which are libraries; the ratios the
  benchmarks print; the test canister, scripts and dashboards. A handler holds an entry over several
  steps only where it carries out a decision on a message of its client; the same wait after a message
  of the channel or a failed relay is one in which the handler holds nothing. A poller reads the number
  of its clients and sets their gauge in one step, which no theorem rests on, and the call of \<open>ws_close\<close>
  that a handler awaits is one step, whatever comes of it. Worker threads are not
  counted. In both respects a deadlock of the program can stop more tasks than the theorems name.
\<close>

end
